(* ===== verification/Prelude.thy ===== *)
theory Prelude
  imports Main "HOL-Library.Char_ord" "HOL-Library.List_Lexorder" "HOL-Library.AList"
begin

text \<open>
  Shared vocabulary of the development: byte strings, results, and the generic lemmas on
  lists, characters and numbers that the component theories use.

  A Go \<open>string\<close> and a Go \<open>[]byte\<close> are both finite sequences of bytes. HOL's \<open>char\<close> has
  exactly the 256 byte values, so both are a \<open>char list\<close> (\<open>bytes\<close>); a byte is read as a
  number with \<open>of_char\<close>. A Go function that returns \<open>(T, error)\<close> returns a sum
  \<open>'e + 'a\<close>, \<open>Inl\<close> for the error, with one constructor of the component's error type for
  each place where the source returns an error.
\<close>

type_synonym bytes = string

named_theorems codec_simps \<open>round trips and shape facts of the text codecs\<close>

section \<open>Results\<close>

definition is_ok :: "'e + 'a \<Rightarrow> bool" where
  "is_ok r = (case r of Inl _ \<Rightarrow> False | Inr _ \<Rightarrow> True)"

lemma is_ok_simps [simp]: "is_ok (Inl e) = False" "is_ok (Inr a) = True"
  by (simp_all add: is_ok_def)

lemma is_ok_iff: "is_ok r \<longleftrightarrow> (\<exists>a. r = Inr a)"
  by (cases r) auto

text \<open>Sequencing of fallible computations: the error of the first one ends the run.\<close>

definition rbind :: "'e + 'a \<Rightarrow> ('a \<Rightarrow> 'e + 'b) \<Rightarrow> 'e + 'b" where
  "rbind r f = (case r of Inl e \<Rightarrow> Inl e | Inr a \<Rightarrow> f a)"

lemma rbind_simps [simp]: "rbind (Inl e) f = Inl e" "rbind (Inr a) f = f a"
  by (simp_all add: rbind_def)

lemma rbind_Inr_iff: "rbind r f = Inr b \<longleftrightarrow> (\<exists>a. r = Inr a \<and> f a = Inr b)"
  by (cases r) auto

definition of_option :: "'e \<Rightarrow> 'a option \<Rightarrow> 'e + 'a" where
  "of_option e x = (case x of None \<Rightarrow> Inl e | Some a \<Rightarrow> Inr a)"

lemma of_option_simps [simp]: "of_option e None = Inl e" "of_option e (Some a) = Inr a"
  by (simp_all add: of_option_def)

lemma of_option_Inr_iff: "of_option e x = Inr a \<longleftrightarrow> x = Some a"
  by (cases x) auto

section \<open>Lists\<close>

lemma map_of_eq_filter_hd:
  "map_of xs k = (case filter (\<lambda>p. fst p = k) xs of [] \<Rightarrow> None | p # _ \<Rightarrow> Some (snd p))"
  by (induction xs) (auto split: list.splits)

text \<open>Comparison of two strings of one length decided by the last character.\<close>

lemma list_less_snoc:
  fixes xs ys :: "'a::linorder list"
  assumes "length xs = length ys"
  shows "xs @ [a] < ys @ [b] \<longleftrightarrow> xs < ys \<or> (xs = ys \<and> a < b)"
  using assms
proof (induction xs ys rule: list_induct2)
  case Nil
  then show ?case by simp
next
  case (Cons x xs y ys)
  then show ?case by auto
qed

section \<open>Bytes as numbers\<close>

abbreviation byte_val :: "char \<Rightarrow> nat" where
  "byte_val c \<equiv> of_char c"

lemma byte_val_less [simp]: "byte_val c < 256"
  using nat_of_char_less_256 by simp

lemma byte_val_div16 [simp]: "byte_val c div 16 < 16"
  using byte_val_less [of c] by (simp only: less_mult_imp_div_less)

lemma char_of_byte_val [simp]: "char_of (byte_val c) = c"
  by simp

lemma byte_val_char_of: "n < 256 \<Longrightarrow> byte_val (char_of n) = n"
  by simp

lemma byte_val_eq_iff: "byte_val c = byte_val d \<longleftrightarrow> c = d"
  by (metis char_of_byte_val)

section \<open>Association lists\<close>

text \<open>A Go map is an association list with distinct keys: a new key goes to its end.\<close>

lemma update_new: "k \<notin> fst ` set al \<Longrightarrow> AList.update k v al = al @ [(k, v)]"
  by (induction al) auto

end
