(* ===== verification/Sqlite.thy ===== *)
theory Sqlite
  imports Prelude "HOL-Library.AList" "HOL-Library.Multiset"
begin

text \<open>
  \<open>internal/store/sqlite.go\<close>: the metadata tables. A table is an association list from its primary
  key to the other columns, in insertion order; the SQL statements of the source are functions on
  it (\<open>INSERT ... ON CONFLICT DO UPDATE\<close> and \<open>INSERT OR REPLACE\<close> are an update by key,
  \<open>SELECT ... WHERE\<close> is a lookup or a filter, \<open>ORDER BY\<close> a stable sort). The handle is nil before
  \<open>Init\<close> and refuses statements after \<open>Close\<close>. The driver may fail any statement: the argument
  \<open>drv\<close> says whether it accepts this one. \<open>now\<close> is \<open>CURRENT_TIMESTAMP\<close>. The tables manifests and
  conflicts are created by the schema and used by no code.
\<close>

record space_row =
  owner_pubkey :: string
  sym_key_enc :: string
  replication_factor :: int
  name :: string

record peer_row =
  pubkey :: string
  addresses :: string
  last_seen :: int
  latency_ms :: int

record sqlite_db =
  chunks :: "(string \<times> (string \<times> int)) list"
  spaces :: "(string \<times> space_row) list"
  peers :: "(string \<times> peer_row) list"
  chunk_locations :: "((string \<times> string) \<times> int) list"

datatype sqlite_handle = SqlNil | SqlClosed | SqlOpen sqlite_db

record sqlite_store =
  dbPath :: string
  sq_db :: sqlite_handle

datatype sql_err = SqlNotInit | SqlDriver | SqlNoRows

definition NewSQLiteStore :: "string \<Rightarrow> sqlite_store" where
  "NewSQLiteStore path = \<lparr>dbPath = path, sq_db = SqlNil\<rparr>"

text \<open>
  \<open>Init\<close>: \<open>disk\<close> is the content of the database file. The schema only creates what is missing.
\<close>

definition sqlite_Init :: "bool \<Rightarrow> bool \<Rightarrow> sqlite_db \<Rightarrow> sqlite_store \<Rightarrow> sql_err option \<times> sqlite_store" where
  "sqlite_Init opened schema_ok disk s =
     (if \<not> opened then (Some SqlDriver, s\<lparr>sq_db := SqlNil\<rparr>)
      else (if schema_ok then None else Some SqlDriver, s\<lparr>sq_db := SqlOpen disk\<rparr>))"

definition sqlite_Close :: "sqlite_store \<Rightarrow> sqlite_store" where
  "sqlite_Close s = (case sq_db s of SqlNil \<Rightarrow> s | _ \<Rightarrow> s\<lparr>sq_db := SqlClosed\<rparr>)"

text \<open>One statement that changes the database, and one that reads it.\<close>

definition sql_exec :: "bool \<Rightarrow> (sqlite_db \<Rightarrow> sqlite_db) \<Rightarrow> sqlite_store \<Rightarrow> sql_err option \<times> sqlite_store" where
  "sql_exec drv f s = (case sq_db s of
     SqlNil \<Rightarrow> (Some SqlNotInit, s)
   | SqlClosed \<Rightarrow> (Some SqlDriver, s)
   | SqlOpen d \<Rightarrow> if drv then (None, s\<lparr>sq_db := SqlOpen (f d)\<rparr>) else (Some SqlDriver, s))"

definition sql_query :: "bool \<Rightarrow> (sqlite_db \<Rightarrow> sql_err + 'a) \<Rightarrow> sqlite_store \<Rightarrow> sql_err + 'a" where
  "sql_query drv q s = (case sq_db s of
     SqlNil \<Rightarrow> Inl SqlNotInit
   | SqlClosed \<Rightarrow> Inl SqlDriver
   | SqlOpen d \<Rightarrow> if drv then q d else Inl SqlDriver)"

definition UpsertChunk :: "bool \<Rightarrow> sqlite_store \<Rightarrow> string \<Rightarrow> string \<Rightarrow> int \<Rightarrow> sql_err option \<times> sqlite_store" where
  "UpsertChunk drv s hash filePath sz =
     sql_exec drv (\<lambda>d. d\<lparr>chunks := AList.update hash (filePath, sz) (chunks d)\<rparr>) s"

definition GetChunkPath :: "bool \<Rightarrow> sqlite_store \<Rightarrow> string \<Rightarrow> sql_err + string" where
  "GetChunkPath drv s hash =
     sql_query drv (\<lambda>d. of_option SqlNoRows (map_option fst (map_of (chunks d) hash))) s"

definition UpsertPeer ::
  "bool \<Rightarrow> int \<Rightarrow> sqlite_store \<Rightarrow> string \<Rightarrow> string \<Rightarrow> string \<Rightarrow> int \<Rightarrow> sql_err option \<times> sqlite_store" where
  "UpsertPeer drv now s pid key addrs latency =
     sql_exec drv (\<lambda>d. d\<lparr>peers := AList.update pid
       \<lparr>pubkey = key, addresses = addrs, last_seen = now, latency_ms = latency\<rparr> (peers d)\<rparr>) s"

definition GetPeer :: "bool \<Rightarrow> sqlite_store \<Rightarrow> string \<Rightarrow> sql_err + (string \<times> string \<times> int)" where
  "GetPeer drv s pid = sql_query drv (\<lambda>d.
     of_option SqlNoRows
       (map_option (\<lambda>r. (pubkey r, addresses r, latency_ms r)) (map_of (peers d) pid))) s"

definition RecordChunkLocation :: "bool \<Rightarrow> int \<Rightarrow> sqlite_store \<Rightarrow> string \<Rightarrow> string \<Rightarrow> sql_err option \<times> sqlite_store" where
  "RecordChunkLocation drv now s chunkHash peerID =
     sql_exec drv (\<lambda>d. d\<lparr>chunk_locations := AList.update (chunkHash, peerID) now (chunk_locations d)\<rparr>) s"

definition by_time_desc :: "('k \<times> int) list \<Rightarrow> ('k \<times> int) list" where
  "by_time_desc rows = sort_key (\<lambda>r. - snd r) rows"

definition GetChunkPeers :: "bool \<Rightarrow> sqlite_store \<Rightarrow> string \<Rightarrow> sql_err + string list" where
  "GetChunkPeers drv s chunkHash = sql_query drv (\<lambda>d.
     Inr (map (snd \<circ> fst) (by_time_desc (filter (\<lambda>r. fst (fst r) = chunkHash) (chunk_locations d))))) s"

definition GetPeerChunks :: "bool \<Rightarrow> sqlite_store \<Rightarrow> string \<Rightarrow> sql_err + string list" where
  "GetPeerChunks drv s peerID = sql_query drv (\<lambda>d.
     Inr (map (fst \<circ> fst) (by_time_desc (filter (\<lambda>r. snd (fst r) = peerID) (chunk_locations d))))) s"

definition RemoveChunkLocation :: "bool \<Rightarrow> sqlite_store \<Rightarrow> string \<Rightarrow> string \<Rightarrow> sql_err option \<times> sqlite_store" where
  "RemoveChunkLocation drv s chunkHash peerID =
     sql_exec drv (\<lambda>d. d\<lparr>chunk_locations := AList.delete (chunkHash, peerID) (chunk_locations d)\<rparr>) s"

section \<open>Well-formed databases\<close>

text \<open>Primary keys are unique: an invariant of every statement.\<close>

definition db_ok :: "sqlite_db \<Rightarrow> bool" where
  "db_ok d \<longleftrightarrow> distinct (map fst (chunks d)) \<and> distinct (map fst (spaces d)) \<and>
     distinct (map fst (peers d)) \<and> distinct (map fst (chunk_locations d))"

definition sqlite_ok :: "sqlite_store \<Rightarrow> bool" where
  "sqlite_ok s = (case sq_db s of SqlOpen d \<Rightarrow> db_ok d | _ \<Rightarrow> True)"

text \<open>When a peer was last recorded to hold a chunk.\<close>

definition location :: "sqlite_store \<Rightarrow> string \<Rightarrow> string \<Rightarrow> int option" where
  "location s h p = (case sq_db s of SqlOpen d \<Rightarrow> map_of (chunk_locations d) (h, p) | _ \<Rightarrow> None)"

lemma sql_exec_None:
  "sql_exec drv f s = (None, s') \<longleftrightarrow> (\<exists>d. sq_db s = SqlOpen d \<and> drv \<and> s' = s\<lparr>sq_db := SqlOpen (f d)\<rparr>)"
  by (auto simp: sql_exec_def split: sqlite_handle.splits if_splits)

lemma sql_exec_Some: "sql_exec drv f s = (Some e, s') \<Longrightarrow> s' = s"
  by (auto simp: sql_exec_def split: sqlite_handle.splits if_splits)

lemma sql_query_Inr: "sql_query drv q s = Inr a \<longleftrightarrow> (\<exists>d. sq_db s = SqlOpen d \<and> drv \<and> q d = Inr a)"
  by (auto simp: sql_query_def split: sqlite_handle.splits)

lemma db_ok_update [simp]:
  "db_ok d \<Longrightarrow> db_ok (d\<lparr>chunks := AList.update k1 v1 (chunks d)\<rparr>)"
  "db_ok d \<Longrightarrow> db_ok (d\<lparr>spaces := AList.update k2 v2 (spaces d)\<rparr>)"
  "db_ok d \<Longrightarrow> db_ok (d\<lparr>peers := AList.update k3 v3 (peers d)\<rparr>)"
  "db_ok d \<Longrightarrow> db_ok (d\<lparr>chunk_locations := AList.update k4 v4 (chunk_locations d)\<rparr>)"
  "db_ok d \<Longrightarrow> db_ok (d\<lparr>chunk_locations := AList.delete k4 (chunk_locations d)\<rparr>)"
  by (simp_all add: db_ok_def AList.distinct_update distinct_delete)

lemma sqlite_ok_exec:
  "sqlite_ok s \<Longrightarrow> (\<And>d. db_ok d \<Longrightarrow> db_ok (f d)) \<Longrightarrow> sqlite_ok (snd (sql_exec drv f s))"
  by (auto simp: sqlite_ok_def sql_exec_def split: sqlite_handle.splits)

lemma sorted_by_time_desc: "sorted_wrt (\<lambda>a b. snd b \<le> snd a) (by_time_desc rows)"
  using sorted_sort_key [of "\<lambda>r. - snd r" rows] unfolding by_time_desc_def
  by (simp add: sorted_map)

lemma set_by_time_desc [simp]: "set (by_time_desc rows) = set rows"
  by (simp add: by_time_desc_def)

lemma distinct_by_time_desc [simp]: "distinct (map f (by_time_desc rows)) = distinct (map f rows)"
  unfolding by_time_desc_def by (metis mset_map mset_sort mset_eq_imp_distinct_iff)

section \<open>Properties\<close>

text \<open>
  \<open>RecordChunkLocation\<close> and \<open>RemoveChunkLocation\<close> maintain one relation of which peer holds
  which chunk and since when: recording sets exactly that pair to the current time, removing clears
  exactly that pair, a failed statement changes nothing, and primary keys stay unique.
\<close>

theorem chunk_locations_tracked:
  assumes "sqlite_ok s"
  shows "(case RecordChunkLocation drv now s h p of
      (Some _, s') \<Rightarrow> s' = s
    | (None, s') \<Rightarrow> sqlite_ok s' \<and>
        location s' = (\<lambda>h' p'. if (h', p') = (h, p) then Some now else location s h' p')) \<and>
    (case RemoveChunkLocation drv s h p of
      (Some _, s') \<Rightarrow> s' = s
    | (None, s') \<Rightarrow> sqlite_ok s' \<and>
        location s' = (\<lambda>h' p'. if (h', p') = (h, p) then None else location s h' p'))"
  using assms
  by (auto simp: RecordChunkLocation_def RemoveChunkLocation_def sql_exec_def location_def sqlite_ok_def
      update_conv' delete_conv' fun_eq_iff split: sqlite_handle.splits)

definition demo_sqlite :: sqlite_store where
  "demo_sqlite = \<lparr>dbPath = ''meta.db'', sq_db = SqlOpen \<lparr>chunks = [], spaces = [], peers = [],
     chunk_locations = [((''h1'', ''bob''), 5), ((''h1'', ''eve''), 9), ((''h2'', ''bob''), 7)]\<rparr>\<rparr>"

theorem chunk_locations_tracked_witness:
  "(case RecordChunkLocation True 12 demo_sqlite ''h2'' ''eve'' of
      (Some _, s') \<Rightarrow> s' = demo_sqlite
    | (None, s') \<Rightarrow> sqlite_ok s' \<and>
        location s' = (\<lambda>h' p'. if (h', p') = (''h2'', ''eve'') then Some 12 else location demo_sqlite h' p')) \<and>
    (case RemoveChunkLocation True demo_sqlite ''h2'' ''eve'' of
      (Some _, s') \<Rightarrow> s' = demo_sqlite
    | (None, s') \<Rightarrow> sqlite_ok s' \<and>
        location s' = (\<lambda>h' p'. if (h', p') = (''h2'', ''eve'') then None else location demo_sqlite h' p'))"
  by (rule chunk_locations_tracked) (simp add: sqlite_ok_def db_ok_def demo_sqlite_def)

text \<open>
  \<open>GetChunkPeers\<close> and \<open>GetPeerChunks\<close> are two views of one relation: each lists, without
  repetition and most recently confirmed first, exactly the pairs of the relation.
\<close>

theorem chunk_locations_views:
  assumes "sqlite_ok s" "GetChunkPeers drv s h = Inr ps" "GetPeerChunks drv s p = Inr hs"
  shows "set ps = {q. location s h q \<noteq> None} \<and> set hs = {k. location s k p \<noteq> None} \<and>
    distinct ps \<and> distinct hs \<and>
    sorted_wrt (\<lambda>a b. the (location s h b) \<le> the (location s h a)) ps \<and>
    sorted_wrt (\<lambda>a b. the (location s b p) \<le> the (location s a p)) hs"
proof -
  obtain d where d: "sq_db s = SqlOpen d" and drv: "drv" using assms(2) by (auto simp: GetChunkPeers_def sql_query_Inr)
  let ?t = "chunk_locations d"
  have dis: "distinct (map fst ?t)" using assms(1) d by (simp add: sqlite_ok_def db_ok_def)
  let ?R = "by_time_desc (filter (\<lambda>r. fst (fst r) = h) ?t)" and ?S = "by_time_desc (filter (\<lambda>r. snd (fst r) = p) ?t)"
  have ps: "ps = map (snd \<circ> fst) ?R" and hs: "hs = map (fst \<circ> fst) ?S"
    using assms(2,3) d drv by (auto simp: GetChunkPeers_def GetPeerChunks_def sql_query_Inr)
  have loc: "location s a b = Some t \<longleftrightarrow> ((a, b), t) \<in> set ?t" for a b t
    using dis by (simp add: location_def d)
  have tR: "r \<in> set ?R \<Longrightarrow> location s h (snd (fst r)) = Some (snd r)" for r by (cases r) (auto simp: loc)
  have tS: "r \<in> set ?S \<Longrightarrow> location s (fst (fst r)) p = Some (snd r)" for r by (cases r) (auto simp: loc)
  have "distinct (map fst ?R)" "distinct (map fst ?S)" using dis by (simp_all add: distinct_map_filter)
  then have "distinct ps" "distinct hs"
    unfolding ps hs by (auto simp: distinct_map inj_on_def)
  moreover have "set ps = {q. location s h q \<noteq> None}" "set hs = {k. location s k p \<noteq> None}"
    unfolding ps hs by (force simp: loc)+
  moreover have "sorted_wrt (\<lambda>a b. the (location s h b) \<le> the (location s h a)) ps"
    unfolding ps sorted_wrt_map
    by (rule sorted_wrt_mono_rel [OF _ sorted_by_time_desc]) (simp add: tR)
  moreover have "sorted_wrt (\<lambda>a b. the (location s b p) \<le> the (location s a p)) hs"
    unfolding hs sorted_wrt_map
    by (rule sorted_wrt_mono_rel [OF _ sorted_by_time_desc]) (simp add: tS)
  ultimately show ?thesis by blast
qed

theorem chunk_locations_views_witness:
  "set [''eve'', ''bob''] = {q. location demo_sqlite ''h1'' q \<noteq> None} \<and>
    set [''h2'', ''h1''] = {k. location demo_sqlite k ''bob'' \<noteq> None} \<and>
    distinct [''eve'', ''bob''] \<and> distinct [''h2'', ''h1''] \<and>
    sorted_wrt (\<lambda>a b. the (location demo_sqlite ''h1'' b) \<le> the (location demo_sqlite ''h1'' a)) [''eve'', ''bob''] \<and>
    sorted_wrt (\<lambda>a b. the (location demo_sqlite b ''bob'') \<le> the (location demo_sqlite a ''bob'')) [''h2'', ''h1'']"
  by (rule chunk_locations_views [where drv = True])
    (simp_all add: sqlite_ok_def db_ok_def demo_sqlite_def GetChunkPeers_def GetPeerChunks_def sql_query_def
      by_time_desc_def)

end
