(* ===== verification/GoText.thy ===== *)
theory GoText
  imports Prelude
begin

text \<open>
  The parts of Go's \<open>strconv\<close>, \<open>fmt\<close>, \<open>strings\<close> and \<open>encoding/hex\<close> that the program uses:
  decimal printing (\<open>strconv.Itoa\<close>, \<open>%d\<close>, \<open>%010d\<close>) and parsing (\<open>strconv.Atoi\<close>,
  \<open>strconv.ParseInt(s, 10, 64)\<close>), hexadecimal encoding and decoding, \<open>strings.HasPrefix\<close>,
  \<open>TrimPrefix\<close> and \<open>SplitN(s, ":", 3)\<close>. Each comes with its round trip; zero-padded numbers
  come with the fact that their byte order is the numeric order up to ten digits.
\<close>

section \<open>Decimal numbers\<close>

definition digit :: "nat \<Rightarrow> char" where
  "digit n = char_of (48 + n)"

definition is_digit :: "char \<Rightarrow> bool" where
  "is_digit c = (48 \<le> byte_val c \<and> byte_val c \<le> 57)"

definition digit_val :: "char \<Rightarrow> nat" where
  "digit_val c = byte_val c - 48"

lemma byte_val_digit [simp]: "n < 10 \<Longrightarrow> byte_val (digit n) = 48 + n"
  by (simp add: digit_def)

lemma is_digit_digit [simp]: "n < 10 \<Longrightarrow> is_digit (digit n)"
  by (simp add: is_digit_def)

lemma digit_val_digit [simp]: "n < 10 \<Longrightarrow> digit_val (digit n) = n"
  by (simp add: digit_val_def)

lemma digit_less_iff: "a < 10 \<Longrightarrow> b < 10 \<Longrightarrow> digit a < digit b \<longleftrightarrow> a < b"
  by (simp add: less_char_def)

lemma digit_eq_iff: "a < 10 \<Longrightarrow> b < 10 \<Longrightarrow> digit a = digit b \<longleftrightarrow> a = b"
  by (metis digit_val_digit)

fun dec_digits :: "nat \<Rightarrow> string" where
  "dec_digits n = (if n < 10 then [digit n] else dec_digits (n div 10) @ [digit (n mod 10)])"

declare dec_digits.simps [simp del]

definition fmt_int :: "int \<Rightarrow> string" where
  "fmt_int i = (if i < 0 then CHR ''-'' # dec_digits (nat (- i)) else dec_digits (nat i))"

definition pad10 :: "nat \<Rightarrow> string" where
  "pad10 n = (let s = dec_digits n in replicate (10 - length s) (CHR ''0'') @ s)"

text \<open>Digit strings read from the left, as \<open>strconv\<close> does.\<close>

definition digits_val :: "string \<Rightarrow> nat" where
  "digits_val s = foldl (\<lambda>acc c. 10 * acc + digit_val c) 0 s"

definition int64_min :: int where "int64_min = - 9223372036854775808"
definition int64_max :: int where "int64_max = 9223372036854775807"

definition in_int64 :: "int \<Rightarrow> bool" where
  "in_int64 i = (int64_min \<le> i \<and> i \<le> int64_max)"

text \<open>The value of an \<open>int64\<close> expression whose exact result is \<open>i\<close>: two's complement wrap-around.\<close>

definition wrap64 :: "int \<Rightarrow> int" where
  "wrap64 i = (i + 9223372036854775808) mod 18446744073709551616 - 9223372036854775808"

lemma in_int64_wrap64 [simp]: "in_int64 (wrap64 i)"
proof -
  have "0 \<le> (i + 9223372036854775808) mod 18446744073709551616"
    "(i + 9223372036854775808) mod 18446744073709551616 < 18446744073709551616" by simp_all
  then show ?thesis by (simp add: in_int64_def wrap64_def int64_min_def int64_max_def)
qed

lemma wrap64_id [simp]: "in_int64 i \<Longrightarrow> wrap64 i = i"
  by (simp add: in_int64_def wrap64_def int64_min_def int64_max_def)

definition parse_int64 :: "string \<Rightarrow> int option" where
  "parse_int64 s =
     (let neg = (case s of c # _ \<Rightarrow> c = CHR ''-'' | [] \<Rightarrow> False);
          ds = (case s of c # r \<Rightarrow> if c = CHR ''-'' \<or> c = CHR ''+'' then r else s | [] \<Rightarrow> [])
      in if ds = [] \<or> \<not> list_all is_digit ds then None
         else let v = (if neg then - int (digits_val ds) else int (digits_val ds))
              in if int64_min \<le> v \<and> v \<le> int64_max then Some v else None)"

lemma dec_digits_ne [simp]: "dec_digits n \<noteq> []"
  by (subst dec_digits.simps) simp

lemma dec_digits_all [simp]: "list_all is_digit (dec_digits n)"
proof (induction n rule: dec_digits.induct)
  case (1 n)
  then show ?case by (subst dec_digits.simps) simp
qed

lemma digits_val_snoc: "digits_val (s @ [c]) = 10 * digits_val s + digit_val c"
  by (simp add: digits_val_def)

lemma digits_val_dec_digits [simp]: "digits_val (dec_digits n) = n"
proof (induction n rule: dec_digits.induct)
  case (1 n)
  show ?case
  proof (cases "n < 10")
    case True
    then show ?thesis by (subst dec_digits.simps) (simp add: digits_val_def)
  next
    case False
    with 1 show ?thesis by (subst dec_digits.simps) (simp add: digits_val_snoc)
  qed
qed

lemma dec_digits_head: "\<exists>c r. dec_digits n = c # r \<and> is_digit c"
  using dec_digits_all [of n] dec_digits_ne [of n] by (cases "dec_digits n") auto

lemma is_digit_not_sign: "is_digit c \<Longrightarrow> c \<noteq> CHR ''-'' \<and> c \<noteq> CHR ''+''"
  by (auto simp: is_digit_def)

text \<open>\<open>Atoi (Itoa i) = i\<close> for every 64-bit integer.\<close>

lemma parse_int64_fmt_int [codec_simps]:
  assumes "in_int64 i"
  shows "parse_int64 (fmt_int i) = Some i"
proof (cases "i < 0")
  case True
  with assms show ?thesis
    by (simp add: parse_int64_def fmt_int_def Let_def in_int64_def)
next
  case False
  obtain c r where cr: "dec_digits (nat i) = c # r" "is_digit c"
    using dec_digits_head by blast
  have "list_all is_digit (c # r)" "digits_val (c # r) = nat i"
    using dec_digits_all [of "nat i"] digits_val_dec_digits [of "nat i"] cr by auto
  with False assms cr is_digit_not_sign [of c] show ?thesis
    by (auto simp: parse_int64_def fmt_int_def Let_def in_int64_def)
qed

lemma parse_int64_range: "parse_int64 s = Some i \<Longrightarrow> in_int64 i"
  by (auto simp: parse_int64_def Let_def in_int64_def split: if_splits)

text \<open>
  Fixed-width numbers: \<open>dec_fixed k n\<close> is the last \<open>k\<close> digits of \<open>n\<close>. It is the
  reference form of \<open>pad10\<close>, on which the order is easy to compare.
\<close>

fun dec_fixed :: "nat \<Rightarrow> nat \<Rightarrow> string" where
  "dec_fixed 0 n = []"
| "dec_fixed (Suc k) n = dec_fixed k (n div 10) @ [digit (n mod 10)]"

lemma length_dec_fixed [simp]: "length (dec_fixed k n) = k"
  by (induction k arbitrary: n) auto

lemma less_by_last_digit:
  fixes a b :: nat
  shows "a < b \<longleftrightarrow> a div 10 < b div 10 \<or> (a div 10 = b div 10 \<and> a mod 10 < b mod 10)"
proof -
  have "(10 * q + r < 10 * q' + r') = (q < q' \<or> (q = q' \<and> r < r'))"
    if "r < 10" "r' < 10" for q r q' r' :: nat
    using that by auto
  from this [of "a mod 10" "b mod 10" "a div 10" "b div 10"] show ?thesis by simp
qed

lemma dec_fixed_less_iff:
  "a < 10 ^ k \<Longrightarrow> b < 10 ^ k \<Longrightarrow> dec_fixed k a < dec_fixed k b \<longleftrightarrow> a < b"
proof (induction k arbitrary: a b)
  case 0
  then show ?case by simp
next
  case (Suc k)
  have ab: "a div 10 < 10 ^ k" "b div 10 < 10 ^ k" using Suc.prems by auto
  have eq: "dec_fixed k (a div 10) = dec_fixed k (b div 10) \<longleftrightarrow> a div 10 = b div 10"
    using Suc.IH [OF ab] Suc.IH [OF ab(2) ab(1)] by (metis linorder_neqE_nat order_less_irrefl)
  have dm: "digit (a mod 10) < digit (b mod 10) \<longleftrightarrow> a mod 10 < b mod 10"
    by (rule digit_less_iff) simp_all
  have "a < b \<longleftrightarrow> a div 10 < b div 10 \<or> (a div 10 = b div 10 \<and> a mod 10 < b mod 10)"
    by (rule less_by_last_digit)
  then show ?case using Suc.IH [OF ab] eq dm by (simp add: list_less_snoc)
qed

lemma dec_fixed_zero [simp]: "dec_fixed k 0 = replicate k (CHR ''0'')"
proof -
  have "digit 0 = CHR ''0''" by code_simp
  then show ?thesis by (induction k) (simp_all add: replicate_append_same)
qed

lemma length_dec_digits: "n < 10 ^ Suc k \<Longrightarrow> length (dec_digits n) \<le> Suc k"
proof (induction k arbitrary: n)
  case 0
  then show ?case by (subst dec_digits.simps) simp
next
  case (Suc k)
  then show ?case by (subst dec_digits.simps) simp
qed

lemma pad_dec_digits:
  "n < 10 ^ Suc k \<Longrightarrow>
   replicate (Suc k - length (dec_digits n)) (CHR ''0'') @ dec_digits n = dec_fixed (Suc k) n"
proof (induction k arbitrary: n)
  case 0
  then show ?case by (subst (1 2) dec_digits.simps) simp
next
  case (Suc k)
  show ?case
  proof (cases "n < 10")
    case True
    then show ?thesis by (subst (1 2) dec_digits.simps) simp
  next
    case False
    have "n div 10 < 10 ^ Suc k" using Suc.prems by simp
    from Suc.IH [OF this] length_dec_digits [OF this] False show ?thesis
      by (subst (1 2) dec_digits.simps) (simp del: dec_fixed.simps add: dec_fixed.simps(2) [of "Suc k"])
  qed
qed

lemma pad10_fixed: "n < 10 ^ 10 \<Longrightarrow> pad10 n = dec_fixed 10 n"
  using pad_dec_digits [of n 9] by (simp add: pad10_def Let_def del: dec_fixed.simps)

lemma pad10_less_iff: "a < 10 ^ 10 \<Longrightarrow> b < 10 ^ 10 \<Longrightarrow> pad10 a < pad10 b \<longleftrightarrow> a < b"
  by (simp add: pad10_fixed dec_fixed_less_iff)

lemma digits_val_replicate_zero [simp]: "digits_val (replicate k (CHR ''0'') @ s) = digits_val s"
  by (induction k) (simp_all add: digits_val_def digit_val_def)

lemma digits_val_pad10 [simp]: "digits_val (pad10 n) = n"
  by (simp add: pad10_def Let_def)

text \<open>Keys of different sequence numbers are different, at any size.\<close>

lemma pad10_eq_iff [simp]: "pad10 a = pad10 b \<longleftrightarrow> a = b"
  by (metis digits_val_pad10)

lemma pad10_ne [simp]: "pad10 n \<noteq> []"
  by (simp add: pad10_def Let_def)

section \<open>Hexadecimal\<close>

definition hex_digit :: "nat \<Rightarrow> char" where
  "hex_digit n = (if n < 10 then char_of (48 + n) else char_of (87 + n))"

definition hex_val :: "char \<Rightarrow> nat option" where
  "hex_val c = (let n = byte_val c in
     if 48 \<le> n \<and> n \<le> 57 then Some (n - 48)
     else if 97 \<le> n \<and> n \<le> 102 then Some (n - 87)
     else if 65 \<le> n \<and> n \<le> 70 then Some (n - 55)
     else None)"

definition hex_encode :: "bytes \<Rightarrow> string" where
  "hex_encode bs = concat (map (\<lambda>b. [hex_digit (byte_val b div 16), hex_digit (byte_val b mod 16)]) bs)"

fun hex_decode :: "string \<Rightarrow> bytes option" where
  "hex_decode [] = Some []"
| "hex_decode [_] = None"
| "hex_decode (a # b # r) =
     (case (hex_val a, hex_val b) of
        (Some x, Some y) \<Rightarrow> map_option (\<lambda>bs. char_of (16 * x + y) # bs) (hex_decode r)
      | _ \<Rightarrow> None)"

lemma hex_val_digit [simp]: "n < 16 \<Longrightarrow> hex_val (hex_digit n) = Some n"
  by (auto simp: hex_val_def hex_digit_def Let_def)

lemma hex_decode_encode [codec_simps]: "hex_decode (hex_encode bs) = Some bs"
proof (induction bs)
  case Nil
  then show ?case by (simp add: hex_encode_def)
next
  case (Cons b bs)
  have "16 * (byte_val b div 16) + byte_val b mod 16 = byte_val b" by simp
  with Cons show ?case by (simp add: hex_encode_def)
qed

lemma hex_encode_inj: "hex_encode a = hex_encode b \<longleftrightarrow> a = b"
  by (metis hex_decode_encode option.inject)

lemma length_hex_encode [simp]: "length (hex_encode bs) = 2 * length bs"
  by (induction bs) (simp_all add: hex_encode_def)

lemma hex_decode_length: "hex_decode s = Some bs \<Longrightarrow> length s = 2 * length bs"
  by (induction s arbitrary: bs rule: hex_decode.induct) (auto split: option.splits)

lemma hex_digit_not_colon: "n < 16 \<Longrightarrow> hex_digit n \<noteq> CHR '':''"
  by (auto simp: hex_digit_def byte_val_eq_iff [symmetric] simp del: of_char_eq_iff)

lemma hex_encode_no_colon: "CHR '':'' \<notin> set (hex_encode bs)"
  by (induction bs) (simp_all add: hex_encode_def hex_digit_not_colon [symmetric])

section \<open>Prefixes and splitting\<close>

fun has_prefix :: "string \<Rightarrow> string \<Rightarrow> bool" where
  "has_prefix s [] = True"
| "has_prefix [] (p # ps) = False"
| "has_prefix (c # s) (p # ps) = (c = p \<and> has_prefix s ps)"

definition trim_prefix :: "string \<Rightarrow> string \<Rightarrow> string" where
  "trim_prefix s p = (if has_prefix s p then drop (length p) s else s)"

lemma has_prefix_append [simp]: "has_prefix (p @ s) p"
  by (induction p) auto

lemma trim_prefix_append [simp]: "trim_prefix (p @ s) p = s"
  by (simp add: trim_prefix_def)

lemma has_prefix_iff: "has_prefix s p \<longleftrightarrow> (\<exists>r. s = p @ r)"
  by (induction s p rule: has_prefix.induct) auto

text \<open>
  \<open>strings.SplitN(s, sep, n)\<close> for a one-byte separator: at most \<open>n\<close> parts, the last one
  unsplit.
\<close>

fun split_n :: "nat \<Rightarrow> char \<Rightarrow> string \<Rightarrow> string list" where
  "split_n 0 sep s = []"
| "split_n (Suc 0) sep s = [s]"
| "split_n (Suc (Suc n)) sep s =
     (let a = takeWhile (\<lambda>c. c \<noteq> sep) s in
      case dropWhile (\<lambda>c. c \<noteq> sep) s of
        [] \<Rightarrow> [a]
      | _ # r \<Rightarrow> a # split_n (Suc n) sep r)"

lemma split_n_append:
  "sep \<notin> set a \<Longrightarrow> split_n (Suc (Suc n)) sep (a @ sep # r) = a # split_n (Suc n) sep r"
proof -
  assume a: "sep \<notin> set a"
  then have "takeWhile (\<lambda>c. c \<noteq> sep) (a @ sep # r) = a" by (induction a) auto
  moreover from a have "dropWhile (\<lambda>c. c \<noteq> sep) (a @ sep # r) = sep # r" by (induction a) auto
  ultimately show ?thesis by simp
qed

lemma fmt_int_no_colon: "CHR '':'' \<notin> set (fmt_int i)"
proof -
  have "CHR '':'' \<notin> set (dec_digits n)" for n
    using dec_digits_all [of n] by (auto simp: list_all_iff is_digit_def)
  then show ?thesis by (simp add: fmt_int_def)
qed

end
