(* ===== verification/Bolt.thy ===== *)
theory Bolt
  imports GoText "HOL-Library.RBT"
begin

text \<open>
  The interface of \<open>go.etcd.io/bbolt\<close>, the key/value store under the write-ahead log and the
  relay's inboxes. bbolt is third-party code, so its operations are a parameter: a record of
  functions on an abstract bucket state. What the program relies on are bbolt's documented
  guarantees, the assumptions of the locale \<open>kv_bucket\<close>: keys are iterated in byte order, \<open>Get\<close>
  returns what \<open>Put\<close> stored, \<open>Delete\<close> removes, the bucket sequence counts up. \<open>Put\<close>,
  \<open>Delete\<close> and \<open>NextSequence\<close> may fail, and so may the commit of a transaction; a failed
  transaction leaves the database as it was. \<open>kv_reliable\<close> adds that the disk accepts writes.

  The locales are interpreted on a bucket built from the library's red-black trees, which the
  witnesses of the components evaluate.
\<close>

record ('m, 'v) bucket_ops =
  b_empty :: 'm
  b_get :: "'m \<Rightarrow> string \<Rightarrow> 'v option"
  b_put :: "'m \<Rightarrow> string \<Rightarrow> 'v \<Rightarrow> 'm option"
  b_del :: "'m \<Rightarrow> string \<Rightarrow> 'm option"
  b_entries :: "'m \<Rightarrow> (string \<times> 'v) list"
  b_seq :: "'m \<Rightarrow> nat"
  b_next :: "'m \<Rightarrow> 'm option"
  b_commit :: "'m \<Rightarrow> 'm \<Rightarrow> bool"

named_theorems bolt_laws \<open>the laws of a bucket, as simp rules\<close>

text \<open>A list sorted by distinct keys is determined by its lookup function.\<close>

lemma alist_from_keys: "distinct (map fst xs) \<Longrightarrow> xs = map (\<lambda>k. (k, the (map_of xs k))) (map fst xs)"
proof -
  assume "distinct (map fst xs)"
  then have "map (\<lambda>p. (fst p, the (map_of xs (fst p)))) xs = xs" by (intro map_idI) auto
  then show ?thesis by (simp add: comp_def)
qed

lemma sorted_alist_unique:
  fixes xs ys :: "('k::linorder \<times> 'v) list"
  assumes "sorted_wrt (<) (map fst xs)" "sorted_wrt (<) (map fst ys)" "map_of xs = map_of ys"
  shows "xs = ys"
proof -
  have d: "distinct (map fst xs)" "distinct (map fst ys)" "sorted (map fst xs)" "sorted (map fst ys)"
    using assms(1,2) by (simp_all add: strict_sorted_iff)
  have "set (map fst xs) = set (map fst ys)"
    using assms(3) by (metis dom_map_of_conv_image_fst list.set_map)
  then have "map fst xs = map fst ys"
    using d by (metis sorted_distinct_set_unique)
  then show ?thesis
    using alist_from_keys [OF d(1)] alist_from_keys [OF d(2)] assms(3) by metis
qed

locale kv_bucket =
  fixes B :: "('m, 'v) bucket_ops"
  assumes entries_sorted: "sorted_wrt (<) (map fst (b_entries B m))"
    and get_entries: "b_get B m k = map_of (b_entries B m) k"
    and entries_empty [bolt_laws]: "b_entries B (b_empty B) = []"
    and seq_empty [bolt_laws]: "b_seq B (b_empty B) = 0"
    and get_put: "b_put B m k v = Some m' \<Longrightarrow> b_get B m' = (b_get B m)(k \<mapsto> v)"
    and seq_put: "b_put B m k v = Some m' \<Longrightarrow> b_seq B m' = b_seq B m"
    and get_del: "b_del B m k = Some m' \<Longrightarrow> b_get B m' = (b_get B m)(k := None)"
    and seq_del: "b_del B m k = Some m' \<Longrightarrow> b_seq B m' = b_seq B m"
    and get_next: "b_next B m = Some m' \<Longrightarrow> b_get B m' = b_get B m"
    and seq_next: "b_next B m = Some m' \<Longrightarrow> b_seq B m' = Suc (b_seq B m)"
begin

lemma get_empty [simp]: "b_get B (b_empty B) k = None"
  by (simp add: get_entries entries_empty)

lemma get_map_of: "b_get B m = map_of (b_entries B m)"
  by (rule ext) (rule get_entries)

lemma distinct_keys: "distinct (map fst (b_entries B m))"
  using entries_sorted strict_sorted_iff by blast

lemma entries_iff: "(k, v) \<in> set (b_entries B m) \<longleftrightarrow> b_get B m k = Some v"
  by (simp add: get_entries distinct_keys map_of_eq_Some_iff)

lemma entries_eqI: "sorted_wrt (<) (map fst xs) \<Longrightarrow> map_of xs = b_get B m \<Longrightarrow> b_entries B m = xs"
  by (rule sorted_alist_unique) (simp_all add: entries_sorted get_map_of)

lemma entries_next: "b_next B m = Some m' \<Longrightarrow> b_entries B m' = b_entries B m"
  by (rule entries_eqI) (simp_all add: entries_sorted get_next get_map_of [symmetric])

text \<open>A key above all others goes to the end of the iteration.\<close>

lemma entries_put_last:
  assumes "b_put B m k v = Some m'" and "\<And>k'. k' \<in> dom (b_get B m) \<Longrightarrow> k' < k"
  shows "b_entries B m' = b_entries B m @ [(k, v)]"
proof (rule entries_eqI)
  have dom: "set (map fst (b_entries B m)) = dom (b_get B m)"
    by (simp add: get_map_of dom_map_of_conv_image_fst)
  then show "sorted_wrt (<) (map fst (b_entries B m @ [(k, v)]))"
    using entries_sorted [of m] assms(2) by (auto simp: sorted_wrt_append)
  have "k \<notin> dom (b_get B m)" using assms(2) by blast
  then show "map_of (b_entries B m @ [(k, v)]) = b_get B m'"
    using assms(1) by (auto simp: get_put map_add_def fun_eq_iff domIff get_entries split: option.split)
qed

lemma entries_put_same:
  assumes "b_put B m k v = Some m'" and "b_get B m k \<noteq> None"
  shows "b_entries B m' = map (\<lambda>(k', v'). (k', if k' = k then v else v')) (b_entries B m)"
proof (rule entries_eqI)
  let ?f = "\<lambda>(k', v'). (k', if k' = k then v else v')"
  have keys: "map fst (map ?f xs) = map fst xs" for xs :: "(string \<times> 'v) list"
    by (induction xs) auto
  show "sorted_wrt (<) (map fst (map ?f (b_entries B m)))"
    unfolding keys by (rule entries_sorted)
  have "map_of (map ?f xs) k' = (if k' = k then (case map_of xs k of None \<Rightarrow> None | Some _ \<Rightarrow> Some v) else map_of xs k')"
    for xs :: "(string \<times> 'v) list" and k'
    by (induction xs) auto
  then show "map_of (map ?f (b_entries B m)) = b_get B m'"
    using assms by (auto simp: get_put fun_eq_iff get_entries split: option.splits)
qed

lemma entries_del:
  assumes "b_del B m k = Some m'"
  shows "b_entries B m' = filter (\<lambda>p. fst p \<noteq> k) (b_entries B m)"
proof (rule entries_eqI)
  show "sorted_wrt (<) (map fst (filter (\<lambda>p. fst p \<noteq> k) (b_entries B m)))"
    using entries_sorted [of m] by (simp add: sorted_wrt_map sorted_wrt_filter)
  have "map_of (filter (\<lambda>p. fst p \<noteq> k) xs) k' = (if k' = k then None else map_of xs k')"
    for xs :: "(string \<times> 'v) list" and k'
    by (induction xs) auto
  then show "map_of (filter (\<lambda>p. fst p \<noteq> k) (b_entries B m)) = b_get B m'"
    using assms by (auto simp: get_del fun_eq_iff get_entries)
qed

text \<open>
  Logs under ten-digit sequence numbers: every key is a number already given out, so the next one
  goes to the end, as long as it has ten digits.
\<close>

definition seq_keys :: "'m \<Rightarrow> bool" where
  "seq_keys m \<longleftrightarrow> (\<forall>k \<in> dom (b_get B m). \<exists>n. k = pad10 n \<and> n \<le> b_seq B m)"

lemma seq_keys_empty: "seq_keys (b_empty B)"
  by (simp add: seq_keys_def dom_def)

lemma put_next_seq:
  assumes "seq_keys m" "b_next B m = Some m1" "b_put B m1 (pad10 (b_seq B m1)) v = Some m2"
  shows "seq_keys m2"
proof -
  have "k = pad10 (Suc (b_seq B m)) \<or> k \<in> dom (b_get B m)" if "k \<in> dom (b_get B m2)" for k
    using that by (auto simp: get_put [OF assms(3)] get_next [OF assms(2)] seq_next [OF assms(2)] split: if_splits)
  then show ?thesis
    using assms(1) unfolding seq_keys_def seq_put [OF assms(3)] seq_next [OF assms(2)]
    by (metis le_Suc_eq)
qed

lemma put_next_last:
  assumes "seq_keys m" "b_next B m = Some m1" "b_put B m1 (pad10 (b_seq B m1)) v = Some m2" "b_seq B m1 < 10 ^ 10"
  shows "b_entries B m2 = b_entries B m @ [(pad10 (b_seq B m1), v)]"
proof -
  have "k < pad10 (b_seq B m1)" if "k \<in> dom (b_get B m1)" for k
  proof -
    have "k \<in> dom (b_get B m)" using that get_next [OF assms(2)] by simp
    then obtain n where "k = pad10 n" "n \<le> b_seq B m" using assms(1) by (auto simp: seq_keys_def)
    then show ?thesis using assms(4) seq_next [OF assms(2)] by (simp add: pad10_less_iff)
  qed
  then show ?thesis using entries_put_last [OF assms(3)] entries_next [OF assms(2)] by simp
qed

lemma seq_keys_del: "seq_keys m \<Longrightarrow> b_del B m k = Some m' \<Longrightarrow> seq_keys m'"
  by (auto simp: seq_keys_def get_del seq_del dom_def split: if_splits)

end

text \<open>A database on a disk with room: writes under non-empty keys and commits succeed.\<close>

locale kv_reliable = kv_bucket +
  assumes put_ok: "k \<noteq> [] \<Longrightarrow> b_put B m k v \<noteq> None"
    and del_ok: "b_del B m k \<noteq> None"
    and next_ok: "b_next B m \<noteq> None"
    and commit_ok: "b_commit B m m'"

section \<open>A reference bucket\<close>

text \<open>
  A red-black tree and a counter. It is the concrete function the witnesses instantiate the
  parameter with; no property speaks of it alone.
\<close>

definition ref_ops :: "((string, 'v) rbt \<times> nat, 'v) bucket_ops" where
  "ref_ops =
     \<lparr>b_empty = (RBT.empty, 0),
      b_get = (\<lambda>m k. RBT.lookup (fst m) k),
      b_put = (\<lambda>m k v. if k = [] then None else Some (RBT.insert k v (fst m), snd m)),
      b_del = (\<lambda>m k. Some (RBT.delete k (fst m), snd m)),
      b_entries = (\<lambda>m. RBT.entries (fst m)),
      b_seq = snd,
      b_next = (\<lambda>m. Some (fst m, Suc (snd m))),
      b_commit = (\<lambda>m m'. True)\<rparr>"

lemma ref_ops_simps [simp]:
  "b_empty ref_ops = (RBT.empty, 0)" "b_get ref_ops m = RBT.lookup (fst m)"
  "b_put ref_ops m k v = (if k = [] then None else Some (RBT.insert k v (fst m), snd m))"
  "b_del ref_ops m k = Some (RBT.delete k (fst m), snd m)"
  "b_entries ref_ops m = RBT.entries (fst m)" "b_seq ref_ops m = snd m"
  "b_next ref_ops m = Some (fst m, Suc (snd m))" "b_commit ref_ops m m' = True"
  by (simp_all add: ref_ops_def)

interpretation ref: kv_reliable "ref_ops :: ((string, 'v) rbt \<times> nat, 'v) bucket_ops"
proof unfold_locales
  show "sorted_wrt (<) (map fst (b_entries ref_ops m))" for m :: "(string, 'v) rbt \<times> nat"
    using RBT.sorted_entries [of "fst m"] RBT.distinct_entries [of "fst m"] by (simp add: strict_sorted_iff)
  show "b_entries ref_ops (b_empty ref_ops) = ([] :: (string \<times> 'v) list)"
    using RBT.map_of_entries [of "RBT.empty :: (string, 'v) rbt"]
    by (simp add: map_of_eq_empty_iff del: RBT.map_of_entries)
qed (auto split: if_splits)

end
