(* ===== verification/Base64.thy ===== *)
theory Base64
  imports GoText
begin

text \<open>
  Go's \<open>base64.StdEncoding\<close>, which the relay protocol uses for chunk data and
  \<open>encoding/json\<close> uses for every \<open>[]byte\<close> field: encoding, decoding (carriage returns and
  line feeds are skipped, padding is required, anything else is an error), the round trip, and
  the exact length of the encoding, on which the relay's line limit depends.
\<close>

definition b64_char :: "nat \<Rightarrow> char" where
  "b64_char n =
     (if n < 26 then char_of (65 + n)
      else if n < 52 then char_of (71 + n)
      else if n < 62 then char_of (n - 4)
      else if n = 62 then CHR ''+'' else CHR ''/'')"

definition b64_val :: "char \<Rightarrow> nat option" where
  "b64_val c = (let n = byte_val c in
     if 65 \<le> n \<and> n \<le> 90 then Some (n - 65)
     else if 97 \<le> n \<and> n \<le> 122 then Some (n - 71)
     else if 48 \<le> n \<and> n \<le> 57 then Some (n + 4)
     else if n = 43 then Some 62
     else if n = 47 then Some 63
     else None)"

fun b64_encode :: "bytes \<Rightarrow> string" where
  "b64_encode [] = []"
| "b64_encode [a] =
     [b64_char (byte_val a div 4), b64_char ((byte_val a mod 4) * 16), CHR ''='', CHR ''='']"
| "b64_encode [a, b] =
     [b64_char (byte_val a div 4), b64_char ((byte_val a mod 4) * 16 + byte_val b div 16),
      b64_char ((byte_val b mod 16) * 4), CHR ''='']"
| "b64_encode (a # b # c # r) =
     b64_char (byte_val a div 4) # b64_char ((byte_val a mod 4) * 16 + byte_val b div 16) #
     b64_char ((byte_val b mod 16) * 4 + byte_val c div 64) # b64_char (byte_val c mod 64) #
     b64_encode r"

fun b64_quads :: "string \<Rightarrow> bytes option" where
  "b64_quads [] = Some []"
| "b64_quads (a # b # c # d # r) =
     (case (b64_val a, b64_val b) of
        (Some i, Some j) \<Rightarrow>
          let x = char_of (i * 4 + j div 16) in
          if d = CHR ''='' then
            if r \<noteq> [] then None
            else if c = CHR ''='' then Some [x]
            else (case b64_val c of
                    None \<Rightarrow> None
                  | Some k \<Rightarrow> Some [x, char_of ((j mod 16) * 16 + k div 4)])
          else (case (b64_val c, b64_val d) of
                  (Some k, Some l) \<Rightarrow>
                    map_option (\<lambda>bs. x # char_of ((j mod 16) * 16 + k div 4) #
                                     char_of ((k mod 4) * 64 + l) # bs) (b64_quads r)
                | _ \<Rightarrow> None)
      | _ \<Rightarrow> None)"
| "b64_quads _ = None"

definition b64_decode :: "string \<Rightarrow> bytes option" where
  "b64_decode s = b64_quads (filter (\<lambda>c. byte_val c \<noteq> 10 \<and> byte_val c \<noteq> 13) s)"

lemma b64_val_char [simp]: "n < 64 \<Longrightarrow> b64_val (b64_char n) = Some n"
  by (auto simp: b64_val_def b64_char_def Let_def)

text \<open>
  The characters of an encoding: between \<open>+\<close> and \<open>z\<close>, and none of those that JSON escapes.
\<close>

definition b64_plain :: "char \<Rightarrow> bool" where
  "b64_plain c = (43 \<le> byte_val c \<and> byte_val c \<le> 122 \<and> byte_val c \<noteq> 60 \<and> byte_val c \<noteq> 62 \<and> byte_val c \<noteq> 92)"

lemma b64_plain_char [simp]: "n < 64 \<Longrightarrow> b64_plain (b64_char n)"
  by (auto simp: b64_char_def b64_plain_def)

lemma b64_plain_pad [simp]: "b64_plain (CHR ''='')"
  by (simp add: b64_plain_def)

lemma b64_char_not_pad [simp]: "n < 64 \<Longrightarrow> b64_char n \<noteq> CHR ''=''"
  by (auto simp: b64_char_def byte_val_eq_iff [symmetric] simp del: of_char_eq_iff)

lemma sextet_bounds [simp]:
  "byte_val a div 4 < 64" "(byte_val a mod 4) * 16 + byte_val b div 16 < 64"
  "(byte_val a mod 4) * 16 < 64" "(byte_val b mod 16) * 4 + byte_val c div 64 < 64"
  "(byte_val b mod 16) * 4 < 64" "byte_val c mod 64 < 64"
  using byte_val_less [of a] byte_val_less [of b] byte_val_less [of c]
  by (simp_all only: less_mult_imp_div_less; arith?)+

lemma join_div: "j < m \<Longrightarrow> (k * m + j) div m = k" and join_mod: "j < m \<Longrightarrow> (k * m + j) mod m = j"
  for j k m :: nat
  by simp_all

lemma octet_join:
  "byte_val a div 4 * 4 + ((byte_val a mod 4) * 16 + byte_val b div 16) div 16 = byte_val a"
  "byte_val a div 4 * 4 + ((byte_val a mod 4) * 16) div 16 = byte_val a"
  "(((byte_val a mod 4) * 16 + byte_val b div 16) mod 16) * 16
     + ((byte_val b mod 16) * 4 + byte_val c div 64) div 4 = byte_val b"
  "(((byte_val a mod 4) * 16 + byte_val b div 16) mod 16) * 16
     + ((byte_val b mod 16) * 4) div 4 = byte_val b"
  "(((byte_val b mod 16) * 4 + byte_val c div 64) mod 4) * 64 + byte_val c mod 64 = byte_val c"
proof -
  have b: "byte_val b div 16 < 16" by simp
  have c: "byte_val c div 64 < 4" using byte_val_less [of c] by (simp only: less_mult_imp_div_less)
  show
    "byte_val a div 4 * 4 + ((byte_val a mod 4) * 16 + byte_val b div 16) div 16 = byte_val a"
    "byte_val a div 4 * 4 + ((byte_val a mod 4) * 16) div 16 = byte_val a"
    "(((byte_val a mod 4) * 16 + byte_val b div 16) mod 16) * 16
       + ((byte_val b mod 16) * 4 + byte_val c div 64) div 4 = byte_val b"
    "(((byte_val a mod 4) * 16 + byte_val b div 16) mod 16) * 16
       + ((byte_val b mod 16) * 4) div 4 = byte_val b"
    "(((byte_val b mod 16) * 4 + byte_val c div 64) mod 4) * 64 + byte_val c mod 64 = byte_val c"
    by (simp_all only: join_div [OF b] join_mod [OF b] join_div [OF c] join_mod [OF c]
        div_mult_mod_eq nonzero_mult_div_cancel_right)
qed

lemma top_bits [simp]: "byte_val c div 64 div 4 = 0" "byte_val c div 64 mod 4 = byte_val c div 64"
proof -
  have "byte_val c div 64 < 4" using byte_val_less [of c] by (simp only: less_mult_imp_div_less)
  then show "byte_val c div 64 div 4 = 0" "byte_val c div 64 mod 4 = byte_val c div 64" by simp_all
qed

lemma b64_quads_encode: "b64_quads (b64_encode bs) = Some bs"
  by (induction bs rule: b64_encode.induct) (simp_all add: octet_join del: of_char_eq_iff)

lemma b64_encode_plain: "list_all b64_plain (b64_encode bs)"
  by (induction bs rule: b64_encode.induct) simp_all

lemma b64_decode_encode [codec_simps]: "b64_decode (b64_encode bs) = Some bs"
proof -
  have "filter (\<lambda>c. byte_val c \<noteq> 10 \<and> byte_val c \<noteq> 13) (b64_encode bs) = b64_encode bs"
    using b64_encode_plain [of bs] by (auto simp: filter_id_conv list_all_iff b64_plain_def)
  then show ?thesis by (simp add: b64_decode_def b64_quads_encode)
qed

text \<open>Three bytes become four characters, the last group padded.\<close>

lemma length_b64_encode: "length (b64_encode bs) = 4 * ((length bs + 2) div 3)"
proof (induction bs rule: b64_encode.induct)
  case (4 a b c r)
  have "(length r + 3 + 2) div 3 = (length r + 2) div 3 + 1" by presburger
  with 4 show ?case by (simp add: add.commute)
qed simp_all

lemma b64_encode_Nil_iff [simp]: "b64_encode bs = [] \<longleftrightarrow> bs = []"
  by (cases bs rule: b64_encode.cases) simp_all

end
