(* ===== verification/Json.thy ===== *)
theory Json
  imports Base64
begin

text \<open>
  \<open>encoding/json\<close> as the program uses it: \<open>json.Marshal\<close> of structs, and \<open>json.Unmarshal\<close> into
  structs and maps. Documents are byte strings; \<open>json_print\<close> writes the compact form that Go
  writes (with \<open><\<close>, \<open>>\<close> and \<open>&\<close> escaped) and \<open>json_parse\<close> reads any JSON text. A number keeps
  its literal, as Go's decoder does, and is converted when a field asks for an integer.

  Bytes from 128 on stand for themselves in both directions: strings are valid UTF-8 (Go
  replaces invalid sequences; the one place where this is modelled is the payload, with \<open>Utf8\<close>) without
  U+2028 and U+2029 (which Go writes escaped).

  The locale \<open>json_struct\<close> is the contract of a struct with JSON tags: its fields read back.
  Every struct of the program that travels as JSON is an interpretation of it, in the theory of
  its component, and inherits \<open>unmarshal_marshal\<close>.
\<close>

datatype json = JNull | JBool bool | JNum string | JStr string
  | JArr "json list" | JObj "(string \<times> json) list"

section \<open>Lexical level\<close>

definition is_ws :: "char \<Rightarrow> bool" where
  "is_ws c = (byte_val c = 32 \<or> byte_val c = 9 \<or> byte_val c = 10 \<or> byte_val c = 13)"

fun skip_ws :: "string \<Rightarrow> string" where
  "skip_ws [] = []"
| "skip_ws (c # s) = (if is_ws c then skip_ws s else c # s)"

lemma length_skip_ws: "length (skip_ws s) \<le> length s"
  by (induction s) auto

lemma skip_ws_Cons_length: "skip_ws s = c # r \<Longrightarrow> length r < length s"
  using length_skip_ws [of s] by simp

definition is_num_char :: "char \<Rightarrow> bool" where
  "is_num_char c = (is_digit c \<or> c = CHR ''-'' \<or> c = CHR ''+'' \<or> c = CHR ''.'' \<or> c = CHR ''e'' \<or> c = CHR ''E'')"

definition exp_ok :: "string \<Rightarrow> bool" where
  "exp_ok s = (case s of [] \<Rightarrow> True
     | c # r \<Rightarrow> (c = CHR ''e'' \<or> c = CHR ''E'') \<and>
         (let d = (case r of x # r' \<Rightarrow> if x = CHR ''+'' \<or> x = CHR ''-'' then r' else r | [] \<Rightarrow> [])
          in d \<noteq> [] \<and> list_all is_digit d))"

definition frac_ok :: "string \<Rightarrow> bool" where
  "frac_ok s = (case s of [] \<Rightarrow> True
     | c # r \<Rightarrow> if c = CHR ''.'' then takeWhile is_digit r \<noteq> [] \<and> exp_ok (dropWhile is_digit r)
               else exp_ok s)"

text \<open>A number literal: optional minus, no superfluous leading zero, fraction, exponent.\<close>

definition is_num_lit :: "string \<Rightarrow> bool" where
  "is_num_lit s = (list_all is_num_char s \<and>
     (case (case s of c # r \<Rightarrow> if c = CHR ''-'' then r else s | [] \<Rightarrow> []) of
        [] \<Rightarrow> False
      | c # r \<Rightarrow> is_digit c \<and> frac_ok (if c = CHR ''0'' then r else dropWhile is_digit r)))"

text \<open>Strings: escaping on output, and reading up to the closing quote (byte 34).\<close>

definition esc :: "char \<Rightarrow> string" where
  "esc c = (let n = byte_val c in
     if n = 34 \<or> n = 92 then [CHR 0x5C, c]
     else if n = 10 then [CHR 0x5C, CHR ''n'']
     else if n = 13 then [CHR 0x5C, CHR ''r'']
     else if n = 9 then [CHR 0x5C, CHR ''t'']
     else if n = 8 then [CHR 0x5C, CHR ''b'']
     else if n = 12 then [CHR 0x5C, CHR ''f'']
     else if n < 32 \<or> n = 60 \<or> n = 62 \<or> n = 38
       then [CHR 0x5C, CHR ''u'', CHR ''0'', CHR ''0'', hex_digit (n div 16), hex_digit (n mod 16)]
     else [c])"

definition quote_str :: "string \<Rightarrow> string" where
  "quote_str s = CHR 0x22 # concat (map esc s) @ [CHR 0x22]"

definition utf8 :: "nat \<Rightarrow> string" where
  "utf8 n = (if n < 128 then [char_of n]
     else if n < 2048 then [char_of (192 + n div 64), char_of (128 + n mod 64)]
     else if n < 65536 then [char_of (224 + n div 4096), char_of (128 + n div 64 mod 64), char_of (128 + n mod 64)]
     else [char_of (240 + n div 262144), char_of (128 + n div 4096 mod 64),
           char_of (128 + n div 64 mod 64), char_of (128 + n mod 64)])"

fun hex4 :: "string \<Rightarrow> (nat \<times> string) option" where
  "hex4 (a # b # c # d # r) =
     (case (hex_val a, hex_val b, hex_val c, hex_val d) of
        (Some w, Some x, Some y, Some z) \<Rightarrow> Some (((w * 16 + x) * 16 + y) * 16 + z, r)
      | _ \<Rightarrow> None)"
| "hex4 _ = None"

text \<open>
  A \<open>\\u\<close> escape: a surrogate pair gives one code point, a lone surrogate the replacement
  character.
\<close>

definition unescape_u :: "string \<Rightarrow> (string \<times> string) option" where
  "unescape_u s = (case hex4 s of None \<Rightarrow> None
     | Some (n, r) \<Rightarrow>
         if n < 55296 \<or> 57344 \<le> n then Some (utf8 n, r)
         else (case r of a # b # r' \<Rightarrow>
                 if n < 56320 \<and> a = CHR 0x5C \<and> b = CHR ''u'' then
                   (case hex4 r' of
                      Some (m, r'') \<Rightarrow>
                        if 56320 \<le> m \<and> m < 57344
                        then Some (utf8 (65536 + (n - 55296) * 1024 + (m - 56320)), r'')
                        else Some (utf8 65533, r)
                    | None \<Rightarrow> Some (utf8 65533, r))
                 else Some (utf8 65533, r)
               | _ \<Rightarrow> Some (utf8 65533, r)))"

definition unescape :: "char \<Rightarrow> string option" where
  "unescape e =
     (if e = CHR 0x22 \<or> e = CHR 0x5C \<or> e = CHR ''/'' then Some [e]
      else if e = CHR ''n'' then Some [CHR 0x0A]
      else if e = CHR ''r'' then Some [CHR 0x0D]
      else if e = CHR ''t'' then Some [CHR 0x09]
      else if e = CHR ''b'' then Some [CHR 0x08]
      else if e = CHR ''f'' then Some [CHR 0x0C]
      else None)"

lemma hex4_length: "hex4 s = Some (n, r) \<Longrightarrow> length r < length s"
  by (induction s rule: hex4.induct) (auto split: option.splits)

lemma unescape_u_length: "unescape_u s = Some (t, r) \<Longrightarrow> length r < length s"
  by (auto simp: unescape_u_def split: option.splits if_splits list.splits dest!: hex4_length)

function parse_str :: "string \<Rightarrow> (string \<times> string) option" where
  "parse_str [] = None"
| "parse_str (c # s) =
     (if c = CHR 0x22 then Some ([], s)
      else if c = CHR 0x5C then
        (case s of [] \<Rightarrow> None
         | e # s1 \<Rightarrow>
             if e = CHR ''u'' then
               (case unescape_u s1 of None \<Rightarrow> None
                | Some (t, s2) \<Rightarrow> map_option (\<lambda>(u, r). (t @ u, r)) (parse_str s2))
             else (case unescape e of None \<Rightarrow> None
                   | Some t \<Rightarrow> map_option (\<lambda>(u, r). (t @ u, r)) (parse_str s1)))
      else if byte_val c < 32 then None
      else map_option (\<lambda>(u, r). (c # u, r)) (parse_str s))"
  by pat_completeness auto
termination
  by (relation "measure length") (auto dest: unescape_u_length)

lemma parse_str_length: "parse_str s = Some (t, r) \<Longrightarrow> length r < length s"
proof (induction s arbitrary: t r rule: parse_str.induct)
  case 1
  then show ?case by simp
next
  case (2 c s)
  then show ?case
    by (fastforce split: if_splits list.splits option.splits dest: unescape_u_length)
qed

section \<open>Documents\<close>

fun json_print :: "json \<Rightarrow> string"
  and print_elems :: "json list \<Rightarrow> string"
  and print_members :: "(string \<times> json) list \<Rightarrow> string"
where
  "json_print JNull = ''null''"
| "json_print (JBool b) = (if b then ''true'' else ''false'')"
| "json_print (JNum l) = l"
| "json_print (JStr s) = quote_str s"
| "json_print (JArr vs) = CHR ''['' # print_elems vs"
| "json_print (JObj kvs) = CHR ''{'' # print_members kvs"
| "print_elems [] = '']''"
| "print_elems [v] = json_print v @ '']''"
| "print_elems (v # w # vs) = json_print v @ CHR '','' # print_elems (w # vs)"
| "print_members [] = ''}''"
| "print_members [(k, v)] = quote_str k @ CHR '':'' # json_print v @ ''}''"
| "print_members ((k, v) # p # kvs) =
     quote_str k @ CHR '':'' # json_print v @ CHR '','' # print_members (p # kvs)"

text \<open>
  The length guards before the inner calls hold on every input (\<open>parse_value_length\<close>); they
  are there so that the recursion is visibly well founded.
\<close>

function (sequential) parse_value :: "string \<Rightarrow> (json \<times> string) option"
  and parse_elems :: "string \<Rightarrow> (json list \<times> string) option"
  and parse_members :: "string \<Rightarrow> ((string \<times> json) list \<times> string) option"
where
  "parse_value s = (case skip_ws s of [] \<Rightarrow> None
     | c # r \<Rightarrow>
         if c = CHR 0x22 then map_option (\<lambda>(t, q). (JStr t, q)) (parse_str r)
         else if c = CHR ''['' then
           (case skip_ws r of [] \<Rightarrow> None
            | d # q \<Rightarrow> if d = CHR '']'' then Some (JArr [], q)
                      else map_option (\<lambda>(vs, q). (JArr vs, q)) (parse_elems r))
         else if c = CHR ''{'' then
           (case skip_ws r of [] \<Rightarrow> None
            | d # q \<Rightarrow> if d = CHR ''}'' then Some (JObj [], q)
                      else map_option (\<lambda>(kvs, q). (JObj kvs, q)) (parse_members r))
         else if has_prefix (c # r) ''null'' then Some (JNull, drop 4 (c # r))
         else if has_prefix (c # r) ''true'' then Some (JBool True, drop 4 (c # r))
         else if has_prefix (c # r) ''false'' then Some (JBool False, drop 5 (c # r))
         else if is_num_lit (takeWhile is_num_char (c # r))
           then Some (JNum (takeWhile is_num_char (c # r)), dropWhile is_num_char (c # r))
         else None)"
| "parse_elems s = (case parse_value s of None \<Rightarrow> None
     | Some (v, r) \<Rightarrow>
         (case skip_ws r of [] \<Rightarrow> None
          | d # q \<Rightarrow>
              if d = CHR '']'' then Some ([v], q)
              else if d = CHR '','' \<and> length q < length s
                then map_option (\<lambda>(vs, p). (v # vs, p)) (parse_elems q)
              else None))"
| "parse_members s = (case skip_ws s of [] \<Rightarrow> None
     | c # r \<Rightarrow>
         if c \<noteq> CHR 0x22 then None
         else (case parse_str r of None \<Rightarrow> None
           | Some (k, r1) \<Rightarrow>
               (case skip_ws r1 of [] \<Rightarrow> None
                | d # r2 \<Rightarrow>
                    if d \<noteq> CHR '':'' \<or> \<not> length r2 < length s then None
                    else (case parse_value r2 of None \<Rightarrow> None
                      | Some (v, r3) \<Rightarrow>
                          (case skip_ws r3 of [] \<Rightarrow> None
                           | e # r4 \<Rightarrow>
                               if e = CHR ''}'' then Some ([(k, v)], r4)
                               else if e = CHR '','' \<and> length r4 < length s
                                 then map_option (\<lambda>(kvs, p). ((k, v) # kvs, p)) (parse_members r4)
                               else None)))))"
  by pat_completeness auto
termination
  by (relation "measure (\<lambda>x. case x of Inl s \<Rightarrow> 2 * length s
        | Inr (Inl s) \<Rightarrow> 2 * length s + 1 | Inr (Inr s) \<Rightarrow> 2 * length s + 1)")
     (auto dest!: skip_ws_Cons_length)

declare parse_value.simps [simp del] parse_elems.simps [simp del] parse_members.simps [simp del]

definition json_parse :: "string \<Rightarrow> json option" where
  "json_parse s = (case parse_value s of
     Some (v, r) \<Rightarrow> if skip_ws r = [] then Some v else None
   | None \<Rightarrow> None)"

section \<open>The parser reads back what the printer writes\<close>

fun wf_json :: "json \<Rightarrow> bool"
  and wf_elems :: "json list \<Rightarrow> bool"
  and wf_members :: "(string \<times> json) list \<Rightarrow> bool"
where
  "wf_json (JNum l) = is_num_lit l"
| "wf_json (JArr vs) = wf_elems vs"
| "wf_json (JObj kvs) = wf_members kvs"
| "wf_json _ = True"
| "wf_elems [] = True"
| "wf_elems (v # vs) = (wf_json v \<and> wf_elems vs)"
| "wf_members [] = True"
| "wf_members ((k, v) # kvs) = (wf_json v \<and> wf_members kvs)"

lemma wf_members_append [simp]: "wf_members (xs @ ys) = (wf_members xs \<and> wf_members ys)"
  by (induction xs) (auto split: prod.splits)

lemma esc_cons: "\<exists>c' t. esc c = c' # t \<and> (c' = CHR 0x5C \<or> (t = [] \<and> c' = c \<and> 32 \<le> byte_val c))"
  by (auto simp: esc_def Let_def)

lemma utf8_ascii: "n < 128 \<Longrightarrow> utf8 n = [char_of n]"
  by (simp add: utf8_def)

lemma parse_str_esc: "parse_str (esc c @ s) = map_option (\<lambda>(u, r). (c # u, r)) (parse_str s)"
proof -
  consider "c = CHR 0x22" | "c = CHR 0x5C" | "c = CHR 0x0A" | "c = CHR 0x0D"
    | "c = CHR 0x09" | "c = CHR 0x08" | "c = CHR 0x0C"
    | "byte_val c \<notin> {34, 92, 10, 13, 9, 8, 12}" "byte_val c < 32 \<or> byte_val c \<in> {60, 62, 38}"
    | "byte_val c \<notin> {34, 92}" "\<not> byte_val c < 32" "byte_val c \<notin> {60, 62, 38}"
    by (auto simp flip: byte_val_eq_iff)
  then show ?thesis
  proof cases
    case 8
    have n: "byte_val c < 128" using 8 by auto
    have "hex_val (hex_digit (byte_val c div 16)) = Some (byte_val c div 16)"
      "hex_val (hex_digit (byte_val c mod 16)) = Some (byte_val c mod 16)"
      by simp_all
    moreover have "hex_val (CHR ''0'') = Some 0" by (simp add: hex_val_def)
    moreover have "byte_val c div 16 * 16 + byte_val c mod 16 = byte_val c" by simp
    ultimately have "unescape_u ([CHR ''0'', CHR ''0'', hex_digit (byte_val c div 16),
        hex_digit (byte_val c mod 16)] @ s) = Some ([c], s)"
      using n by (simp add: unescape_u_def utf8_ascii)
    moreover have "esc c = [CHR 0x5C, CHR ''u'', CHR ''0'', CHR ''0'',
        hex_digit (byte_val c div 16), hex_digit (byte_val c mod 16)]"
      using 8 by (auto simp: esc_def Let_def)
    ultimately show ?thesis by simp
  next
    case 9
    then have "esc c = [c]" by (simp add: esc_def Let_def)
    moreover have "c \<noteq> CHR 0x22" "c \<noteq> CHR 0x5C" using 9 by auto
    ultimately show ?thesis using 9 by simp
  qed (simp_all add: esc_def Let_def unescape_def)
qed

lemma parse_str_quote: "parse_str (concat (map esc s) @ CHR 0x22 # r) = Some (s, r)"
  by (induction s) (simp_all add: parse_str_esc)

lemma num_lit_head:
  assumes "is_num_lit l"
  shows "\<exists>c r. l = c # r \<and> (is_digit c \<or> c = CHR ''-'') \<and> list_all is_num_char l"
  using assms by (cases l) (auto simp: is_num_lit_def split: if_splits list.splits)

text \<open>A number must be followed by something that cannot extend it.\<close>

definition ends_num :: "string \<Rightarrow> bool" where
  "ends_num r = (case r of [] \<Rightarrow> True | c # _ \<Rightarrow> \<not> is_num_char c)"

lemma ends_num_simps [simp]:
  "ends_num []" "ends_num (CHR '','' # r)" "ends_num (CHR '']'' # r)" "ends_num (CHR ''}'' # r)"
  "ends_num (CHR 0x0A # r)"
  by (simp_all add: ends_num_def is_num_char_def is_digit_def)

lemma span_num:
  assumes "list_all is_num_char l" "ends_num r"
  shows "takeWhile is_num_char (l @ r) = l" "dropWhile is_num_char (l @ r) = r"
  using assms by (induction l; cases r; simp add: ends_num_def)+

lemma parse_num:
  assumes l: "is_num_lit l" and r: "ends_num r"
  shows "parse_value (l @ r) = Some (JNum l, r)"
proof -
  obtain c t where ct: "l = c # t" "is_digit c \<or> c = CHR ''-''" "list_all is_num_char l"
    using num_lit_head [OF l] by blast
  have ws: "skip_ws (l @ r) = c # (t @ r)" using ct(1,2) by (auto simp: is_ws_def is_digit_def)
  have neq: "c \<noteq> CHR 0x22" "c \<noteq> CHR ''[''" "c \<noteq> CHR ''{''"
    "c \<noteq> CHR ''n''" "c \<noteq> CHR ''t''" "c \<noteq> CHR ''f''"
    using ct(2) by (auto simp: is_digit_def)
  have sp: "takeWhile is_num_char (c # (t @ r)) = l" "dropWhile is_num_char (c # (t @ r)) = r"
    using span_num [OF ct(3) r] ct(1) by simp_all
  show ?thesis
    by (subst parse_value.simps) (simp only: ws list.case neq has_prefix.simps sp l if_True if_False simp_thms)
qed

lemma json_print_head:
  assumes "wf_json v"
  shows "\<exists>c t. json_print v = c # t \<and> \<not> is_ws c \<and> c \<noteq> CHR '']'' \<and> c \<noteq> CHR ''}''"
proof (cases v)
  case (JNum l)
  from assms JNum obtain c t where "l = c # t" "is_digit c \<or> c = CHR ''-''"
    using num_lit_head [of l] by auto
  with JNum show ?thesis by (auto simp: is_ws_def is_digit_def)
qed (auto simp: is_ws_def quote_str_def)

lemma skip_ws_print: "wf_json v \<Longrightarrow> skip_ws (json_print v @ r) = json_print v @ r"
  using json_print_head [of v] by auto

lemma skip_ws_quote [simp]: "skip_ws (quote_str s @ r) = quote_str s @ r"
  by (simp add: quote_str_def is_ws_def)

lemma parse_print_all:
  shows "wf_json v \<Longrightarrow> ends_num r \<Longrightarrow> parse_value (json_print v @ r) = Some (v, r)"
    and "wf_elems vs \<Longrightarrow> vs \<noteq> [] \<Longrightarrow> parse_elems (print_elems vs @ r) = Some (vs, r)"
    and "wf_members kvs \<Longrightarrow> kvs \<noteq> [] \<Longrightarrow> parse_members (print_members kvs @ r) = Some (kvs, r)"
proof (induction v and vs and kvs arbitrary: r and r and r
    rule: json_print_print_elems_print_members.induct)
  case 1
  then show ?case by (subst parse_value.simps) (simp add: is_ws_def)
next
  case (2 b)
  then show ?case by (subst parse_value.simps) (simp add: is_ws_def)
next
  case (3 l)
  then show ?case by (simp add: parse_num)
next
  case (4 s)
  then show ?case by (subst parse_value.simps) (simp add: quote_str_def is_ws_def parse_str_quote)
next
  case (5 vs)
  show ?case
  proof (cases vs)
    case Nil
    then show ?thesis by (subst parse_value.simps) (simp add: is_ws_def)
  next
    case (Cons w ws)
    with 5 obtain c t where ct: "json_print w = c # t" "\<not> is_ws c" "c \<noteq> CHR '']''"
      using json_print_head [of w] by auto
    then have "\<exists>t'. print_elems vs @ r = c # t'" using Cons by (cases ws) auto
    then obtain t' where t': "print_elems vs @ r = c # t'" by blast
    have "parse_elems (print_elems vs @ r) = Some (vs, r)" using 5 Cons by simp
    then have "parse_elems (c # t') = Some (vs, r)" by (simp only: t')
    with ct t' show ?thesis by (subst parse_value.simps) (simp add: is_ws_def)
  qed
next
  case (6 kvs)
  show ?case
  proof (cases kvs)
    case Nil
    then show ?thesis by (subst parse_value.simps) (simp add: is_ws_def)
  next
    case (Cons p ps)
    then have "\<exists>t'. print_members kvs @ r = CHR 0x22 # t'"
      by (cases p; cases ps) (auto simp: quote_str_def)
    then obtain t' where t': "print_members kvs @ r = CHR 0x22 # t'" by blast
    have "parse_members (print_members kvs @ r) = Some (kvs, r)" using 6 Cons by simp
    then have "parse_members (CHR 0x22 # t') = Some (kvs, r)" by (simp only: t')
    with t' show ?thesis by (subst parse_value.simps) (simp add: is_ws_def)
  qed
next
  case 7
  then show ?case by simp
next
  case (8 v)
  then show ?case by (subst parse_elems.simps) (simp add: is_ws_def)
next
  case (9 v w vs)
  then show ?case by (subst parse_elems.simps) (simp add: is_ws_def)
next
  case 10
  then show ?case by simp
next
  case (11 k v)
  then show ?case
    by (subst parse_members.simps) (simp add: is_ws_def quote_str_def parse_str_quote)
next
  case (12 k v p kvs)
  then show ?case
    by (subst parse_members.simps) (simp add: is_ws_def quote_str_def parse_str_quote)
qed

theorem json_parse_print [codec_simps]: "wf_json v \<Longrightarrow> json_parse (json_print v) = Some v"
  using parse_print_all(1) [of v "[]"] by (simp add: json_parse_def)

text \<open>A document with a newline behind it, as a line protocol sends it, reads the same.\<close>

lemma json_parse_print_nl:
  "wf_json v \<Longrightarrow> json_parse (json_print v @ [CHR 0x0A]) = Some v"
  using parse_print_all(1) [of v "[CHR 0x0A]"] by (simp add: json_parse_def is_ws_def)

text \<open>Whatever the parser accepts is a well-formed document, and takes at least one byte.\<close>

lemma parse_wf:
  shows "parse_value s = Some (v, r) \<Longrightarrow> wf_json v \<and> length r < length s"
    and "parse_elems s = Some (vs, r) \<Longrightarrow> wf_elems vs \<and> length r < length s"
    and "parse_members s = Some (kvs, r) \<Longrightarrow> wf_members kvs \<and> length r < length s"
proof (induction s and s and s arbitrary: v r and vs r and kvs r
    rule: parse_value_parse_elems_parse_members.induct)
  case (1 s)
  show ?case
  proof (cases "skip_ws s")
    case Nil
    with 1(3) show ?thesis by (simp add: parse_value.simps)
  next
    case (Cons c t)
    have len: "length t < length s" using skip_ws_Cons_length [OF Cons] .
    note eq = parse_value.simps [of s, unfolded Cons list.case]
    consider "c = CHR 0x22" | "c = CHR ''[''" | "c = CHR ''{''"
      | "c \<noteq> CHR 0x22" "c \<noteq> CHR ''[''" "c \<noteq> CHR ''{''" by blast
    then show ?thesis
    proof cases
      case a: 1
      with 1(3) len show ?thesis by (auto simp: eq dest!: parse_str_length)
    next
      case a: 2
      with 1(3) have "parse_value s = Some (v, r)" by simp
      with a len 1(1) [OF Cons _ a] show ?thesis
        by (fastforce simp: eq split: list.splits if_splits dest: skip_ws_Cons_length)
    next
      case a: 3
      with a len 1(2) [OF Cons _ _ a] 1(3) show ?thesis
        by (fastforce simp: eq split: list.splits if_splits dest: skip_ws_Cons_length)
    next
      case a: 4
      have "length (dropWhile is_num_char t) \<le> length t" by (rule length_dropWhile_le)
      moreover have "length (drop 4 (c # t)) < length s" "length (drop 5 (c # t)) < length s"
        "length (dropWhile is_num_char (c # t)) < length s \<or> \<not> is_num_char c"
        using len calculation by auto
      moreover have "\<not> is_num_char c \<Longrightarrow> \<not> is_num_lit (takeWhile is_num_char (c # t))"
        by (simp add: is_num_lit_def)
      ultimately show ?thesis
        using 1(3) unfolding eq by (auto simp only: a if_False split: if_splits) auto
    qed
  qed
next
  case (2 s)
  then show ?case
    by (fastforce simp: parse_elems.simps [of s] split: option.splits list.splits if_splits
        dest: skip_ws_Cons_length)
next
  case (3 s)
  from 3(3) obtain r1 where r1: "skip_ws s = CHR 0x22 # r1"
    by (auto simp: parse_members.simps [of s] split: list.splits if_splits)
  with 3(3) obtain k r2 where r2: "parse_str r1 = Some (k, r2)"
    by (auto simp: parse_members.simps [of s] split: option.splits)
  with 3(3) r1 obtain r3 where r3: "skip_ws r2 = CHR '':'' # r3" "length r3 < length s"
    by (auto simp: parse_members.simps [of s] split: list.splits if_splits)
  with 3(3) r1 r2 obtain v1 r4 where r4: "parse_value r3 = Some (v1, r4)"
    by (auto simp: parse_members.simps [of s] split: option.splits)
  with 3(3) r1 r2 r3 obtain e r5 where r5: "skip_ws r4 = e # r5"
    by (auto simp: parse_members.simps [of s] split: list.splits)
  have v1: "wf_json v1" "length r4 < length r3"
    using 3(1) [OF r1 _ r2 refl r3(1) _ r4] r3(2) by auto
  have l5: "length r5 < length r4" using skip_ws_Cons_length [OF r5] .
  show ?case
  proof (cases "e = CHR ''}''")
    case True
    with 3(3) r1 r2 r3 r4 r5 v1 l5 show ?thesis by (auto simp: parse_members.simps [of s])
  next
    case False
    with 3(3) r1 r2 r3 r4 r5 obtain kvs' where e: "e = CHR '',''" "length r5 < length s"
      and kvs: "parse_members r5 = Some (kvs', r)" "kvs = (k, v1) # kvs'"
      by (auto simp: parse_members.simps [of s] split: if_splits)
    from 3(2) [OF r1 _ r2 refl r3(1) _ r4 refl r5 False _ kvs(1)] e r3(2) kvs(2) v1
    show ?thesis by auto
  qed
qed

lemma json_parse_wf: "json_parse t = Some v \<Longrightarrow> wf_json v"
  using parse_wf(1) [of t v] by (auto simp: json_parse_def split: option.splits if_splits)

section \<open>Shape of printed documents\<close>

lemma esc_no_newline: "CHR 0x0A \<notin> set (esc c)"
proof -
  have "hex_digit n \<noteq> CHR 0x0A" if "n < 16" for n
    using that by (auto simp: hex_digit_def simp flip: byte_val_eq_iff)
  then have "hex_digit (byte_val c div 16) \<noteq> CHR 0x0A" "hex_digit (byte_val c mod 16) \<noteq> CHR 0x0A"
    by simp_all
  then show ?thesis by (auto simp: esc_def Let_def)
qed

lemma quote_no_newline [simp]: "CHR 0x0A \<notin> set (quote_str s)"
  using esc_no_newline by (auto simp: quote_str_def)

text \<open>A printed document is one line: the encoders' newline is the only one on the wire.\<close>

lemma print_no_newline:
  shows "wf_json v \<Longrightarrow> CHR 0x0A \<notin> set (json_print v)"
    and "wf_elems vs \<Longrightarrow> CHR 0x0A \<notin> set (print_elems vs)"
    and "wf_members kvs \<Longrightarrow> CHR 0x0A \<notin> set (print_members kvs)"
proof (induction v and vs and kvs rule: json_print_print_elems_print_members.induct)
  case (3 l)
  then show ?case
    using num_lit_head [of l] by (auto simp: list_all_iff is_num_char_def is_digit_def)
qed auto

lemma length_esc: "1 \<le> length (esc c)"
  by (auto simp: esc_def Let_def)

lemma length_quote_str: "length s + 2 \<le> length (quote_str s)"
proof -
  have "length s \<le> length (concat (map esc s))"
  proof (induction s)
    case (Cons c s)
    with length_esc [of c] show ?case by simp
  qed simp
  then show ?thesis by (simp add: quote_str_def)
qed

lemma esc_plain: "b64_plain c \<Longrightarrow> esc c = [c]"
  by (simp add: b64_plain_def esc_def Let_def)

lemma quote_b64: "quote_str (b64_encode bs) = CHR 0x22 # b64_encode bs @ [CHR 0x22]"
proof -
  have "concat (map esc s) = s" if "list_all b64_plain s" for s
    using that by (induction s) (simp_all add: esc_plain)
  then show ?thesis using b64_encode_plain by (simp add: quote_str_def)
qed

lemma print_members_Cons:
  "print_members ((k, v) # kvs) = quote_str k @ CHR '':'' # json_print v @
     (if kvs = [] then ''}'' else CHR '','' # print_members kvs)"
  by (cases kvs) auto

lemma print_elems_Cons:
  "print_elems (v # vs) = json_print v @ (if vs = [] then '']'' else CHR '','' # print_elems vs)"
  by (cases vs) auto

lemma last_print_members: "print_members kvs \<noteq> [] \<and> last (print_members kvs) = CHR ''}''"
proof (induction kvs)
  case (Cons p kvs)
  then show ?case by (cases p) (simp add: print_members_Cons)
qed simp

lemma length_print_member: "(k, v) \<in> set kvs \<Longrightarrow> length (json_print v) < length (print_members kvs)"
proof (induction kvs)
  case (Cons p kvs)
  then show ?case by (cases p) (auto simp: print_members_Cons)
qed simp

lemma length_print_elem: "v \<in> set vs \<Longrightarrow> length (json_print v) < length (print_elems vs)"
proof (induction vs)
  case (Cons v vs)
  then show ?case by (auto simp: print_elems_Cons)
qed simp

section \<open>Integers\<close>

lemma dec_digits_no_leading_zero: "dec_digits n = c # r \<Longrightarrow> c = CHR ''0'' \<Longrightarrow> r = []"
proof (induction n arbitrary: c r rule: dec_digits.induct)
  case (1 n)
  show ?case
  proof (cases "n < 10")
    case True
    with 1 show ?thesis by (simp add: dec_digits.simps [of n])
  next
    case False
    obtain c' r' where d: "dec_digits (n div 10) = c' # r'" using dec_digits_head by blast
    with 1 False have "c' = CHR ''0''" by (simp add: dec_digits.simps [of n])
    with d 1 False have "dec_digits (n div 10) = ''0''" by simp
    then have "digits_val (dec_digits (n div 10)) = digits_val ''0''" by simp
    then have "n div 10 = 0" by (simp only: digits_val_dec_digits) (simp add: digits_val_def digit_val_def)
    with False show ?thesis by simp
  qed
qed

lemma digit_is_num_char: "is_digit c \<Longrightarrow> is_num_char c"
  by (simp add: is_num_char_def)

lemma is_num_lit_dec: "is_num_lit (dec_digits n)" "is_num_lit (CHR ''-'' # dec_digits n)"
proof -
  obtain c r where cr: "dec_digits n = c # r" "is_digit c" using dec_digits_head by blast
  have all: "list_all is_digit (c # r)" using dec_digits_all [of n] cr by simp
  then have nc: "list_all is_num_char (c # r)" by (auto simp: list_all_iff digit_is_num_char)
  have dw: "dropWhile is_digit r = []" using all by (auto simp: list_all_iff dropWhile_eq_Nil_conv)
  have z: "c = CHR ''0'' \<Longrightarrow> r = []" using dec_digits_no_leading_zero cr by blast
  have neg: "c \<noteq> CHR ''-''" using cr(2) by (auto simp: is_digit_def)
  have fr: "frac_ok (if c = CHR ''0'' then r else dropWhile is_digit r)"
    using z by (simp add: frac_ok_def dw)
  show "is_num_lit (dec_digits n)" using cr nc neg fr by (simp add: is_num_lit_def)
  show "is_num_lit (CHR ''-'' # dec_digits n)"
    using cr nc fr by (simp add: is_num_lit_def is_num_char_def)
qed

lemma is_num_lit_fmt_int [simp]: "is_num_lit (fmt_int i)"
  by (simp add: fmt_int_def is_num_lit_dec)

definition jint :: "int \<Rightarrow> json" where
  "jint i = JNum (fmt_int i)"

lemma wf_jint [simp]: "wf_json (jint i)"
  by (simp add: jint_def)

section \<open>Structs\<close>

text \<open>
  \<open>json.Unmarshal\<close> into a struct: every member of the object is assigned, in order, to the
  field with that name (case folded), unknown members are skipped, \<open>null\<close> leaves the field as it
  is, a missing field stays zero, and a member of the wrong type makes the call fail.
\<close>

definition lower :: "char \<Rightarrow> char" where
  "lower c = (if 65 \<le> byte_val c \<and> byte_val c \<le> 90 then char_of (byte_val c + 32) else c)"

definition member_vals :: "string \<Rightarrow> (string \<times> json) list \<Rightarrow> json list" where
  "member_vals f kvs = map snd (filter (\<lambda>kv. map lower (fst kv) = map lower f) kvs)"

definition field_of :: "(json \<Rightarrow> 'a option) \<Rightarrow> 'a \<Rightarrow> string \<Rightarrow> (string \<times> json) list \<Rightarrow> 'a option" where
  "field_of conv zero f kvs =
     (let vs = filter (\<lambda>v. v \<noteq> JNull) (member_vals f kvs)
      in if list_all (\<lambda>v. conv v \<noteq> None) vs
         then Some (if vs = [] then zero else the (conv (last vs)))
         else None)"

fun conv_str :: "json \<Rightarrow> string option" where
  "conv_str (JStr s) = Some s"
| "conv_str _ = None"

fun conv_int :: "json \<Rightarrow> int option" where
  "conv_int (JNum l) = parse_int64 l"
| "conv_int _ = None"

fun conv_bool :: "json \<Rightarrow> bool option" where
  "conv_bool (JBool b) = Some b"
| "conv_bool _ = None"

fun conv_byte :: "json \<Rightarrow> char option" where
  "conv_byte JNull = Some (CHR 0x00)"
| "conv_byte (JNum l) = (case parse_int64 l of
     Some i \<Rightarrow> if 0 \<le> i \<and> i < 256 then Some (char_of (nat i)) else None | None \<Rightarrow> None)"
| "conv_byte _ = None"

text \<open>A \<open>[]byte\<close> is written in base 64; Go also accepts an array of numbers.\<close>

fun conv_bytes :: "json \<Rightarrow> bytes option" where
  "conv_bytes (JStr s) = b64_decode s"
| "conv_bytes (JArr vs) =
     (if list_all (\<lambda>v. conv_byte v \<noteq> None) vs then Some (map (\<lambda>v. the (conv_byte v)) vs) else None)"
| "conv_bytes _ = None"

abbreviation str_field where "str_field \<equiv> field_of conv_str []"
abbreviation int_field where "int_field \<equiv> field_of conv_int 0"
abbreviation bool_field where "bool_field \<equiv> field_of conv_bool False"
abbreviation bytes_field where "bytes_field \<equiv> field_of conv_bytes []"

definition marshal :: "('a \<Rightarrow> (string \<times> json) list) \<Rightarrow> 'a \<Rightarrow> bytes" where
  "marshal fields a = json_print (JObj (fields a))"

definition unmarshal :: "((string \<times> json) list \<Rightarrow> 'a option) \<Rightarrow> bytes \<Rightarrow> 'a option" where
  "unmarshal of_fields bs = (case json_parse bs of
     Some JNull \<Rightarrow> of_fields []
   | Some (JObj kvs) \<Rightarrow> of_fields kvs
   | _ \<Rightarrow> None)"

text \<open>The contract of a struct with JSON tags, on the values \<open>ok\<close> that its fields can hold.\<close>

locale json_struct =
  fixes fields :: "'a \<Rightarrow> (string \<times> json) list"
    and of_fields :: "(string \<times> json) list \<Rightarrow> 'a option"
    and ok :: "'a \<Rightarrow> bool"
  assumes wf_fields: "ok a \<Longrightarrow> wf_members (fields a)"
    and of_fields_fields: "ok a \<Longrightarrow> of_fields (fields a) = Some a"
begin

lemma unmarshal_marshal: "ok a \<Longrightarrow> unmarshal of_fields (marshal fields a) = Some a"
  using json_parse_print [of "JObj (fields a)"]
  by (simp add: unmarshal_def marshal_def wf_fields of_fields_fields)

lemma unmarshal_marshal_nl: "ok a \<Longrightarrow> unmarshal of_fields (marshal fields a @ [CHR 0x0A]) = Some a"
  using json_parse_print_nl [of "JObj (fields a)"]
  by (simp add: unmarshal_def marshal_def wf_fields of_fields_fields)

lemma marshal_no_newline: "ok a \<Longrightarrow> CHR 0x0A \<notin> set (marshal fields a)"
  using print_no_newline(1) [of "JObj (fields a)"] by (simp add: marshal_def wf_fields)

lemma marshal_inj: "ok a \<Longrightarrow> ok b \<Longrightarrow> marshal fields a = marshal fields b \<longleftrightarrow> a = b"
  by (metis option.inject unmarshal_marshal)

end

lemma last_marshal: "marshal fields a \<noteq> [] \<and> last (marshal fields a) = CHR ''}''"
  using last_print_members by (simp add: marshal_def)

lemma length_marshal: "(k, v) \<in> set (fields a) \<Longrightarrow> length (json_print v) < length (marshal fields a)"
  using length_print_member by (fastforce simp: marshal_def)

lemmas field_simps_json = field_of_def member_vals_def lower_def Let_def

end
