(* ===== verification/Wal.thy ===== *)
theory Wal
  imports Bolt Json "HOL-Library.Monad_Syntax"
begin

text \<open>
  \<open>internal/store/wal.go\<close> and \<open>bolt.go\<close>: the write-ahead log of queued operations in a bbolt
  bucket. A log entry is a record, stored as the JSON text that \<open>json.Marshal\<close> gives under the
  ten-digit sequence number. The store is the struct with its \<open>db\<close> handle, which is nil before
  \<open>Init\<close>, and refuses everything once closed. Every operation returns its result and the store; a
  failed bbolt transaction leaves the bucket as it was. \<open>time.Now().Unix()\<close> is the argument
  \<open>now\<close>, the bucket operations are the argument \<open>B\<close>.

  Lemmas: JSON round trip of entries, the log invariant (\<open>wal_inv\<close>: keys are sequence numbers and
  every stored value decodes to the entry of that key), for each operation what it does to the
  decoded log (\<open>store_log\<close>) on every branch, and the refinement of a specification on lists of entries by any
  run of calls (\<open>replay\<close>).
\<close>

section \<open>Entries\<close>

definition WALStatusPending :: string where "WALStatusPending = ''pending''"
definition WALStatusInFlight :: string where "WALStatusInFlight = ''inflight''"
definition WALStatusDone :: string where "WALStatusDone = ''done''"
definition WALStatusFailed :: string where "WALStatusFailed = ''failed''"

text \<open>A \<open>json.RawMessage\<close>: nil, or JSON text.\<close>

type_synonym raw_message = "bytes option"

record wal_entry =
  we_ID :: string
  we_PeerID :: string
  we_Op :: string
  we_Payload :: raw_message
  we_Status :: string
  we_Retries :: int
  we_CreatedAt :: int
  we_UpdatedAt :: int

definition raw_valid :: "raw_message \<Rightarrow> bool" where
  "raw_valid p = (case p of None \<Rightarrow> True | Some t \<Rightarrow> json_parse t \<noteq> None)"

definition raw_json :: "raw_message \<Rightarrow> json" where
  "raw_json p = (case p of None \<Rightarrow> JNull | Some t \<Rightarrow> the (json_parse t))"

definition wal_fields :: "wal_entry \<Rightarrow> (string \<times> json) list" where
  "wal_fields e =
     [(''id'', JStr (we_ID e)), (''peer_id'', JStr (we_PeerID e)), (''op'', JStr (we_Op e)),
      (''payload'', raw_json (we_Payload e)), (''status'', JStr (we_Status e)),
      (''retries'', jint (we_Retries e)), (''created_at'', jint (we_CreatedAt e)),
      (''updated_at'', jint (we_UpdatedAt e))]"

definition raw_field :: "string \<Rightarrow> (string \<times> json) list \<Rightarrow> raw_message" where
  "raw_field f kvs = (case member_vals f kvs of [] \<Rightarrow> None | vs \<Rightarrow> Some (json_print (last vs)))"

definition wal_of_fields :: "(string \<times> json) list \<Rightarrow> wal_entry option" where
  "wal_of_fields kvs = do {
     i \<leftarrow> str_field ''id'' kvs;
     p \<leftarrow> str_field ''peer_id'' kvs;
     q \<leftarrow> str_field ''op'' kvs;
     s \<leftarrow> str_field ''status'' kvs;
     r \<leftarrow> int_field ''retries'' kvs;
     c \<leftarrow> int_field ''created_at'' kvs;
     u \<leftarrow> int_field ''updated_at'' kvs;
     Some \<lparr>we_ID = i, we_PeerID = p, we_Op = q, we_Payload = raw_field ''payload'' kvs,
           we_Status = s, we_Retries = r, we_CreatedAt = c, we_UpdatedAt = u\<rparr>
   }"

text \<open>Marshalling fails when the raw payload is not JSON.\<close>

definition marshal_entry :: "wal_entry \<Rightarrow> bytes option" where
  "marshal_entry e = (if raw_valid (we_Payload e) then Some (marshal wal_fields e) else None)"

definition unmarshal_entry :: "bytes \<Rightarrow> wal_entry option" where
  "unmarshal_entry = unmarshal wal_of_fields"

section \<open>The store\<close>

text \<open>
  The handle: nil, closed, or open on a database that may hold the bucket \<open>wal_entries\<close>.
\<close>

datatype 'm bolt_handle = NilDB | ClosedDB | OpenDB "'m option"

record 'm bolt_store =
  walPath :: string
  db :: "'m bolt_handle"

datatype wal_err = WalNotInit | WalClosed | WalNoBucket | WalSeqErr | WalMarshalErr
  | WalUnmarshalErr | WalNotFound | WalPutErr | WalDelErr | WalCommitErr | WalOpenErr

definition NewBoltStore :: "string \<Rightarrow> 'm bolt_store" where
  "NewBoltStore path = \<lparr>walPath = path, db = NilDB\<rparr>"

text \<open>
  \<open>Init\<close>: \<open>opened\<close> is what \<open>bbolt.Open\<close> returns, the database with or without the bucket.
\<close>

definition bolt_Init :: "('m, bytes) bucket_ops \<Rightarrow> 'm option option \<Rightarrow> 'm bolt_store \<Rightarrow> wal_err option \<times> 'm bolt_store" where
  "bolt_Init B opened s = (case opened of
     None \<Rightarrow> (Some WalOpenErr, s\<lparr>db := NilDB\<rparr>)
   | Some root \<Rightarrow>
       (let m = (case root of None \<Rightarrow> b_empty B | Some m \<Rightarrow> m) in
        if b_commit B m m then (None, s\<lparr>db := OpenDB (Some m)\<rparr>)
        else (Some WalCommitErr, s\<lparr>db := OpenDB root\<rparr>)))"

definition bolt_Close :: "'m bolt_store \<Rightarrow> 'm bolt_store" where
  "bolt_Close s = (case db s of NilDB \<Rightarrow> s | _ \<Rightarrow> s\<lparr>db := ClosedDB\<rparr>)"

text \<open>
  \<open>s.db.Update\<close> on the bucket: the closure's error or a failed commit rolls everything back.
\<close>

definition wal_update ::
  "('m, bytes) bucket_ops \<Rightarrow> 'm bolt_store \<Rightarrow> ('m \<Rightarrow> wal_err + ('a \<times> 'm)) \<Rightarrow> (wal_err + 'a) \<times> 'm bolt_store" where
  "wal_update B s f = (case db s of
     NilDB \<Rightarrow> (Inl WalNotInit, s)
   | ClosedDB \<Rightarrow> (Inl WalClosed, s)
   | OpenDB None \<Rightarrow> (Inl WalNoBucket, s)
   | OpenDB (Some m) \<Rightarrow>
       (case f m of
          Inl e \<Rightarrow> (Inl e, s)
        | Inr (a, m') \<Rightarrow>
            if b_commit B m m' then (Inr a, s\<lparr>db := OpenDB (Some m')\<rparr>)
            else (Inl WalCommitErr, s)))"

text \<open>The closure of \<open>EnqueueEntry\<close>, then the operation.\<close>

definition enqueue_tx ::
  "('m, bytes) bucket_ops \<Rightarrow> int \<Rightarrow> string \<Rightarrow> string \<Rightarrow> raw_message \<Rightarrow> 'm \<Rightarrow> wal_err + (wal_entry \<times> 'm)" where
  "enqueue_tx B now peerID op payload m =
     (case b_next B m of
       None \<Rightarrow> Inl WalSeqErr
     | Some m1 \<Rightarrow>
         (let key = pad10 (b_seq B m1);
              entry = \<lparr>we_ID = key, we_PeerID = peerID, we_Op = op, we_Payload = payload,
                       we_Status = WALStatusPending, we_Retries = 0,
                       we_CreatedAt = now, we_UpdatedAt = now\<rparr>
          in (case marshal_entry entry of
                None \<Rightarrow> Inl WalMarshalErr
              | Some data \<Rightarrow>
                  (case b_put B m1 key data of
                     None \<Rightarrow> Inl WalPutErr
                   | Some m2 \<Rightarrow> Inr (entry, m2)))))"

definition EnqueueEntry ::
  "('m, bytes) bucket_ops \<Rightarrow> int \<Rightarrow> 'm bolt_store \<Rightarrow> string \<Rightarrow> string \<Rightarrow> raw_message
     \<Rightarrow> (wal_err + wal_entry) \<times> 'm bolt_store" where
  "EnqueueEntry B now s peerID op payload = wal_update B s (enqueue_tx B now peerID op payload)"

text \<open>The \<open>ForEach\<close> loop: on a value that does not decode, the entries so far and the error.\<close>

fun collect_entries :: "(wal_entry \<Rightarrow> bool) \<Rightarrow> (string \<times> bytes) list \<Rightarrow> wal_entry list \<times> wal_err option" where
  "collect_entries P [] = ([], None)"
| "collect_entries P ((k, v) # kvs) =
     (case unmarshal_entry v of
        None \<Rightarrow> ([], Some WalUnmarshalErr)
      | Some e \<Rightarrow>
          (let (es, err) = collect_entries P kvs in (if P e then e # es else es, err)))"

definition wal_read ::
  "('m, bytes) bucket_ops \<Rightarrow> 'm bolt_store \<Rightarrow> (wal_entry \<Rightarrow> bool) \<Rightarrow> wal_entry list \<times> wal_err option" where
  "wal_read B s P = (case db s of
     NilDB \<Rightarrow> ([], Some WalNotInit)
   | ClosedDB \<Rightarrow> ([], Some WalClosed)
   | OpenDB None \<Rightarrow> ([], None)
   | OpenDB (Some m) \<Rightarrow> collect_entries P (b_entries B m))"

definition GetPendingEntries :: "('m, bytes) bucket_ops \<Rightarrow> 'm bolt_store \<Rightarrow> string \<Rightarrow> wal_entry list \<times> wal_err option" where
  "GetPendingEntries B s peerID = wal_read B s (\<lambda>e. we_PeerID e = peerID \<and> we_Status e = WALStatusPending)"

definition GetAllPendingEntries :: "('m, bytes) bucket_ops \<Rightarrow> 'm bolt_store \<Rightarrow> wal_entry list \<times> wal_err option" where
  "GetAllPendingEntries B s = wal_read B s (\<lambda>e. we_Status e = WALStatusPending)"

text \<open>Read, change and write back one entry: the common body of the status updates.\<close>

definition modify_entry ::
  "('m, bytes) bucket_ops \<Rightarrow> string \<Rightarrow> (wal_entry \<Rightarrow> wal_entry) \<Rightarrow> 'm \<Rightarrow> wal_err + (unit \<times> 'm)" where
  "modify_entry B eid g m =
     (case b_get B m eid of
        None \<Rightarrow> Inl WalNotFound
      | Some data \<Rightarrow>
          (case unmarshal_entry data of
             None \<Rightarrow> Inl WalUnmarshalErr
           | Some e \<Rightarrow>
               (case marshal_entry (g e) of
                  None \<Rightarrow> Inl WalMarshalErr
                | Some updated \<Rightarrow>
                    (case b_put B m eid updated of None \<Rightarrow> Inl WalPutErr | Some m' \<Rightarrow> Inr ((), m')))))"

definition set_status :: "string \<Rightarrow> int \<Rightarrow> wal_entry \<Rightarrow> wal_entry" where
  "set_status st now e = e\<lparr>we_Status := st, we_UpdatedAt := now\<rparr>"

definition set_retry :: "int \<Rightarrow> wal_entry \<Rightarrow> wal_entry" where
  "set_retry now e =
     e\<lparr>we_Status := WALStatusPending, we_Retries := wrap64 (we_Retries e + 1), we_UpdatedAt := now\<rparr>"

definition updateStatus ::
  "('m, bytes) bucket_ops \<Rightarrow> int \<Rightarrow> 'm bolt_store \<Rightarrow> string \<Rightarrow> string \<Rightarrow> (wal_err + unit) \<times> 'm bolt_store" where
  "updateStatus B now s eid status = wal_update B s (modify_entry B eid (set_status status now))"

definition MarkInFlight ::
  "('m, bytes) bucket_ops \<Rightarrow> int \<Rightarrow> 'm bolt_store \<Rightarrow> string \<Rightarrow> (wal_err + unit) \<times> 'm bolt_store" where
  "MarkInFlight B now s eid = updateStatus B now s eid WALStatusInFlight"

definition MarkDone ::
  "('m, bytes) bucket_ops \<Rightarrow> int \<Rightarrow> 'm bolt_store \<Rightarrow> string \<Rightarrow> (wal_err + unit) \<times> 'm bolt_store" where
  "MarkDone B now s eid = updateStatus B now s eid WALStatusDone"

definition MarkFailed ::
  "('m, bytes) bucket_ops \<Rightarrow> int \<Rightarrow> 'm bolt_store \<Rightarrow> string \<Rightarrow> (wal_err + unit) \<times> 'm bolt_store" where
  "MarkFailed B now s eid = wal_update B s (modify_entry B eid (set_retry now))"

definition DeleteEntry ::
  "('m, bytes) bucket_ops \<Rightarrow> 'm bolt_store \<Rightarrow> string \<Rightarrow> (wal_err + unit) \<times> 'm bolt_store" where
  "DeleteEntry B s eid = wal_update B s (\<lambda>m.
     case b_del B m eid of None \<Rightarrow> Inl WalDelErr | Some m' \<Rightarrow> Inr ((), m'))"

section \<open>The JSON form of an entry\<close>

text \<open>What a store and a load do to an entry: the payload comes back as compact JSON text.\<close>

definition canon_entry :: "wal_entry \<Rightarrow> wal_entry" where
  "canon_entry e = e\<lparr>we_Payload := Some (json_print (raw_json (we_Payload e)))\<rparr>"

definition entry_ints_ok :: "wal_entry \<Rightarrow> bool" where
  "entry_ints_ok e \<longleftrightarrow> in_int64 (we_Retries e) \<and> in_int64 (we_CreatedAt e) \<and> in_int64 (we_UpdatedAt e)"

definition wal_ok :: "wal_entry \<Rightarrow> bool" where
  "wal_ok e \<longleftrightarrow> raw_valid (we_Payload e) \<and> canon_entry e = e \<and> entry_ints_ok e"

lemma wf_raw_json: "raw_valid p \<Longrightarrow> wf_json (raw_json p)"
  by (auto simp: raw_valid_def raw_json_def json_parse_wf split: option.splits)

lemma canon_entry_sel [simp]:
  "we_ID (canon_entry e) = we_ID e" "we_PeerID (canon_entry e) = we_PeerID e"
  "we_Op (canon_entry e) = we_Op e" "we_Status (canon_entry e) = we_Status e"
  "we_Retries (canon_entry e) = we_Retries e" "we_CreatedAt (canon_entry e) = we_CreatedAt e"
  "we_UpdatedAt (canon_entry e) = we_UpdatedAt e"
  by (simp_all add: canon_entry_def)

lemma wf_wal_fields: "raw_valid (we_Payload e) \<Longrightarrow> wf_members (wal_fields e)"
  by (simp add: wal_fields_def wf_raw_json)

lemma wal_of_fields_fields:
  "entry_ints_ok e \<Longrightarrow> wal_of_fields (wal_fields e) = Some (canon_entry e)"
  by (simp add: wal_of_fields_def wal_fields_def field_simps_json raw_field_def jint_def
      entry_ints_ok_def parse_int64_fmt_int canon_entry_def)

interpretation wal_json: json_struct wal_fields wal_of_fields wal_ok
  by unfold_locales (simp_all add: wal_ok_def wf_wal_fields wal_of_fields_fields)

lemma unmarshal_marshal_entry:
  assumes "marshal_entry e = Some t" "entry_ints_ok e"
  shows "unmarshal_entry t = Some (canon_entry e)"
proof -
  have v: "raw_valid (we_Payload e)" and t: "t = json_print (JObj (wal_fields e))"
    using assms(1) by (auto simp: marshal_entry_def marshal_def split: if_splits)
  then show ?thesis
    using json_parse_print [of "JObj (wal_fields e)"] assms(2)
    by (simp add: unmarshal_entry_def unmarshal_def wf_wal_fields wal_of_fields_fields)
qed

lemma raw_canon: "wf_json v \<Longrightarrow> raw_valid (Some (json_print v)) \<and> raw_json (Some (json_print v)) = v"
  by (simp add: raw_valid_def raw_json_def json_parse_print)

lemma wal_ok_canon: "raw_valid (we_Payload e) \<Longrightarrow> entry_ints_ok e \<Longrightarrow> wal_ok (canon_entry e)"
  using raw_canon [OF wf_raw_json [of "we_Payload e"]]
  by (simp add: wal_ok_def canon_entry_def entry_ints_ok_def)

lemma wal_okD: "wal_ok e \<Longrightarrow> marshal_entry e = Some (marshal wal_fields e)"
  by (simp add: wal_ok_def marshal_entry_def)

lemma wal_ok_set_status: "wal_ok e \<Longrightarrow> in_int64 now \<Longrightarrow> wal_ok (set_status st now e)"
  by (cases e) (simp add: wal_ok_def set_status_def canon_entry_def entry_ints_ok_def)

lemma wal_ok_set_retry: "wal_ok e \<Longrightarrow> in_int64 now \<Longrightarrow> wal_ok (set_retry now e)"
  by (cases e) (simp add: wal_ok_def set_retry_def canon_entry_def entry_ints_ok_def)

section \<open>The log\<close>

text \<open>
  The abstract state of the store is the list of its decoded entries in key order. The invariant
  says that every key is the rendering of a sequence number already given out and that its value
  decodes to a well-formed entry which names that key.
\<close>

definition entry_inv :: "nat \<Rightarrow> string \<times> bytes \<Rightarrow> bool" where
  "entry_inv n kv \<longleftrightarrow>
     fst kv = pad10 (digits_val (fst kv)) \<and> 1 \<le> digits_val (fst kv) \<and> digits_val (fst kv) \<le> n \<and>
     (case unmarshal_entry (snd kv) of None \<Rightarrow> False | Some e \<Rightarrow> wal_ok e \<and> we_ID e = fst kv)"

definition wal_inv :: "('m, bytes) bucket_ops \<Rightarrow> 'm \<Rightarrow> bool" where
  "wal_inv B m \<longleftrightarrow> list_all (entry_inv (b_seq B m)) (b_entries B m)"

definition wal_log :: "('m, bytes) bucket_ops \<Rightarrow> 'm \<Rightarrow> wal_entry list" where
  "wal_log B m = map (\<lambda>kv. the (unmarshal_entry (snd kv))) (b_entries B m)"

definition store_inv :: "('m, bytes) bucket_ops \<Rightarrow> 'm bolt_store \<Rightarrow> bool" where
  "store_inv B s = (case db s of OpenDB (Some m) \<Rightarrow> wal_inv B m | _ \<Rightarrow> True)"

definition store_log :: "('m, bytes) bucket_ops \<Rightarrow> 'm bolt_store \<Rightarrow> wal_entry list" where
  "store_log B s = (case db s of OpenDB (Some m) \<Rightarrow> wal_log B m | _ \<Rightarrow> [])"

text \<open>How many sequence numbers the store has given out.\<close>

definition store_seq :: "('m, bytes) bucket_ops \<Rightarrow> 'm bolt_store \<Rightarrow> nat" where
  "store_seq B s = (case db s of OpenDB (Some m) \<Rightarrow> b_seq B m | _ \<Rightarrow> 0)"

definition update_log :: "string \<Rightarrow> (wal_entry \<Rightarrow> wal_entry) \<Rightarrow> wal_entry list \<Rightarrow> wal_entry list" where
  "update_log eid g = map (\<lambda>e. if we_ID e = eid then g e else e)"

lemma entry_invD:
  "entry_inv n kv \<Longrightarrow> \<exists>e. unmarshal_entry (snd kv) = Some e \<and> wal_ok e \<and> we_ID e = fst kv"
  by (auto simp: entry_inv_def split: option.splits)

lemma entry_inv_key: "entry_inv n kv \<Longrightarrow> fst kv \<noteq> []"
  unfolding entry_inv_def by (metis pad10_ne)

lemma entry_inv_mono: "entry_inv n kv \<Longrightarrow> n \<le> n' \<Longrightarrow> entry_inv n' kv"
  by (auto simp: entry_inv_def)

lemma log_ids: "list_all (entry_inv n) kvs \<Longrightarrow> map (\<lambda>kv. we_ID (the (unmarshal_entry (snd kv)))) kvs = map fst kvs"
  using entry_invD by (fastforce simp: list_all_iff)

lemma collect_all:
  "list_all (entry_inv n) kvs \<Longrightarrow>
     collect_entries P kvs = (filter P (map (\<lambda>kv. the (unmarshal_entry (snd kv))) kvs), None)"
proof (induction P kvs rule: collect_entries.induct)
  case (2 P k v kvs)
  then obtain e where "unmarshal_entry v = Some e" using entry_invD [of n "(k, v)"] by auto
  with 2 show ?case by simp
qed simp

lemma wal_update_error: "wal_update B s f = (Inl e, s') \<Longrightarrow> s' = s"
  by (auto simp: wal_update_def split: bolt_handle.splits option.splits sum.splits prod.splits if_splits)

lemma wal_update_Inr:
  "wal_update B s f = (Inr a, s') \<longleftrightarrow>
     (\<exists>m m'. db s = OpenDB (Some m) \<and> f m = Inr (a, m') \<and> b_commit B m m' \<and> s' = s\<lparr>db := OpenDB (Some m')\<rparr>)"
  by (auto simp: wal_update_def split: bolt_handle.splits option.splits sum.splits prod.splits if_splits)

locale wal_bucket = kv_bucket B for B :: "('m, bytes) bucket_ops"
begin

lemma inv_entry: "wal_inv B m \<Longrightarrow> b_get B m k = Some v \<Longrightarrow> entry_inv (b_seq B m) (k, v)"
  by (auto simp: wal_inv_def list_all_iff entries_iff)

lemma inv_key: "wal_inv B m \<Longrightarrow> k \<in> dom (b_get B m) \<Longrightarrow> \<exists>n. k = pad10 n \<and> n \<le> b_seq B m"
  using inv_entry by (fastforce simp: entry_inv_def)

lemma ids_keys: "wal_inv B m \<Longrightarrow> map we_ID (wal_log B m) = map fst (b_entries B m)"
  using log_ids by (fastforce simp: wal_inv_def wal_log_def comp_def)

lemma ids_sorted: "wal_inv B m \<Longrightarrow> sorted_wrt (<) (map we_ID (wal_log B m))"
  using ids_keys entries_sorted by simp

lemma in_ids_iff: "wal_inv B m \<Longrightarrow> eid \<in> we_ID ` set (wal_log B m) \<longleftrightarrow> b_get B m eid \<noteq> None"
  using ids_keys [of m] by (metis domIff dom_map_of_conv_image_fst get_map_of list.set_map)

lemma read_log: "wal_inv B m \<Longrightarrow> collect_entries P (b_entries B m) = (filter P (wal_log B m), None)"
  by (simp add: wal_inv_def wal_log_def collect_all)

text \<open>A new entry joins the log; at its end while sequence numbers fit the ten digits.\<close>

lemma insert_entry:
  assumes inv: "wal_inv B m" and nx: "b_next B m = Some m1" and m2: "b_put B m1 k t = Some m2"
    and k: "k = pad10 (b_seq B m1)" and t: "marshal_entry e = Some t"
    and e: "we_ID e = k" "entry_ints_ok e"
  shows "wal_inv B m2 \<and> set (wal_log B m2) = insert (canon_entry e) (set (wal_log B m)) \<and>
    b_seq B m2 = Suc (b_seq B m)"
proof -
  have seq: "b_seq B m1 = Suc (b_seq B m)" using nx by (rule seq_next)
  have fresh: "k \<notin> dom (b_get B m)" using inv_key [OF inv] seq by (fastforce simp: k)
  have ents: "set (b_entries B m2) = insert (k, t) (set (b_entries B m))"
    using fresh by (auto simp: entries_iff get_put [OF m2] get_next [OF nx] split: if_splits)
  have u: "unmarshal_entry t = Some (canon_entry e)" using unmarshal_marshal_entry t e(2) by blast
  have "raw_valid (we_Payload e)" using t by (auto simp: marshal_entry_def split: if_splits)
  then have "wal_ok (canon_entry e)" using e(2) by (rule wal_ok_canon)
  then have "entry_inv (b_seq B m2) (k, t)"
    using seq_put [OF m2] seq e(1) by (simp add: entry_inv_def u k)
  moreover have "list_all (entry_inv (b_seq B m2)) (b_entries B m)"
    using inv seq_put [OF m2] seq by (auto simp: wal_inv_def list_all_iff intro: entry_inv_mono)
  ultimately show ?thesis by (auto simp: wal_inv_def wal_log_def ents list_all_iff u seq_put [OF m2] seq)
qed

lemma append_entry:
  assumes "wal_inv B m" and nx: "b_next B m = Some m1" and m2: "b_put B m1 k t = Some m2"
    and k: "k = pad10 (b_seq B m1)" and "marshal_entry e = Some t" "entry_ints_ok e" "b_seq B m1 < 10 ^ 10"
  shows "wal_log B m2 = wal_log B m @ [canon_entry e]"
proof -
  have "seq_keys m" using inv_key [OF assms(1)] unfolding seq_keys_def by blast
  then have "b_entries B m2 = b_entries B m @ [(k, t)]"
    using put_next_last [OF _ nx] m2 assms(7) unfolding k by blast
  moreover have "unmarshal_entry t = Some (canon_entry e)" using unmarshal_marshal_entry assms(5,6) by blast
  ultimately show ?thesis by (simp add: wal_log_def)
qed

lemma modify_log:
  assumes inv: "wal_inv B m" and m': "modify_entry B eid g m = Inr (u, m')"
    and g: "\<And>e. wal_ok e \<Longrightarrow> wal_ok (g e)" "\<And>e. we_ID (g e) = we_ID e"
  shows "wal_inv B m' \<and> wal_log B m' = update_log eid g (wal_log B m) \<and> b_seq B m' = b_seq B m
    \<and> eid \<in> we_ID ` set (wal_log B m)"
proof -
  obtain v e t where get: "b_get B m eid = Some v" and v: "unmarshal_entry v = Some e"
    and t: "marshal_entry (g e) = Some t" and put: "b_put B m eid t = Some m'"
    using m' by (auto simp: modify_entry_def split: option.splits)
  have ei: "entry_inv (b_seq B m) (eid, v)" using inv get by (rule inv_entry)
  then have ok: "wal_ok e" "we_ID e = eid" using entry_invD [OF ei] v by auto
  have gok: "wal_ok (g e)" using ok g by blast
  then have ut: "unmarshal_entry t = Some (g e)"
    using unmarshal_marshal_entry [OF t] by (simp add: wal_ok_def)
  let ?f = "\<lambda>(k', v'). (k', if k' = eid then t else v')"
  have ents: "b_entries B m' = map ?f (b_entries B m)"
    using put get by (intro entries_put_same) auto
  have "entry_inv (b_seq B m) (eid, t)"
    using ei gok g(2) ok(2) by (simp add: entry_inv_def ut)
  then have "wal_inv B m'"
    using inv seq_put [OF put] by (auto simp: wal_inv_def ents list_all_iff)
  moreover have "the (unmarshal_entry (snd (?f kv))) =
      (if we_ID (the (unmarshal_entry (snd kv))) = eid then g (the (unmarshal_entry (snd kv)))
       else the (unmarshal_entry (snd kv)))" if "kv \<in> set (b_entries B m)" for kv
  proof -
    obtain k' v' where kv: "kv = (k', v')" by fastforce
    have "entry_inv (b_seq B m) kv" using inv that by (simp add: wal_inv_def list_all_iff)
    then obtain e' where "unmarshal_entry v' = Some e'" "we_ID e' = k'" using entry_invD kv by fastforce
    moreover have "k' = eid \<Longrightarrow> v' = v" using that get kv by (simp add: entries_iff)
    ultimately show ?thesis using ut v kv by auto
  qed
  then have "wal_log B m' = update_log eid g (wal_log B m)"
    by (simp add: wal_log_def update_log_def ents)
  moreover have "eid \<in> we_ID ` set (wal_log B m)" using inv get by (simp add: in_ids_iff)
  ultimately show ?thesis using seq_put [OF put] by blast
qed

lemma delete_log:
  assumes inv: "wal_inv B m" and m': "b_del B m eid = Some m'"
  shows "wal_inv B m' \<and> wal_log B m' = filter (\<lambda>e. we_ID e \<noteq> eid) (wal_log B m) \<and> b_seq B m' = b_seq B m"
proof -
  have ents: "b_entries B m' = filter (\<lambda>p. fst p \<noteq> eid) (b_entries B m)" using m' by (rule entries_del)
  have "we_ID (the (unmarshal_entry (snd kv))) = fst kv" if "kv \<in> set (b_entries B m)" for kv
    using inv that entry_invD by (fastforce simp: wal_inv_def list_all_iff)
  then have "filter (\<lambda>e. we_ID e \<noteq> eid) (wal_log B m) = wal_log B m'"
    by (simp add: wal_log_def ents filter_map comp_def cong: filter_cong)
  moreover have "wal_inv B m'" using inv seq_del [OF m'] by (auto simp: wal_inv_def ents list_all_iff)
  ultimately show ?thesis using seq_del [OF m'] by simp
qed

text \<open>The operations of the store.\<close>

lemma enqueue_tx_Inr:
  assumes "enqueue_tx B now p q pl m = Inr (e, m2)" "in_int64 now"
  shows "\<exists>m1 t. b_next B m = Some m1 \<and> b_put B m1 (pad10 (b_seq B m1)) t = Some m2 \<and>
    marshal_entry e = Some t \<and> entry_ints_ok e \<and>
    e = \<lparr>we_ID = pad10 (b_seq B m1), we_PeerID = p, we_Op = q, we_Payload = pl,
         we_Status = WALStatusPending, we_Retries = 0, we_CreatedAt = now, we_UpdatedAt = now\<rparr>"
  using assms
  by (auto simp: enqueue_tx_def Let_def entry_ints_ok_def in_int64_def int64_min_def int64_max_def
      split: option.split_asm)

lemma enqueue_Inr:
  assumes "EnqueueEntry B now s p q pl = (Inr e, s')" and "store_inv B s"
    and "in_int64 now" "store_seq B s < 10 ^ 10 - 1"
  shows "store_inv B s' \<and> store_log B s' = store_log B s @ [canon_entry e]
    \<and> store_seq B s' = Suc (store_seq B s) \<and>
    e = \<lparr>we_ID = pad10 (Suc (store_seq B s)), we_PeerID = p, we_Op = q, we_Payload = pl,
         we_Status = WALStatusPending, we_Retries = 0, we_CreatedAt = now, we_UpdatedAt = now\<rparr>"
proof -
  obtain m m2 where m: "db s = OpenDB (Some m)" and tx: "enqueue_tx B now p q pl m = Inr (e, m2)"
    and s': "s' = s\<lparr>db := OpenDB (Some m2)\<rparr>"
    using assms(1) by (auto simp: EnqueueEntry_def wal_update_Inr)
  obtain m1 t where nx: "b_next B m = Some m1" and put: "b_put B m1 (pad10 (b_seq B m1)) t = Some m2"
    and t: "marshal_entry e = Some t" and ints: "entry_ints_ok e"
    and e: "e = \<lparr>we_ID = pad10 (b_seq B m1), we_PeerID = p, we_Op = q, we_Payload = pl,
         we_Status = WALStatusPending, we_Retries = 0, we_CreatedAt = now, we_UpdatedAt = now\<rparr>"
    using enqueue_tx_Inr [OF tx assms(3)] by blast
  have inv: "wal_inv B m" using assms(2) m by (simp add: store_inv_def)
  have seq: "b_seq B m1 = Suc (b_seq B m)" using nx by (rule seq_next)
  have small: "b_seq B m1 < 10 ^ 10" using assms(4) m seq by (simp add: store_seq_def)
  have id: "we_ID e = pad10 (b_seq B m1)" by (simp add: e)
  show ?thesis
    using append_entry [OF inv nx put refl t ints small] insert_entry [OF inv nx put refl t id ints] e seq by (simp add: s' m store_inv_def store_log_def store_seq_def)
qed

lemma enqueue_set:
  assumes "EnqueueEntry B now s p q pl = (Inr e, s')" and "store_inv B s" "in_int64 now"
  shows "store_inv B s' \<and> set (store_log B s') = insert (canon_entry e) (set (store_log B s)) \<and>
    store_seq B s' = Suc (store_seq B s) \<and> we_ID e = pad10 (Suc (store_seq B s)) \<and>
    we_PeerID e = p \<and> we_Op e = q \<and> we_Payload e = pl \<and> we_Status e = WALStatusPending \<and> we_Retries e = 0"
proof -
  obtain m m2 where m: "db s = OpenDB (Some m)" and tx: "enqueue_tx B now p q pl m = Inr (e, m2)"
    and s': "s' = s\<lparr>db := OpenDB (Some m2)\<rparr>"
    using assms(1) by (auto simp: EnqueueEntry_def wal_update_Inr)
  obtain m1 t where nx: "b_next B m = Some m1" and put: "b_put B m1 (pad10 (b_seq B m1)) t = Some m2"
    and t: "marshal_entry e = Some t" and ints: "entry_ints_ok e"
    and e: "e = \<lparr>we_ID = pad10 (b_seq B m1), we_PeerID = p, we_Op = q, we_Payload = pl,
         we_Status = WALStatusPending, we_Retries = 0, we_CreatedAt = now, we_UpdatedAt = now\<rparr>"
    using enqueue_tx_Inr [OF tx assms(3)] by blast
  have inv: "wal_inv B m" using assms(2) m by (simp add: store_inv_def)
  have sel: "we_ID e = pad10 (b_seq B m1)" "we_PeerID e = p" "we_Op e = q" "we_Payload e = pl"
    "we_Status e = WALStatusPending" "we_Retries e = 0" by (simp_all only: e wal_entry.simps)
  show ?thesis
    using insert_entry [OF inv nx put refl t sel(1) ints] seq_next [OF nx] sel
    by (simp add: s' m store_inv_def store_log_def store_seq_def)
qed

lemma modify_Inr:
  assumes "wal_update B s (modify_entry B eid g) = (Inr u, s')" and "store_inv B s"
    and "\<And>e. wal_ok e \<Longrightarrow> wal_ok (g e)" "\<And>e. we_ID (g e) = we_ID e"
  shows "store_inv B s' \<and> store_log B s' = update_log eid g (store_log B s)
    \<and> store_seq B s' = store_seq B s \<and> eid \<in> we_ID ` set (store_log B s)"
proof -
  obtain m m' where m: "db s = OpenDB (Some m)" "modify_entry B eid g m = Inr (u, m')"
    and s': "s' = s\<lparr>db := OpenDB (Some m')\<rparr>" using assms(1) by (auto simp: wal_update_Inr)
  then show ?thesis using modify_log [OF _ m(2) assms(3,4)] assms(2)
    by (simp add: store_inv_def store_log_def store_seq_def)
qed

lemma updateStatus_Inr:
  "updateStatus B now s eid st = (Inr u, s') \<Longrightarrow> store_inv B s \<Longrightarrow> in_int64 now \<Longrightarrow>
   store_inv B s' \<and> store_log B s' = update_log eid (set_status st now) (store_log B s)
    \<and> store_seq B s' = store_seq B s \<and> eid \<in> we_ID ` set (store_log B s)"
  unfolding updateStatus_def
  by (rule modify_Inr) (simp_all add: wal_ok_set_status, simp add: set_status_def)

lemma MarkFailed_Inr:
  "MarkFailed B now s eid = (Inr u, s') \<Longrightarrow> store_inv B s \<Longrightarrow> in_int64 now \<Longrightarrow>
   store_inv B s' \<and> store_log B s' = update_log eid (set_retry now) (store_log B s)
    \<and> store_seq B s' = store_seq B s \<and> eid \<in> we_ID ` set (store_log B s)"
  unfolding MarkFailed_def
  by (rule modify_Inr) (simp_all add: wal_ok_set_retry, simp add: set_retry_def)

lemma DeleteEntry_Inr:
  assumes "DeleteEntry B s eid = (Inr u, s')" "store_inv B s"
  shows "store_inv B s' \<and> store_log B s' = filter (\<lambda>e. we_ID e \<noteq> eid) (store_log B s)
    \<and> store_seq B s' = store_seq B s"
proof -
  obtain m m' where m: "db s = OpenDB (Some m)" "b_del B m eid = Some m'"
    and s': "s' = s\<lparr>db := OpenDB (Some m')\<rparr>"
    using assms(1) by (auto simp: DeleteEntry_def wal_update_Inr split: option.splits)
  then show ?thesis using delete_log [OF _ m(2)] assms(2)
    by (simp add: store_inv_def store_log_def store_seq_def)
qed

lemma store_read:
  "store_inv B s \<Longrightarrow> wal_read B s P =
     (filter P (store_log B s), case db s of NilDB \<Rightarrow> Some WalNotInit | ClosedDB \<Rightarrow> Some WalClosed | _ \<Rightarrow> None)"
  by (auto simp: wal_read_def store_inv_def store_log_def read_log split: bolt_handle.splits option.splits)

lemma store_ids_used: "store_inv B s \<Longrightarrow> we_ID ` set (store_log B s) \<subseteq> pad10 ` {1..store_seq B s}"
proof
  fix i assume inv: "store_inv B s" and i: "i \<in> we_ID ` set (store_log B s)"
  then obtain m where m: "db s = OpenDB (Some m)"
    by (cases "db s") (auto simp: store_log_def split: option.split_asm)
  have w: "wal_inv B m" "b_get B m i \<noteq> None"
    using inv i m in_ids_iff by (auto simp: store_inv_def store_log_def)
  then obtain v where "entry_inv (b_seq B m) (i, v)" using inv_entry by blast
  then have "i = pad10 (digits_val i)" "digits_val i \<in> {1..b_seq B m}"
    unfolding entry_inv_def by simp_all
  then show "i \<in> pad10 ` {1..store_seq B s}" by (simp only: store_seq_def m bolt_handle.case option.case) blast
qed

lemma store_ids_sorted: "store_inv B s \<Longrightarrow> sorted_wrt (<) (map we_ID (store_log B s))"
  by (auto simp: store_inv_def store_log_def ids_sorted split: bolt_handle.splits option.splits)

end

lemma store_op_error:
  "EnqueueEntry B now s p q pl = (Inl er, s') \<Longrightarrow> s' = s"
  "updateStatus B now s eid st = (Inl er, s') \<Longrightarrow> s' = s"
  "MarkFailed B now s eid = (Inl er, s') \<Longrightarrow> s' = s"
  "DeleteEntry B s eid = (Inl er, s') \<Longrightarrow> s' = s"
  by (simp_all add: EnqueueEntry_def updateStatus_def MarkFailed_def DeleteEntry_def wal_update_error)

locale wal_bucket_reliable = wal_bucket B + kv_reliable B for B :: "('m, bytes) bucket_ops"
begin

lemma enqueue_ok:
  assumes m: "db s = OpenDB (Some m)" and pl: "raw_valid pl"
  shows "is_ok (fst (EnqueueEntry B now s p q pl))"
proof -
  obtain m1 where nx: "b_next B m = Some m1" using next_ok [of m] by blast
  let ?e = "\<lparr>we_ID = pad10 (b_seq B m1), we_PeerID = p, we_Op = q, we_Payload = pl,
      we_Status = WALStatusPending, we_Retries = 0, we_CreatedAt = now, we_UpdatedAt = now\<rparr>"
  have t: "marshal_entry ?e = Some (marshal wal_fields ?e)" using pl by (simp add: marshal_entry_def)
  obtain m2 where "b_put B m1 (pad10 (b_seq B m1)) (marshal wal_fields ?e) = Some m2"
    using put_ok [of "pad10 (b_seq B m1)" m1 "marshal wal_fields ?e"] by auto
  then have "enqueue_tx B now p q pl m = Inr (?e, m2)" by (simp add: enqueue_tx_def nx t)
  then show ?thesis by (simp add: EnqueueEntry_def wal_update_def m commit_ok)
qed

lemma modify_ok:
  assumes inv: "wal_inv B m" and m: "db s = OpenDB (Some m)" and eid: "eid \<in> we_ID ` set (wal_log B m)"
    and g: "\<And>e. wal_ok e \<Longrightarrow> wal_ok (g e)"
  shows "\<exists>s'. wal_update B s (modify_entry B eid g) = (Inr (), s')"
proof -
  obtain v where v: "b_get B m eid = Some v" using eid inv in_ids_iff by blast
  then have "entry_inv (b_seq B m) (eid, v)" using inv inv_entry by blast
  then obtain e where e: "unmarshal_entry v = Some e" "wal_ok e" using entry_invD by fastforce
  then have t: "marshal_entry (g e) = Some (marshal wal_fields (g e))" using g wal_okD by blast
  have "eid \<noteq> []" using entry_inv_key [OF \<open>entry_inv _ (eid, v)\<close>] by simp
  then obtain m' where "b_put B m eid (marshal wal_fields (g e)) = Some m'"
    using put_ok [of eid m "marshal wal_fields (g e)"] by auto
  then show ?thesis using v e t commit_ok by (simp add: wal_update_def m modify_entry_def)
qed

lemma delete_ok: "db s = OpenDB (Some m) \<Longrightarrow> \<exists>s'. DeleteEntry B s eid = (Inr (), s')"
  using del_ok [of m eid] commit_ok by (auto simp: DeleteEntry_def wal_update_def)

end

lemma wal_bucket_ref: "wal_bucket ref_ops"
  by (simp add: wal_bucket_def ref.kv_bucket_axioms)

interpretation ref_wal: wal_bucket_reliable "ref_ops :: ((string, bytes) rbt \<times> nat, bytes) bucket_ops"
  by (simp add: wal_bucket_reliable_def wal_bucket_ref ref.kv_reliable_axioms)

section \<open>Histories\<close>

text \<open>
  A run of the store is a sequence of calls, each with its answer: the error, or the entry that
  \<open>EnqueueEntry\<close> returns. What identifies an entry (\<open>entry_core\<close>) is fixed when it is enqueued.
\<close>

datatype wal_op =
    OpEnqueue int string string raw_message
  | OpInFlight int string
  | OpDone int string
  | OpFailed int string
  | OpDelete string

type_synonym wal_answer = "wal_err + wal_entry option"

type_synonym entry_core = "string \<times> string \<times> string \<times> raw_message \<times> int"

definition entry_core :: "wal_entry \<Rightarrow> entry_core" where
  "entry_core e = (we_ID e, we_PeerID e, we_Op e, we_Payload e, we_CreatedAt e)"

abbreviation no_entry :: "wal_err + unit \<Rightarrow> wal_answer" where
  "no_entry \<equiv> map_sum id (\<lambda>_. None)"

fun wal_step :: "('m, bytes) bucket_ops \<Rightarrow> wal_op \<Rightarrow> 'm bolt_store \<Rightarrow> wal_answer \<times> 'm bolt_store" where
  "wal_step B (OpEnqueue now p q pl) s = apfst (map_sum id Some) (EnqueueEntry B now s p q pl)"
| "wal_step B (OpInFlight now i) s = apfst no_entry (MarkInFlight B now s i)"
| "wal_step B (OpDone now i) s = apfst no_entry (MarkDone B now s i)"
| "wal_step B (OpFailed now i) s = apfst no_entry (MarkFailed B now s i)"
| "wal_step B (OpDelete i) s = apfst no_entry (DeleteEntry B s i)"

fun wal_run :: "('m, bytes) bucket_ops \<Rightarrow> wal_op list \<Rightarrow> 'm bolt_store \<Rightarrow> wal_answer list \<times> 'm bolt_store" where
  "wal_run B [] s = ([], s)"
| "wal_run B (c # cs) s =
     (let (a, s1) = wal_step B c s; (as, s2) = wal_run B cs s1 in (a # as, s2))"

text \<open>
  The specification, on lists of entries and the number of identifiers given out (\<open>abstract_log\<close>). A call that
  succeeds appends the entry of its arguments, or changes or removes the entry it names (\<open>spec_call\<close>); one
  that fails changes nothing. \<open>replay\<close> is the log after a sequence of calls with these answers, none if
  the specification would have answered a successful call otherwise.
\<close>

type_synonym abstract_log = "nat \<times> wal_entry list"

definition change_entry :: "string \<Rightarrow> (wal_entry \<Rightarrow> wal_entry) \<Rightarrow> abstract_log \<Rightarrow> (wal_entry option \<times> abstract_log) option" where
  "change_entry i g a =
     (if i \<in> set (map we_ID (snd a)) then Some (None, (fst a, map (\<lambda>e. if we_ID e = i then g e else e) (snd a))) else None)"

fun spec_call :: "wal_op \<Rightarrow> abstract_log \<Rightarrow> (wal_entry option \<times> abstract_log) option" where
  "spec_call (OpEnqueue now p q pl) (n, es) =
     (let e = \<lparr>we_ID = pad10 (Suc n), we_PeerID = p, we_Op = q, we_Payload = pl, we_Status = ''pending'', we_Retries = 0,
        we_CreatedAt = now, we_UpdatedAt = now\<rparr>
      in Some (Some e, (Suc n, es @ [e\<lparr>we_Payload := Some (json_print (raw_json pl))\<rparr>])))"
| "spec_call (OpInFlight now i) a = change_entry i (\<lambda>e. e\<lparr>we_Status := ''inflight'', we_UpdatedAt := now\<rparr>) a"
| "spec_call (OpDone now i) a = change_entry i (\<lambda>e. e\<lparr>we_Status := ''done'', we_UpdatedAt := now\<rparr>) a"
| "spec_call (OpFailed now i) a =
     change_entry i (\<lambda>e. e\<lparr>we_Status := ''pending'', we_Retries := wrap64 (we_Retries e + 1), we_UpdatedAt := now\<rparr>) a"
| "spec_call (OpDelete i) (n, es) = Some (None, (n, filter (\<lambda>e. we_ID e \<noteq> i) es))"

fun replay :: "(wal_op \<times> wal_answer) list \<Rightarrow> abstract_log \<Rightarrow> abstract_log option" where
  "replay [] a = Some a"
| "replay ((c, Inl er) # cs) a = replay cs a"
| "replay ((c, Inr r) # cs) a = (case spec_call c a of
     None \<Rightarrow> None
   | Some (r', a') \<Rightarrow> if r = r' then replay cs a' else None)"

fun op_time_ok :: "wal_op \<Rightarrow> bool" where
  "op_time_ok (OpEnqueue now _ _ _) = in_int64 now"
| "op_time_ok (OpInFlight now _) = in_int64 now"
| "op_time_ok (OpDone now _) = in_int64 now"
| "op_time_ok (OpFailed now _) = in_int64 now"
| "op_time_ok (OpDelete _) = True"

lemma core_update:
  "(\<And>e. entry_core (g e) = entry_core e) \<Longrightarrow> map entry_core (update_log eid g es) = map entry_core es"
  by (induction es) (simp_all add: update_log_def)

lemma core_set [simp]: "entry_core (set_status st now e) = entry_core e" "entry_core (set_retry now e) = entry_core e"
  by (simp_all add: entry_core_def set_status_def set_retry_def)

lemma fst_entry_core [simp]: "fst (entry_core e) = we_ID e"
  by (simp add: entry_core_def)

lemma change_update: "i \<in> we_ID ` set es \<Longrightarrow> change_entry i g (n, es) = Some (None, (n, update_log i g es))"
  by (simp add: change_entry_def update_log_def)

context wal_bucket begin

lemma wal_step_error: "wal_step B c s = (Inl er, s') \<Longrightarrow> s' = s"
  using store_op_error [where B = B and s = s and er = er and s' = s']
  by (cases c) (auto simp: apfst_def map_prod_def map_sum_def MarkInFlight_def MarkDone_def split: prod.splits sum.splits)

lemma wal_step_refines:
  assumes inv: "store_inv B s" and t: "op_time_ok c" and small: "store_seq B s < 10 ^ 10 - 1"
    and st: "wal_step B c s = (Inr r, s')"
  shows "store_inv B s' \<and> store_seq B s' \<le> Suc (store_seq B s) \<and>
    spec_call c (store_seq B s, store_log B s) = Some (r, (store_seq B s', store_log B s'))"
proof -
  have ans: "\<exists>u. x = (Inr u, s') \<and> r = None" if "apfst no_entry x = (Inr r, s')" for x :: "(wal_err + unit) \<times> 'm bolt_store"
    using that by (cases x; cases "fst x") auto
  show ?thesis
  proof (cases c)
    case (OpEnqueue now p q pl)
    obtain e where e: "EnqueueEntry B now s p q pl = (Inr e, s')" "r = Some e"
      using st by (cases "EnqueueEntry B now s p q pl"; cases "fst (EnqueueEntry B now s p q pl)") (auto simp: OpEnqueue)
    have "store_inv B s'" "store_log B s' = store_log B s @ [canon_entry e]" "store_seq B s' = Suc (store_seq B s)"
      "e = \<lparr>we_ID = pad10 (Suc (store_seq B s)), we_PeerID = p, we_Op = q, we_Payload = pl,
         we_Status = WALStatusPending, we_Retries = 0, we_CreatedAt = now, we_UpdatedAt = now\<rparr>"
      using enqueue_Inr [OF e(1) inv _ small] t by (simp_all only: OpEnqueue op_time_ok.simps)
    then show ?thesis by (simp add: OpEnqueue e(2) canon_entry_def WALStatusPending_def)
  next
    case (OpInFlight now i)
    then obtain u where "updateStatus B now s i WALStatusInFlight = (Inr u, s')" "r = None"
      using ans st by (auto simp: MarkInFlight_def)
    then show ?thesis using updateStatus_Inr inv t OpInFlight
      by (fastforce simp: change_update set_status_def [abs_def] WALStatusInFlight_def)
  next
    case (OpDone now i)
    then obtain u where "updateStatus B now s i WALStatusDone = (Inr u, s')" "r = None"
      using ans st by (auto simp: MarkDone_def)
    then show ?thesis using updateStatus_Inr inv t OpDone
      by (fastforce simp: change_update set_status_def [abs_def] WALStatusDone_def)
  next
    case (OpFailed now i)
    then obtain u where "MarkFailed B now s i = (Inr u, s')" "r = None" using ans st by auto
    then show ?thesis using MarkFailed_Inr inv t OpFailed
      by (fastforce simp: change_update set_retry_def [abs_def] WALStatusPending_def)
  next
    case (OpDelete i)
    then obtain u where "DeleteEntry B s i = (Inr u, s')" "r = None" using ans st by auto
    then show ?thesis using DeleteEntry_Inr inv OpDelete by fastforce
  qed
qed

lemma wal_run_refines:
  "store_inv B s \<Longrightarrow> list_all op_time_ok cs \<Longrightarrow> store_seq B s + length cs < 10 ^ 10 \<Longrightarrow>
   wal_run B cs s = (as, s') \<Longrightarrow>
   store_inv B s' \<and> replay (zip cs as) (store_seq B s, store_log B s) = Some (store_seq B s', store_log B s')
    \<and> store_seq B s' \<le> store_seq B s + length cs"
proof (induction cs arbitrary: s as)
  case (Cons c cs)
  obtain a s1 as' where w: "wal_step B c s = (a, s1)" "wal_run B cs s1 = (as', s')" "as = a # as'"
    using Cons.prems(4) by (auto split: prod.splits)
  show ?case
  proof (cases a)
    case (Inl er)
    then have "s1 = s" using wal_step_error w(1) by simp
    then show ?thesis using Cons.IH [of s as'] Cons.prems w Inl by simp
  next
    case (Inr r)
    have "store_inv B s1 \<and> store_seq B s1 \<le> Suc (store_seq B s) \<and>
      spec_call c (store_seq B s, store_log B s) = Some (r, (store_seq B s1, store_log B s1))"
      using Cons.prems w(1) Inr by (intro wal_step_refines) auto
    then show ?thesis using Cons.IH [of s1 as'] Cons.prems w Inr by simp
  qed
qed simp

end

section \<open>Properties\<close>

text \<open>A store opened on a fresh database, as the witnesses use it.\<close>

definition fresh_store :: "((string, bytes) rbt \<times> nat) bolt_store" where
  "fresh_store = snd (bolt_Init ref_ops (Some None) (NewBoltStore ''wal.db''))"

lemma fresh_store_simps:
  "db fresh_store = OpenDB (Some (RBT.empty, 0))" "store_inv ref_ops fresh_store"
  "store_seq ref_ops fresh_store = 0" "store_log ref_ops fresh_store = []"
  by (simp_all add: fresh_store_def bolt_Init_def NewBoltStore_def store_inv_def wal_inv_def
      store_seq_def store_log_def wal_log_def ref.entries_empty [simplified])

text \<open>The same with one operation queued for a peer.\<close>

definition busy_store :: "((string, bytes) rbt \<times> nat) bolt_store" where
  "busy_store = snd (EnqueueEntry ref_ops 1 fresh_store ''bob'' ''send_file'' None)"

definition busy_entry :: wal_entry where
  "busy_entry = \<lparr>we_ID = pad10 1, we_PeerID = ''bob'', we_Op = ''send_file'', we_Payload = Some ''null'',
     we_Status = WALStatusPending, we_Retries = 0, we_CreatedAt = 1, we_UpdatedAt = 1\<rparr>"

lemma busy_store:
  "store_inv ref_ops busy_store" "store_log ref_ops busy_store = [busy_entry]"
  "store_seq ref_ops busy_store = 1"
proof -
  have "is_ok (fst (EnqueueEntry ref_ops 1 fresh_store ''bob'' ''send_file'' None))"
    by (rule ref_wal.enqueue_ok) (simp_all add: fresh_store_simps raw_valid_def)
  then obtain e where "EnqueueEntry ref_ops 1 fresh_store ''bob'' ''send_file'' None = (Inr e, busy_store)"
    unfolding busy_store_def is_ok_iff by (metis prod.collapse)
  from ref_wal.enqueue_Inr [OF this]
  show "store_inv ref_ops busy_store" "store_log ref_ops busy_store = [busy_entry]"
    "store_seq ref_ops busy_store = 1"
    by (simp_all add: fresh_store_simps in_int64_def int64_min_def int64_max_def busy_entry_def
        canon_entry_def raw_json_def)
qed

text \<open>
  \<open>EnqueueEntry\<close> either reports an error and leaves the log as it was, or appends one pending
  entry for the given peer with zero retries at the end of the log, and \<open>GetPendingEntries\<close> of
  that peer then lists it after everything that was pending before.
\<close>

theorem wal_enqueue_appends:
  assumes "wal_bucket B" "store_inv B s" "in_int64 now" "store_seq B s < 10 ^ 10 - 1"
  shows "case EnqueueEntry B now s p q pl of
      (Inl _, s') \<Rightarrow> s' = s
    | (Inr e, s') \<Rightarrow>
        store_inv B s' \<and> store_log B s' = store_log B s @ [canon_entry e] \<and>
        e = \<lparr>we_ID = pad10 (Suc (store_seq B s)), we_PeerID = p, we_Op = q, we_Payload = pl,
             we_Status = WALStatusPending, we_Retries = 0, we_CreatedAt = now, we_UpdatedAt = now\<rparr> \<and>
        fst (GetPendingEntries B s' p) = fst (GetPendingEntries B s p) @ [canon_entry e]"
proof -
  obtain r s' where r: "EnqueueEntry B now s p q pl = (r, s')" by fastforce
  show ?thesis
  proof (cases r)
    case (Inl er)
    then show ?thesis using r store_op_error(1) by simp
  next
    case (Inr e)
    have k: "store_inv B s'" "store_log B s' = store_log B s @ [canon_entry e]"
      "e = \<lparr>we_ID = pad10 (Suc (store_seq B s)), we_PeerID = p, we_Op = q, we_Payload = pl,
             we_Status = WALStatusPending, we_Retries = 0, we_CreatedAt = now, we_UpdatedAt = now\<rparr>"
      using wal_bucket.enqueue_Inr [OF assms(1) r [unfolded Inr] assms(2-4)] by blast+
    have "we_PeerID e = p" "we_Status e = WALStatusPending" by (simp_all only: k(3) wal_entry.simps)
    then show ?thesis using r Inr k wal_bucket.store_read [OF assms(1) k(1)]
        wal_bucket.store_read [OF assms(1,2)] by (simp add: GetPendingEntries_def)
  qed
qed

theorem wal_enqueue_appends_witness:
  "case EnqueueEntry ref_ops 1700000000 fresh_store ''bob'' ''send_file'' None of
      (Inl _, s') \<Rightarrow> s' = fresh_store
    | (Inr e, s') \<Rightarrow>
        store_inv ref_ops s' \<and> store_log ref_ops s' = store_log ref_ops fresh_store @ [canon_entry e] \<and>
        e = \<lparr>we_ID = pad10 (Suc (store_seq ref_ops fresh_store)), we_PeerID = ''bob'',
             we_Op = ''send_file'', we_Payload = None, we_Status = WALStatusPending, we_Retries = 0,
             we_CreatedAt = 1700000000, we_UpdatedAt = 1700000000\<rparr> \<and>
        fst (GetPendingEntries ref_ops s' ''bob'') =
          fst (GetPendingEntries ref_ops fresh_store ''bob'') @ [canon_entry e]"
  by (rule wal_enqueue_appends)
    (simp_all add: wal_bucket_ref fresh_store_simps in_int64_def int64_min_def int64_max_def)

text \<open>
  On a disk that accepts writes, \<open>EnqueueEntry\<close> succeeds exactly when the store is open
  with its bucket and the payload is nil or valid JSON.
\<close>

theorem wal_enqueue_succeeds_iff:
  assumes "wal_bucket_reliable B"
  shows "is_ok (fst (EnqueueEntry B now s p q pl)) \<longleftrightarrow>
    (\<exists>m. db s = OpenDB (Some m)) \<and> raw_valid pl"
proof
  assume "(\<exists>m. db s = OpenDB (Some m)) \<and> raw_valid pl"
  then show "is_ok (fst (EnqueueEntry B now s p q pl))"
    using wal_bucket_reliable.enqueue_ok [OF assms] by blast
next
  assume "is_ok (fst (EnqueueEntry B now s p q pl))"
  then obtain e s' where "EnqueueEntry B now s p q pl = (Inr e, s')"
    by (metis is_ok_iff prod.collapse)
  then obtain m m2 where m: "db s = OpenDB (Some m)" and tx: "enqueue_tx B now p q pl m = Inr (e, m2)"
    by (auto simp: EnqueueEntry_def wal_update_Inr)
  have "raw_valid pl"
    using tx by (auto simp: enqueue_tx_def Let_def marshal_entry_def split: option.split_asm if_split_asm)
  with m show "(\<exists>m. db s = OpenDB (Some m)) \<and> raw_valid pl" by blast
qed

theorem wal_enqueue_succeeds_iff_witness:
  "is_ok (fst (EnqueueEntry ref_ops 1700000000 fresh_store ''bob'' ''send_file'' None)) \<and>
   \<not> is_ok (fst (EnqueueEntry ref_ops 1700000000 fresh_store ''bob'' ''send_file'' (Some ''{'')))"
proof -
  have "\<not> raw_valid (Some ''{'')" by code_simp
  then show ?thesis
    using wal_enqueue_succeeds_iff [OF ref_wal.wal_bucket_reliable_axioms, of 1700000000 fresh_store]
    by (simp add: fresh_store_simps) (simp add: raw_valid_def)
qed

text \<open>
  \<open>GetPendingEntries\<close> returns exactly the pending entries of the peer, in the order of their
  sequence numbers: first enqueued, first listed.
\<close>

theorem wal_pending_fifo:
  assumes "wal_bucket B" "store_inv B s" "store_seq B s < 10 ^ 10"
  shows "fst (GetPendingEntries B s peer) =
      filter (\<lambda>e. we_PeerID e = peer \<and> we_Status e = WALStatusPending) (store_log B s) \<and>
    sorted_wrt (\<lambda>a b. digits_val (we_ID a) < digits_val (we_ID b)) (fst (GetPendingEntries B s peer))"
proof -
  let ?l = "store_log B s"
  have num: "\<exists>n. we_ID e = pad10 n \<and> n < 10 ^ 10" if el: "e \<in> set ?l" for e
  proof -
    obtain m where m: "db s = OpenDB (Some m)" "wal_inv B m"
      using el assms(2) by (auto simp: store_log_def store_inv_def split: bolt_handle.split_asm option.split_asm)
    have "we_ID e \<in> dom (b_get B m)"
      using wal_bucket.in_ids_iff [OF assms(1) m(2)] el m by (auto simp: store_log_def)
    then show ?thesis
      using wal_bucket.inv_key [OF assms(1) m(2)] assms(3) m by (fastforce simp: store_seq_def)
  qed
  have "sorted_wrt (\<lambda>a b. we_ID a < we_ID b) ?l"
    using wal_bucket.store_ids_sorted [OF assms(1,2)] by (simp add: sorted_wrt_map)
  then have "sorted_wrt (\<lambda>a b. digits_val (we_ID a) < digits_val (we_ID b)) ?l"
    by (rule sorted_wrt_mono_rel [rotated]) (metis num pad10_less_iff digits_val_pad10)
  then show ?thesis
    using wal_bucket.store_read [OF assms(1,2)] by (simp add: GetPendingEntries_def sorted_wrt_filter)
qed

theorem wal_pending_fifo_witness:
  "let s = snd (wal_run ref_ops [OpEnqueue 1 ''bob'' ''a'' None, OpEnqueue 2 ''eve'' ''b'' None,
       OpEnqueue 3 ''bob'' ''c'' None] fresh_store)
   in fst (GetPendingEntries ref_ops s ''bob'') =
      filter (\<lambda>e. we_PeerID e = ''bob'' \<and> we_Status e = WALStatusPending) (store_log ref_ops s) \<and>
    sorted_wrt (\<lambda>a b. digits_val (we_ID a) < digits_val (we_ID b)) (fst (GetPendingEntries ref_ops s ''bob''))"
proof -
  let ?ops = "[OpEnqueue 1 ''bob'' ''a'' None, OpEnqueue 2 ''eve'' ''b'' None, OpEnqueue 3 ''bob'' ''c'' None]"
  obtain evs s where s: "wal_run ref_ops ?ops fresh_store = (evs, s)" by fastforce
  have "store_inv ref_ops s \<and> store_seq ref_ops s \<le> 3"
    using ref_wal.wal_run_refines [OF _ _ _ s]
    by (simp add: fresh_store_simps in_int64_def int64_min_def int64_max_def)
  then show ?thesis
    unfolding s Let_def snd_conv by (intro wal_pending_fifo wal_bucket_ref) simp_all
qed

text \<open>
  The status updates refine the change of one entry of the log: on success the entry with the
  given id gets the new status (\<open>MarkFailed\<close> also counts a retry and sets it back to pending), every
  other entry and the order stay; \<open>DeleteEntry\<close> removes exactly that entry; an error changes nothing.
\<close>

theorem wal_updates_refine:
  assumes "wal_bucket B" "store_inv B s" "in_int64 now"
  shows "(case MarkInFlight B now s i of (Inl _, s') \<Rightarrow> s' = s
      | (Inr _, s') \<Rightarrow> store_inv B s' \<and> store_log B s' = update_log i (set_status ''inflight'' now) (store_log B s)) \<and>
    (case MarkDone B now s i of (Inl _, s') \<Rightarrow> s' = s
      | (Inr _, s') \<Rightarrow> store_inv B s' \<and> store_log B s' = update_log i (set_status ''done'' now) (store_log B s)) \<and>
    (case MarkFailed B now s i of (Inl _, s') \<Rightarrow> s' = s
      | (Inr _, s') \<Rightarrow> store_inv B s' \<and> store_log B s' = update_log i (set_retry now) (store_log B s)) \<and>
    (case DeleteEntry B s i of (Inl _, s') \<Rightarrow> s' = s
      | (Inr _, s') \<Rightarrow> store_inv B s' \<and> store_log B s' = filter (\<lambda>e. we_ID e \<noteq> i) (store_log B s))"
proof (intro conjI)
  have upd: "case updateStatus B now s i st of (Inl _, s') \<Rightarrow> s' = s
      | (Inr _, s') \<Rightarrow> store_inv B s' \<and> store_log B s' = update_log i (set_status st now) (store_log B s)" for st
    using wal_bucket.updateStatus_Inr [OF assms(1) _ assms(2,3)]
    by (auto dest: store_op_error split: prod.split sum.split)
  show "case MarkInFlight B now s i of (Inl _, s') \<Rightarrow> s' = s
      | (Inr _, s') \<Rightarrow> store_inv B s' \<and> store_log B s' = update_log i (set_status ''inflight'' now) (store_log B s)"
    using upd [of "''inflight''"] by (simp add: MarkInFlight_def WALStatusInFlight_def)
  show "case MarkDone B now s i of (Inl _, s') \<Rightarrow> s' = s
      | (Inr _, s') \<Rightarrow> store_inv B s' \<and> store_log B s' = update_log i (set_status ''done'' now) (store_log B s)"
    using upd [of "''done''"] by (simp add: MarkDone_def WALStatusDone_def)
  show "case MarkFailed B now s i of (Inl _, s') \<Rightarrow> s' = s
      | (Inr _, s') \<Rightarrow> store_inv B s' \<and> store_log B s' = update_log i (set_retry now) (store_log B s)"
    using wal_bucket.MarkFailed_Inr [OF assms(1) _ assms(2,3)]
    by (auto dest: store_op_error split: prod.split sum.split)
  show "case DeleteEntry B s i of (Inl _, s') \<Rightarrow> s' = s
      | (Inr _, s') \<Rightarrow> store_inv B s' \<and> store_log B s' = filter (\<lambda>e. we_ID e \<noteq> i) (store_log B s)"
    using wal_bucket.DeleteEntry_Inr [OF assms(1) _ assms(2)]
    by (auto dest: store_op_error split: prod.split sum.split)
qed

theorem wal_updates_refine_witness:
  "(case MarkInFlight ref_ops 5 busy_store ''0000000001'' of (Inl _, s') \<Rightarrow> s' = busy_store
      | (Inr _, s') \<Rightarrow> store_inv ref_ops s' \<and> store_log ref_ops s' = update_log ''0000000001'' (set_status ''inflight'' 5) (store_log ref_ops busy_store)) \<and>
    (case MarkDone ref_ops 5 busy_store ''0000000001'' of (Inl _, s') \<Rightarrow> s' = busy_store
      | (Inr _, s') \<Rightarrow> store_inv ref_ops s' \<and> store_log ref_ops s' = update_log ''0000000001'' (set_status ''done'' 5) (store_log ref_ops busy_store)) \<and>
    (case MarkFailed ref_ops 5 busy_store ''0000000001'' of (Inl _, s') \<Rightarrow> s' = busy_store
      | (Inr _, s') \<Rightarrow> store_inv ref_ops s' \<and> store_log ref_ops s' = update_log ''0000000001'' (set_retry 5) (store_log ref_ops busy_store)) \<and>
    (case DeleteEntry ref_ops busy_store ''0000000001'' of (Inl _, s') \<Rightarrow> s' = busy_store
      | (Inr _, s') \<Rightarrow> store_inv ref_ops s' \<and> store_log ref_ops s' = filter (\<lambda>e. we_ID e \<noteq> ''0000000001'') (store_log ref_ops busy_store))"
  by (rule wal_updates_refine) (simp_all add: wal_bucket_ref busy_store in_int64_def int64_min_def int64_max_def)

text \<open>
  C11. The log refines its specification. Whatever sequence of calls is made, the entries in the store are at the end
  exactly those of the replay of the calls with their answers: a successful \<open>EnqueueEntry\<close> appends one pending
  entry with the peer, operation, payload (as compact JSON) and time of the call, no retry counted, under
  the next identifier, and returns it; \<open>MarkInFlight\<close> and \<open>MarkDone\<close> set the status of the entry they name, \<open>MarkFailed\<close> sets
  it pending and counts a retry, \<open>DeleteEntry\<close> removes it, and all others stay; a call that fails
  changes nothing, and the three marks succeed only on an entry that is there. The store stays well formed.
  Conditions: times are \<open>int64\<close>, and at most 10 to the 10 identifiers are given out.
\<close>

theorem wal_run_replays:
  assumes "wal_bucket B" "store_inv B s" "list_all op_time_ok cs" "store_seq B s + length cs < 10 ^ 10"
    and "wal_run B cs s = (answers, s')"
  shows "store_inv B s' \<and> replay (zip cs answers) (store_seq B s, store_log B s) = Some (store_seq B s', store_log B s')"
  using wal_bucket.wal_run_refines [OF assms] by blast

theorem wal_run_replays_witness:
  "\<exists>answers s'. wal_run ref_ops [OpEnqueue 1 ''bob'' ''a'' None, OpInFlight 2 ''0000000001'', OpDone 3 ''0000000007'', OpDelete ''0000000001'']
       fresh_store = (answers, s') \<and>
    store_inv ref_ops s' \<and> replay (zip [OpEnqueue 1 ''bob'' ''a'' None, OpInFlight 2 ''0000000001'', OpDone 3 ''0000000007'', OpDelete ''0000000001'']
      answers) (0, []) = Some (store_seq ref_ops s', store_log ref_ops s')"
proof -
  obtain answers s' where run: "wal_run ref_ops [OpEnqueue 1 ''bob'' ''a'' None, OpInFlight 2 ''0000000001'', OpDone 3 ''0000000007'', OpDelete ''0000000001'']
      fresh_store = (answers, s')" by (metis prod.collapse)
  show ?thesis
    using wal_run_replays [OF wal_bucket_ref _ _ _ run] run
    by (simp add: fresh_store_simps in_int64_def int64_min_def int64_max_def)
qed

end
