(* ===== verification/Crypto.thy ===== *)
theory Crypto
  imports Json "HOL-Library.Monad_Syntax"
begin

text \<open>
  \<open>internal/crypto\<close>: identities and authenticated encryption (\<open>keys.go\<close>), capability tokens
  (\<open>token.go\<close>), spaces and their invites (\<open>space.go\<close>).

  The primitives themselves (Ed25519, AES-GCM, HKDF) are the parameter \<open>C\<close>, a record of functions.
  What the code relies on is stated by \<open>ed_laws\<close> (a signature made with a key pair verifies under
  its public key), \<open>aes_laws\<close> (opening what was sealed with the same key and nonce gives the
  plaintext) and \<open>hkdf_laws\<close> (the requested number of bytes is returned). The length checks, the
  framing, the order of the checks and every error are the code's. Randomness is the argument
  \<open>rnd\<close>, the bytes \<open>rand.Reader\<close> yields or \<open>None\<close> when it fails. A key of the wrong length makes
  Go's \<open>ed25519.Sign\<close> and \<open>Verify\<close> panic, which is the result \<open>CryptoPanic\<close>.
\<close>

record crypto_ops =
  ed_public :: "bytes \<Rightarrow> bytes"
  ed_sign :: "bytes \<Rightarrow> bytes \<Rightarrow> bytes"
  ed_verify :: "bytes \<Rightarrow> bytes \<Rightarrow> bytes \<Rightarrow> bool"
  aes_seal :: "bytes \<Rightarrow> bytes \<Rightarrow> bytes \<Rightarrow> bytes"
  aes_open :: "bytes \<Rightarrow> bytes \<Rightarrow> bytes \<Rightarrow> bytes option"
  hkdf :: "bytes \<Rightarrow> bytes \<Rightarrow> bytes \<Rightarrow> nat \<Rightarrow> bytes option"

definition ed_laws :: "crypto_ops \<Rightarrow> bool" where
  "ed_laws C \<longleftrightarrow> (\<forall>seed. length seed = 32 \<longrightarrow> length (ed_public C seed) = 32 \<and>
     (\<forall>msg. ed_verify C (ed_public C seed) msg (ed_sign C (seed @ ed_public C seed) msg)))"

definition aes_laws :: "crypto_ops \<Rightarrow> bool" where
  "aes_laws C \<longleftrightarrow> (\<forall>key nonce data. length key \<in> {16, 24, 32} \<longrightarrow> length nonce = 12 \<longrightarrow>
     aes_open C key nonce (aes_seal C key nonce data) = Some data)"

definition hkdf_laws :: "crypto_ops \<Rightarrow> bool" where
  "hkdf_laws C \<longleftrightarrow> (\<forall>secret salt info n. n \<le> 255 * 32 \<longrightarrow>
     (\<exists>k. hkdf C secret salt info n = Some k \<and> length k = n))"

datatype crypto_err = RandErr | BadPrivLen | FileReadErr | BadKeySize | TooShort | OpenFailed
  | BadHex | BadPubLen | BadSignature | BadJson | Expired | GranteeMismatch | BadSpaceKeyLen
  | DeriveErr | CryptoPanic

section \<open>Identities\<close>

record identity =
  PublicKey :: bytes
  PrivateKey :: bytes

text \<open>\<open>ed25519.GenerateKey\<close> draws a 32-byte seed; the private key is the seed and the public key.\<close>

definition GenerateIdentity :: "crypto_ops \<Rightarrow> (nat \<Rightarrow> bytes option) \<Rightarrow> crypto_err + identity" where
  "GenerateIdentity C rnd = (case rnd 32 of
     None \<Rightarrow> Inl RandErr
   | Some seed \<Rightarrow> Inr \<lparr>PublicKey = ed_public C seed, PrivateKey = seed @ ed_public C seed\<rparr>)"

text \<open>The files are a map from paths to contents; \<open>writable\<close> says which writes succeed.\<close>

definition SaveIdentity ::
  "(string \<Rightarrow> bool) \<Rightarrow> string \<Rightarrow> identity \<Rightarrow> (string \<rightharpoonup> bytes) \<Rightarrow> bool \<times> (string \<rightharpoonup> bytes)" where
  "SaveIdentity writable path i fs = (if writable path then (True, fs(path \<mapsto> PrivateKey i)) else (False, fs))"

definition LoadIdentity :: "(string \<rightharpoonup> bytes) \<Rightarrow> string \<Rightarrow> crypto_err + identity" where
  "LoadIdentity fs path = (case fs path of
     None \<Rightarrow> Inl FileReadErr
   | Some priv \<Rightarrow>
       if length priv \<noteq> 64 then Inl BadPrivLen
       else Inr \<lparr>PublicKey = drop 32 priv, PrivateKey = priv\<rparr>)"

definition Sign :: "crypto_ops \<Rightarrow> identity \<Rightarrow> bytes \<Rightarrow> crypto_err + bytes" where
  "Sign C i data = (if length (PrivateKey i) \<noteq> 64 then Inl CryptoPanic else Inr (ed_sign C (PrivateKey i) data))"

definition checked_verify :: "crypto_ops \<Rightarrow> bytes \<Rightarrow> bytes \<Rightarrow> bytes \<Rightarrow> crypto_err + bool" where
  "checked_verify C pub data sig = (if length pub \<noteq> 32 then Inl CryptoPanic else Inr (ed_verify C pub data sig))"

definition Verify :: "crypto_ops \<Rightarrow> identity \<Rightarrow> bytes \<Rightarrow> bytes \<Rightarrow> crypto_err + bool" where
  "Verify C i data sig = checked_verify C (PublicKey i) data sig"

definition Encrypt :: "crypto_ops \<Rightarrow> (nat \<Rightarrow> bytes option) \<Rightarrow> bytes \<Rightarrow> bytes \<Rightarrow> crypto_err + bytes" where
  "Encrypt C rnd data key =
     (if length key \<notin> {16, 24, 32} then Inl BadKeySize
      else case rnd 12 of
        None \<Rightarrow> Inl RandErr
      | Some nonce \<Rightarrow> Inr (nonce @ aes_seal C key nonce data))"

definition Decrypt :: "crypto_ops \<Rightarrow> bytes \<Rightarrow> bytes \<Rightarrow> crypto_err + bytes" where
  "Decrypt C ciphertext key =
     (if length key \<notin> {16, 24, 32} then Inl BadKeySize
      else if length ciphertext < 12 then Inl TooShort
      else of_option OpenFailed (aes_open C key (take 12 ciphertext) (drop 12 ciphertext)))"

definition encodeKey :: "bytes \<Rightarrow> string" where
  "encodeKey key = hex_encode key"

definition decodeKey :: "string \<Rightarrow> crypto_err + bytes" where
  "decodeKey encoded = (case hex_decode encoded of
     None \<Rightarrow> Inl BadHex
   | Some b \<Rightarrow> if length b \<noteq> 32 then Inl BadPubLen else Inr b)"

definition randomHex :: "(nat \<Rightarrow> bytes option) \<Rightarrow> nat \<Rightarrow> crypto_err + string" where
  "randomHex rnd n = (case rnd n of None \<Rightarrow> Inl RandErr | Some b \<Rightarrow> Inr (hex_encode b))"

text \<open>\<open>time.Time\<close> is a number of nanoseconds; \<open>Unix()\<close> rounds down to seconds.\<close>

definition unix :: "int \<Rightarrow> int" where
  "unix t = t div 1000000000"

section \<open>Capability tokens\<close>

definition PermRead :: string where "PermRead = ''read''"
definition PermWrite :: string where "PermWrite = ''write''"
definition PermAdmin :: string where "PermAdmin = ''admin''"

record capability_token =
  ct_PeerPubKey :: string
  ct_SpaceID :: string
  ct_Permission :: string
  ct_IssuedAt :: int
  ct_Expiry :: int

record signed_token =
  st_Payload :: bytes
  st_IssuerPubKey :: string
  st_Signature :: bytes

definition omit_zero :: "string \<Rightarrow> int \<Rightarrow> (string \<times> json) list" where
  "omit_zero k i = (if i = 0 then [] else [(k, jint i)])"

definition token_fields :: "capability_token \<Rightarrow> (string \<times> json) list" where
  "token_fields t =
     [(''peer_pubkey'', JStr (ct_PeerPubKey t)), (''space_id'', JStr (ct_SpaceID t)),
      (''permission'', JStr (ct_Permission t)), (''issued_at'', jint (ct_IssuedAt t))]
     @ omit_zero ''expiry'' (ct_Expiry t)"

definition token_of_fields :: "(string \<times> json) list \<Rightarrow> capability_token option" where
  "token_of_fields kvs = do {
     p \<leftarrow> str_field ''peer_pubkey'' kvs;
     s \<leftarrow> str_field ''space_id'' kvs;
     q \<leftarrow> str_field ''permission'' kvs;
     i \<leftarrow> int_field ''issued_at'' kvs;
     x \<leftarrow> int_field ''expiry'' kvs;
     Some \<lparr>ct_PeerPubKey = p, ct_SpaceID = s, ct_Permission = q, ct_IssuedAt = i, ct_Expiry = x\<rparr>
   }"

definition token_ok :: "capability_token \<Rightarrow> bool" where
  "token_ok t \<longleftrightarrow> in_int64 (ct_IssuedAt t) \<and> in_int64 (ct_Expiry t)"

definition signed_fields :: "signed_token \<Rightarrow> (string \<times> json) list" where
  "signed_fields s =
     [(''payload'', JStr (b64_encode (st_Payload s))), (''issuer_pubkey'', JStr (st_IssuerPubKey s)),
      (''signature'', JStr (b64_encode (st_Signature s)))]"

definition signed_of_fields :: "(string \<times> json) list \<Rightarrow> signed_token option" where
  "signed_of_fields kvs = do {
     p \<leftarrow> bytes_field ''payload'' kvs;
     k \<leftarrow> str_field ''issuer_pubkey'' kvs;
     s \<leftarrow> bytes_field ''signature'' kvs;
     Some \<lparr>st_Payload = p, st_IssuerPubKey = k, st_Signature = s\<rparr>
   }"

interpretation token_json: json_struct token_fields token_of_fields token_ok
  by unfold_locales
    (simp_all add: token_fields_def token_of_fields_def token_ok_def omit_zero_def field_simps_json
      jint_def parse_int64_fmt_int)

interpretation signed_json: json_struct signed_fields signed_of_fields "\<lambda>_. True"
  by unfold_locales
    (simp_all add: signed_fields_def signed_of_fields_def field_simps_json b64_decode_encode)

definition IssueToken ::
  "crypto_ops \<Rightarrow> int \<Rightarrow> identity \<Rightarrow> bytes \<Rightarrow> string \<Rightarrow> string \<Rightarrow> int \<Rightarrow> crypto_err + signed_token" where
  "IssueToken C now issuer grantee spaceID perm ttl =
     (let tok = \<lparr>ct_PeerPubKey = encodeKey grantee, ct_SpaceID = spaceID, ct_Permission = perm,
                 ct_IssuedAt = unix now, ct_Expiry = (if ttl \<noteq> 0 then unix (now + ttl) else 0)\<rparr>;
          payload = marshal token_fields tok
      in rbind (Sign C issuer payload) (\<lambda>sig.
           Inr \<lparr>st_Payload = payload, st_IssuerPubKey = encodeKey (PublicKey issuer), st_Signature = sig\<rparr>))"

text \<open>A nil \<open>expectedGrantee\<close> is \<open>None\<close>; \<open>now\<close> is \<open>time.Now().Unix()\<close>.\<close>

definition VerifyToken ::
  "crypto_ops \<Rightarrow> int \<Rightarrow> signed_token \<Rightarrow> bytes option \<Rightarrow> crypto_err + capability_token" where
  "VerifyToken C now signed expectedGrantee =
     rbind (decodeKey (st_IssuerPubKey signed)) (\<lambda>issuerKey.
     rbind (checked_verify C issuerKey (st_Payload signed) (st_Signature signed)) (\<lambda>valid.
       if \<not> valid then Inl BadSignature
       else case unmarshal token_of_fields (st_Payload signed) of
         None \<Rightarrow> Inl BadJson
       | Some tok \<Rightarrow>
           if ct_Expiry tok \<noteq> 0 \<and> now > ct_Expiry tok then Inl Expired
           else (case expectedGrantee of
               None \<Rightarrow> Inr tok
             | Some g \<Rightarrow> if ct_PeerPubKey tok \<noteq> encodeKey g then Inl GranteeMismatch else Inr tok)))"

definition MarshalToken :: "signed_token \<Rightarrow> bytes" where
  "MarshalToken st = marshal signed_fields st"

definition UnmarshalToken :: "bytes \<Rightarrow> crypto_err + signed_token" where
  "UnmarshalToken data = of_option BadJson (unmarshal signed_of_fields data)"

section \<open>Spaces\<close>

definition SpaceKeySize :: nat where "SpaceKeySize = 32"
definition InviteTokenTTL :: int where "InviteTokenTTL = 7 * 24 * 3600 * 1000000000"

record space =
  sp_ID :: string
  sp_Name :: string
  sp_SymmetricKey :: bytes
  sp_CreatedAt :: int

text \<open>\<open>NewSpace\<close> draws the identifier, then the key: two reads of the random source.\<close>

definition NewSpace ::
  "(nat \<Rightarrow> bytes option) \<Rightarrow> (nat \<Rightarrow> bytes option) \<Rightarrow> int \<Rightarrow> string \<Rightarrow> crypto_err + space" where
  "NewSpace rnd1 rnd2 now name =
     rbind (randomHex rnd1 16) (\<lambda>i. case rnd2 SpaceKeySize of
       None \<Rightarrow> Inl RandErr
     | Some key \<Rightarrow> Inr \<lparr>sp_ID = i, sp_Name = name, sp_SymmetricKey = key, sp_CreatedAt = unix now\<rparr>)"

definition DeriveChunkKey :: "crypto_ops \<Rightarrow> space \<Rightarrow> string \<Rightarrow> crypto_err + bytes" where
  "DeriveChunkKey C s chunkHash =
     of_option DeriveErr
       (hkdf C (sp_SymmetricKey s) ''vault-chunk-v1'' (''vault-chunk-v1:'' @ chunkHash) SpaceKeySize)"

definition EncryptChunk ::
  "crypto_ops \<Rightarrow> (nat \<Rightarrow> bytes option) \<Rightarrow> space \<Rightarrow> string \<Rightarrow> bytes \<Rightarrow> crypto_err + bytes" where
  "EncryptChunk C rnd s chunkHash data = rbind (DeriveChunkKey C s chunkHash) (\<lambda>key. Encrypt C rnd data key)"

definition DecryptChunk :: "crypto_ops \<Rightarrow> space \<Rightarrow> string \<Rightarrow> bytes \<Rightarrow> crypto_err + bytes" where
  "DecryptChunk C s chunkHash ciphertext = rbind (DeriveChunkKey C s chunkHash) (\<lambda>key. Decrypt C ciphertext key)"

record invite_payload =
  inv_SpaceID :: string
  inv_SpaceName :: string
  inv_SymmetricKeyHex :: string
  inv_GrantedPermission :: string
  inv_InviterPubKey :: string
  inv_IssuedAt :: int
  inv_Expiry :: int

record signed_invite =
  si_Payload :: bytes
  si_Signature :: bytes

definition invite_fields :: "invite_payload \<Rightarrow> (string \<times> json) list" where
  "invite_fields v =
     [(''space_id'', JStr (inv_SpaceID v)), (''space_name'', JStr (inv_SpaceName v)),
      (''symmetric_key_hex'', JStr (inv_SymmetricKeyHex v)), (''permission'', JStr (inv_GrantedPermission v)),
      (''inviter_pubkey'', JStr (inv_InviterPubKey v)), (''issued_at'', jint (inv_IssuedAt v))]
     @ omit_zero ''expiry'' (inv_Expiry v)"

definition invite_of_fields :: "(string \<times> json) list \<Rightarrow> invite_payload option" where
  "invite_of_fields kvs = do {
     i \<leftarrow> str_field ''space_id'' kvs;
     n \<leftarrow> str_field ''space_name'' kvs;
     k \<leftarrow> str_field ''symmetric_key_hex'' kvs;
     q \<leftarrow> str_field ''permission'' kvs;
     p \<leftarrow> str_field ''inviter_pubkey'' kvs;
     t \<leftarrow> int_field ''issued_at'' kvs;
     x \<leftarrow> int_field ''expiry'' kvs;
     Some \<lparr>inv_SpaceID = i, inv_SpaceName = n, inv_SymmetricKeyHex = k, inv_GrantedPermission = q,
           inv_InviterPubKey = p, inv_IssuedAt = t, inv_Expiry = x\<rparr>
   }"

definition invite_ok :: "invite_payload \<Rightarrow> bool" where
  "invite_ok v \<longleftrightarrow> in_int64 (inv_IssuedAt v) \<and> in_int64 (inv_Expiry v)"

definition signed_invite_fields :: "signed_invite \<Rightarrow> (string \<times> json) list" where
  "signed_invite_fields s =
     [(''payload'', JStr (b64_encode (si_Payload s))), (''signature'', JStr (b64_encode (si_Signature s)))]"

definition signed_invite_of_fields :: "(string \<times> json) list \<Rightarrow> signed_invite option" where
  "signed_invite_of_fields kvs = do {
     p \<leftarrow> bytes_field ''payload'' kvs;
     s \<leftarrow> bytes_field ''signature'' kvs;
     Some \<lparr>si_Payload = p, si_Signature = s\<rparr>
   }"

interpretation invite_json: json_struct invite_fields invite_of_fields invite_ok
  by unfold_locales
    (simp_all add: invite_fields_def invite_of_fields_def invite_ok_def omit_zero_def field_simps_json
      jint_def parse_int64_fmt_int)

interpretation signed_invite_json: json_struct signed_invite_fields signed_invite_of_fields "\<lambda>_. True"
  by unfold_locales
    (simp_all add: signed_invite_fields_def signed_invite_of_fields_def field_simps_json b64_decode_encode)

definition CreateInvite ::
  "crypto_ops \<Rightarrow> int \<Rightarrow> identity \<Rightarrow> space \<Rightarrow> string \<Rightarrow> int \<Rightarrow> crypto_err + signed_invite" where
  "CreateInvite C now issuer s perm ttl0 =
     (let ttl = (if ttl0 = 0 then InviteTokenTTL else ttl0);
          payload = \<lparr>inv_SpaceID = sp_ID s, inv_SpaceName = sp_Name s,
                     inv_SymmetricKeyHex = hex_encode (sp_SymmetricKey s), inv_GrantedPermission = perm,
                     inv_InviterPubKey = encodeKey (PublicKey issuer), inv_IssuedAt = unix now,
                     inv_Expiry = unix (now + ttl)\<rparr>;
          payloadBytes = marshal invite_fields payload
      in rbind (Sign C issuer payloadBytes) (\<lambda>sig. Inr \<lparr>si_Payload = payloadBytes, si_Signature = sig\<rparr>))"

text \<open>The clock is read twice: for the expiry (\<open>now1\<close>) and for the creation time (\<open>now2\<close>).\<close>

definition AcceptInvite ::
  "crypto_ops \<Rightarrow> int \<Rightarrow> int \<Rightarrow> signed_invite \<Rightarrow> bytes \<Rightarrow> crypto_err + (space \<times> invite_payload)" where
  "AcceptInvite C now1 now2 signed issuerPubKey =
     rbind (checked_verify C issuerPubKey (si_Payload signed) (si_Signature signed)) (\<lambda>valid.
       if \<not> valid then Inl BadSignature
       else case unmarshal invite_of_fields (si_Payload signed) of
         None \<Rightarrow> Inl BadJson
       | Some iv \<Rightarrow>
           if inv_Expiry iv \<noteq> 0 \<and> now1 > inv_Expiry iv then Inl Expired
           else (case hex_decode (inv_SymmetricKeyHex iv) of
               None \<Rightarrow> Inl BadHex
             | Some key \<Rightarrow>
                 if length key \<noteq> SpaceKeySize then Inl BadSpaceKeyLen
                 else Inr (\<lparr>sp_ID = inv_SpaceID iv, sp_Name = inv_SpaceName iv,
                            sp_SymmetricKey = key, sp_CreatedAt = now2\<rparr>, iv)))"

definition MarshalInvite :: "signed_invite \<Rightarrow> bytes" where
  "MarshalInvite si = marshal signed_invite_fields si"

definition UnmarshalInvite :: "bytes \<Rightarrow> crypto_err + signed_invite" where
  "UnmarshalInvite data = of_option BadJson (unmarshal signed_invite_of_fields data)"

section \<open>Lemmas\<close>

definition identity_ok :: "crypto_ops \<Rightarrow> identity \<Rightarrow> bool" where
  "identity_ok C i \<longleftrightarrow> length (PrivateKey i) = 64 \<and> PublicKey i = drop 32 (PrivateKey i) \<and>
     PublicKey i = ed_public C (take 32 (PrivateKey i))"

lemma identity_private: "identity_ok C i \<Longrightarrow> PrivateKey i = take 32 (PrivateKey i) @ PublicKey i"
  by (metis append_take_drop_id identity_ok_def)

lemma identity_sign:
  assumes "ed_laws C" "identity_ok C i"
  shows "Sign C i msg = Inr (ed_sign C (PrivateKey i) msg)" "length (PublicKey i) = 32"
    "ed_verify C (PublicKey i) msg (ed_sign C (PrivateKey i) msg)"
proof -
  let ?seed = "take 32 (PrivateKey i)"
  have l: "length ?seed = 32" using assms(2) by (simp add: identity_ok_def)
  have pub: "PublicKey i = ed_public C ?seed" using assms(2) unfolding identity_ok_def by blast
  show "Sign C i msg = Inr (ed_sign C (PrivateKey i) msg)" "length (PublicKey i) = 32"
    using assms(2) by (simp_all add: Sign_def identity_ok_def)
  have "ed_verify C (ed_public C ?seed) msg (ed_sign C (?seed @ ed_public C ?seed) msg)"
    using assms(1) l by (simp add: ed_laws_def)
  then show "ed_verify C (PublicKey i) msg (ed_sign C (PrivateKey i) msg)"
    using identity_private [OF assms(2)] pub by metis
qed

lemma decodeKey_encodeKey [simp]: "length k = 32 \<Longrightarrow> decodeKey (encodeKey k) = Inr k"
  by (simp add: decodeKey_def encodeKey_def hex_decode_encode)

lemma encodeKey_inj [simp]: "encodeKey a = encodeKey b \<longleftrightarrow> a = b"
  by (simp add: encodeKey_def hex_encode_inj)

lemma Encrypt_Decrypt:
  assumes "aes_laws C" "rnd 12 = Some nonce" "length nonce = 12" "length key \<in> {16, 24, 32}"
  shows "Encrypt C rnd data key = Inr (nonce @ aes_seal C key nonce data)"
    "Decrypt C (nonce @ aes_seal C key nonce data) key = Inr data"
  using assms by (auto simp: Encrypt_def Decrypt_def aes_laws_def)

lemma hkdfD: "hkdf_laws C \<Longrightarrow> n \<le> 255 * 32 \<Longrightarrow> \<exists>k. hkdf C secret salt info n = Some k \<and> length k = n"
  unfolding hkdf_laws_def by blast

text \<open>What \<open>VerifyToken\<close> answers for a token that \<open>IssueToken\<close> returned.\<close>

lemma VerifyToken_issued:
  assumes "ed_laws C" "identity_ok C i" "in_int64 (unix now)" "in_int64 (unix (now + ttl))" "unix (now + ttl) \<noteq> 0"
    and st: "IssueToken C now i grantee sid perm ttl = Inr st"
  shows "VerifyToken C t st expected =
      (if ttl \<noteq> 0 \<and> unix (now + ttl) < t then Inl Expired
       else if expected \<noteq> None \<and> expected \<noteq> Some grantee then Inl GranteeMismatch
       else Inr \<lparr>ct_PeerPubKey = encodeKey grantee, ct_SpaceID = sid, ct_Permission = perm,
                 ct_IssuedAt = unix now, ct_Expiry = (if ttl \<noteq> 0 then unix (now + ttl) else 0)\<rparr>)"
proof -
  let ?tok = "\<lparr>ct_PeerPubKey = encodeKey grantee, ct_SpaceID = sid, ct_Permission = perm,
    ct_IssuedAt = unix now, ct_Expiry = (if ttl \<noteq> 0 then unix (now + ttl) else 0)\<rparr>"
  let ?pl = "marshal token_fields ?tok"
  note sg = identity_sign [OF assms(1,2)]
  have "token_ok ?tok" using assms(3,4) by (simp add: token_ok_def in_int64_def int64_min_def int64_max_def)
  then have un: "unmarshal token_of_fields ?pl = Some ?tok" by (rule token_json.unmarshal_marshal)
  have "st = \<lparr>st_Payload = ?pl, st_IssuerPubKey = encodeKey (PublicKey i), st_Signature = ed_sign C (PrivateKey i) ?pl\<rparr>"
    using st by (simp add: IssueToken_def sg(1) Let_def)
  then show ?thesis
    using assms(5) by (cases expected) (auto simp: VerifyToken_def sg checked_verify_def un)
qed

lemma VerifyToken_Inr:
  assumes "VerifyToken C now st expected = Inr tok"
  shows "\<exists>key. hex_decode (st_IssuerPubKey st) = Some key \<and> length key = 32 \<and>
      ed_verify C key (st_Payload st) (st_Signature st) \<and>
      unmarshal token_of_fields (st_Payload st) = Some tok \<and>
      (ct_Expiry tok = 0 \<or> now \<le> ct_Expiry tok) \<and>
      (\<forall>g. expected = Some g \<longrightarrow> ct_PeerPubKey tok = encodeKey g)"
  using assms
  by (cases "hex_decode (st_IssuerPubKey st)"; cases "unmarshal token_of_fields (st_Payload st)"; cases expected)
    (auto simp: VerifyToken_def decodeKey_def checked_verify_def rbind_Inr_iff split: if_splits)

section \<open>Primitives for the witnesses\<close>

text \<open>
  Concrete functions that satisfy the three laws: the signature repeats the key and the message,
  the sealed text carries the key and the nonce, the derived key is the input cut to size.
\<close>

definition demo_crypto :: crypto_ops where
  "demo_crypto =
     \<lparr>ed_public = rev,
      ed_sign = (\<lambda>priv msg. drop 32 priv @ msg),
      ed_verify = (\<lambda>pub msg sig. sig = pub @ msg),
      aes_seal = (\<lambda>key nonce data. key @ nonce @ data),
      aes_open = (\<lambda>key nonce c.
        if take (length key + length nonce) c = key @ nonce then Some (drop (length key + length nonce) c) else None),
      hkdf = (\<lambda>secret salt info n.
        if n \<le> 255 * 32 then Some (take n (info @ salt @ secret @ replicate n (CHR 0x00))) else None)\<rparr>"

lemma demo_laws: "ed_laws demo_crypto" "aes_laws demo_crypto" "hkdf_laws demo_crypto"
  by (simp_all add: ed_laws_def aes_laws_def hkdf_laws_def demo_crypto_def) arith

definition demo_identity :: "char \<Rightarrow> identity" where
  "demo_identity c = \<lparr>PublicKey = replicate 32 c, PrivateKey = replicate 64 c\<rparr>"

lemma demo_identity: "identity_ok demo_crypto (demo_identity c)" "PublicKey (demo_identity c) = replicate 32 c"
  by (simp_all add: identity_ok_def demo_identity_def demo_crypto_def min_def)

definition demo_space :: space where
  "demo_space = \<lparr>sp_ID = ''f00d'', sp_Name = ''photos'', sp_SymmetricKey = replicate 32 (CHR ''k''), sp_CreatedAt = 1700000000\<rparr>"

section \<open>Properties\<close>

text \<open>
  C27. A token issued by a key pair survives its JSON transport and is then accepted exactly until
  its expiry and exactly for its grantee: \<open>VerifyToken\<close> returns the capability that was granted,
  \<open>Expired\<close> after the expiry, \<open>GranteeMismatch\<close> for any other expected key.
\<close>

theorem issued_token_verifies:
  assumes "ed_laws C" "identity_ok C i" "in_int64 (unix now)" "in_int64 (unix (now + ttl))" "unix (now + ttl) \<noteq> 0"
  shows "\<exists>st. IssueToken C now i grantee sid perm ttl = Inr st \<and> UnmarshalToken (MarshalToken st) = Inr st \<and>
    (\<forall>t expected. VerifyToken C t st expected =
      (if ttl \<noteq> 0 \<and> unix (now + ttl) < t then Inl Expired
       else if expected \<noteq> None \<and> expected \<noteq> Some grantee then Inl GranteeMismatch
       else Inr \<lparr>ct_PeerPubKey = encodeKey grantee, ct_SpaceID = sid, ct_Permission = perm,
                 ct_IssuedAt = unix now, ct_Expiry = (if ttl \<noteq> 0 then unix (now + ttl) else 0)\<rparr>))"
proof -
  obtain st where st: "IssueToken C now i grantee sid perm ttl = Inr st"
    using identity_sign(1) [OF assms(1,2)] by (simp add: IssueToken_def Let_def)
  moreover have "UnmarshalToken (MarshalToken st) = Inr st"
    by (simp add: UnmarshalToken_def MarshalToken_def signed_json.unmarshal_marshal)
  ultimately show ?thesis using VerifyToken_issued [OF assms st] by blast
qed

theorem issued_token_verifies_witness:
  "\<exists>st. IssueToken demo_crypto 5000000000 (demo_identity (CHR ''a'')) (replicate 32 (CHR ''b'')) ''s1'' PermWrite 60000000000 = Inr st
    \<and> UnmarshalToken (MarshalToken st) = Inr st \<and>
    (\<forall>t expected. VerifyToken demo_crypto t st expected =
      (if (60000000000 :: int) \<noteq> 0 \<and> unix (5000000000 + 60000000000) < t then Inl Expired
       else if expected \<noteq> None \<and> expected \<noteq> Some (replicate 32 (CHR ''b'')) then Inl GranteeMismatch
       else Inr \<lparr>ct_PeerPubKey = encodeKey (replicate 32 (CHR ''b'')), ct_SpaceID = ''s1'', ct_Permission = PermWrite,
                 ct_IssuedAt = unix 5000000000,
                 ct_Expiry = (if (60000000000 :: int) \<noteq> 0 then unix (5000000000 + 60000000000) else 0)\<rparr>))"
  by (rule issued_token_verifies)
    (simp_all add: demo_laws demo_identity unix_def in_int64_def int64_min_def int64_max_def)

text \<open>
  What \<open>VerifyToken\<close> accepts, in full: the issuer key in the token is 32 bytes of hex, the
  signature verifies over exactly the payload bytes under that key, the payload decodes to the
  returned capability, it has not expired, and it names the expected grantee when there is one.
\<close>

theorem verify_token_accepts_iff:
  "VerifyToken C now st expected = Inr tok \<longleftrightarrow>
    (\<exists>key. hex_decode (st_IssuerPubKey st) = Some key \<and> length key = 32 \<and>
      ed_verify C key (st_Payload st) (st_Signature st) \<and>
      unmarshal token_of_fields (st_Payload st) = Some tok \<and>
      (ct_Expiry tok = 0 \<or> now \<le> ct_Expiry tok) \<and>
      (\<forall>g. expected = Some g \<longrightarrow> ct_PeerPubKey tok = encodeKey g))"
proof
  assume "VerifyToken C now st expected = Inr tok"
  then show "\<exists>key. hex_decode (st_IssuerPubKey st) = Some key \<and> length key = 32 \<and>
      ed_verify C key (st_Payload st) (st_Signature st) \<and> unmarshal token_of_fields (st_Payload st) = Some tok \<and>
      (ct_Expiry tok = 0 \<or> now \<le> ct_Expiry tok) \<and> (\<forall>g. expected = Some g \<longrightarrow> ct_PeerPubKey tok = encodeKey g)"
    by (rule VerifyToken_Inr)
qed (cases expected; auto simp: VerifyToken_def decodeKey_def checked_verify_def)

theorem verify_token_accepts_iff_witness:
  "VerifyToken demo_crypto 7 \<lparr>st_Payload = ''null'', st_IssuerPubKey = encodeKey (replicate 32 (CHR ''a'')),
      st_Signature = replicate 32 (CHR ''a'') @ ''null''\<rparr> None =
    Inr \<lparr>ct_PeerPubKey = [], ct_SpaceID = [], ct_Permission = [], ct_IssuedAt = 0, ct_Expiry = 0\<rparr>"
proof -
  have "unmarshal token_of_fields ''null'' =
    Some \<lparr>ct_PeerPubKey = [], ct_SpaceID = [], ct_Permission = [], ct_IssuedAt = 0, ct_Expiry = 0\<rparr>"
    by code_simp
  then show ?thesis
    unfolding verify_token_accepts_iff by (simp add: encodeKey_def hex_decode_encode demo_crypto_def)
qed

text \<open>
  An invite made by a key pair survives its JSON transport and, presented with the inviter's
  public key until its expiry, gives the invitee the space: identifier, name and symmetric key are
  the inviter's, only the creation time is new. After the expiry it gives \<open>Expired\<close>.
\<close>

theorem invite_transfers_space:
  assumes "ed_laws C" "identity_ok C i" "length (sp_SymmetricKey s) = SpaceKeySize"
    and "x = unix (now + (if ttl = 0 then InviteTokenTTL else ttl))" "x \<noteq> 0" "in_int64 (unix now)" "in_int64 x"
  shows "\<exists>si iv. CreateInvite C now i s perm ttl = Inr si \<and> UnmarshalInvite (MarshalInvite si) = Inr si \<and>
    inv_GrantedPermission iv = perm \<and> inv_InviterPubKey iv = encodeKey (PublicKey i) \<and> inv_Expiry iv = x \<and>
    (\<forall>t1 t2. AcceptInvite C t1 t2 si (PublicKey i) =
      (if x < t1 then Inl Expired else Inr (s\<lparr>sp_CreatedAt := t2\<rparr>, iv)))"
proof -
  let ?iv = "\<lparr>inv_SpaceID = sp_ID s, inv_SpaceName = sp_Name s,
    inv_SymmetricKeyHex = hex_encode (sp_SymmetricKey s), inv_GrantedPermission = perm,
    inv_InviterPubKey = encodeKey (PublicKey i), inv_IssuedAt = unix now, inv_Expiry = x\<rparr>"
  let ?pl = "marshal invite_fields ?iv"
  let ?si = "\<lparr>si_Payload = ?pl, si_Signature = ed_sign C (PrivateKey i) ?pl\<rparr>"
  note sg = identity_sign [OF assms(1,2)]
  have "invite_ok ?iv" using assms(6,7) by (simp add: invite_ok_def)
  then have un: "unmarshal invite_of_fields ?pl = Some ?iv" by (rule invite_json.unmarshal_marshal)
  have "CreateInvite C now i s perm ttl = Inr ?si" by (simp add: CreateInvite_def sg(1) Let_def assms(4))
  moreover have "UnmarshalInvite (MarshalInvite ?si) = Inr ?si"
    by (simp add: UnmarshalInvite_def MarshalInvite_def signed_invite_json.unmarshal_marshal)
  moreover have eq: "\<lparr>sp_ID = sp_ID s, sp_Name = sp_Name s, sp_SymmetricKey = sp_SymmetricKey s, sp_CreatedAt = t\<rparr>
    = s\<lparr>sp_CreatedAt := t\<rparr>" for t
    by (cases s) simp
  moreover have "AcceptInvite C t1 t2 ?si (PublicKey i) =
      (if x < t1 then Inl Expired else Inr (s\<lparr>sp_CreatedAt := t2\<rparr>, ?iv))" for t1 t2
    using assms(3,5) by (auto simp: AcceptInvite_def sg checked_verify_def un hex_decode_encode eq)
  ultimately show ?thesis by (intro exI [of _ ?si] exI [of _ ?iv]) simp
qed

theorem invite_transfers_space_witness:
  "\<exists>si iv. CreateInvite demo_crypto 5000000000 (demo_identity (CHR ''a'')) demo_space PermRead 60000000000 = Inr si
    \<and> UnmarshalInvite (MarshalInvite si) = Inr si \<and>
    inv_GrantedPermission iv = PermRead \<and> inv_InviterPubKey iv = encodeKey (PublicKey (demo_identity (CHR ''a''))) \<and>
    inv_Expiry iv = 65 \<and>
    (\<forall>t1 t2. AcceptInvite demo_crypto t1 t2 si (PublicKey (demo_identity (CHR ''a''))) =
      (if 65 < t1 then Inl Expired else Inr (demo_space\<lparr>sp_CreatedAt := t2\<rparr>, iv)))"
  by (rule invite_transfers_space)
    (simp_all add: demo_laws demo_identity unix_def in_int64_def int64_min_def int64_max_def demo_space_def SpaceKeySize_def)

text \<open>
  What \<open>EncryptChunk\<close> writes for a chunk, \<open>DecryptChunk\<close> of the same space and chunk hash
  reads back, and encryption never fails while the random source delivers a nonce.
\<close>

theorem chunk_encryption_roundtrip:
  assumes "aes_laws C" "hkdf_laws C" "rnd 12 = Some nonce" "length nonce = 12"
  shows "\<exists>ct. EncryptChunk C rnd s h data = Inr ct \<and> take 12 ct = nonce \<and> DecryptChunk C s h ct = Inr data"
proof -
  obtain k where k: "hkdf C (sp_SymmetricKey s) ''vault-chunk-v1'' (''vault-chunk-v1:'' @ h) SpaceKeySize = Some k"
    "length k = SpaceKeySize"
    using hkdfD [OF assms(2), of SpaceKeySize "sp_SymmetricKey s" "''vault-chunk-v1''" "''vault-chunk-v1:'' @ h"]
    by (auto simp: SpaceKeySize_def)
  then have "DeriveChunkKey C s h = Inr k" by (simp add: DeriveChunkKey_def)
  moreover have "length k \<in> {16, 24, 32}" using k(2) by (simp add: SpaceKeySize_def)
  ultimately show ?thesis
    using Encrypt_Decrypt [of C rnd nonce k data, OF assms(1,3,4)] assms(4) by (simp add: EncryptChunk_def DecryptChunk_def)
qed

theorem chunk_encryption_roundtrip_witness:
  "\<exists>ct. EncryptChunk demo_crypto (\<lambda>n. Some (replicate n (CHR ''n''))) demo_space ''00ff'' ''secret'' = Inr ct \<and>
    take 12 ct = replicate 12 (CHR ''n'') \<and> DecryptChunk demo_crypto demo_space ''00ff'' ct = Inr ''secret''"
  by (rule chunk_encryption_roundtrip) (simp_all add: demo_laws)

end
