(* ===== verification/Cdc.thy ===== *)
theory Cdc
  imports GoText "HOL-Library.Word"
begin

text \<open>
  \<open>internal/chunk/cdc.go\<close>: the rolling fingerprint (\<open>RabinHasher\<close>) and the content-defined
  chunker (\<open>BufferedChunker\<close>). The fingerprint is a 64-bit word; the chunker is a record of the
  struct's fields. The \<open>io.Reader\<close> is the list of the results that its successive \<open>Read\<close> calls
  give (the bytes and the error), after which it reports \<open>io.EOF\<close> for good. BLAKE3 is a
  third-party function and is an argument.

  The second half proves the chunker equal to a reference splitting of the whole input
  (\<open>cdc_split\<close>), whatever pieces the reader delivers, and gives the fingerprint in closed form.
\<close>

unbundle bit_operations_syntax

section \<open>Constants\<close>

definition WindowSize :: nat where "WindowSize = 64"
definition MinChunkSize :: nat where "MinChunkSize = 512 * 1024"
definition MaxChunkSize :: nat where "MaxChunkSize = 8 * 1024 * 1024"
definition Mask :: "64 word" where "Mask = push_bit 21 1 - 1"
definition Pattern :: "64 word" where "Pattern = 0"
definition Poly :: "64 word" where "Poly = 0x3DA3358B4DC173"

section \<open>The rolling hasher\<close>

record rabin_hasher =
  window :: bytes
  pos :: nat
  hash :: "64 word"
  tables :: "64 word list"

definition table_step :: "64 word \<Rightarrow> 64 word" where
  "table_step t = (if t AND 1 = 1 then drop_bit 1 t XOR Poly else drop_bit 1 t)"

definition table_entry :: "nat \<Rightarrow> 64 word" where
  "table_entry i = (table_step ^^ 8) (word_of_nat i)"

definition rabin_tables :: "64 word list" where
  "rabin_tables = map table_entry [0..<256]"

definition NewRabinHasher :: rabin_hasher where
  "NewRabinHasher = \<lparr>window = replicate WindowSize (CHR 0x00), pos = 0, hash = 0, tables = rabin_tables\<rparr>"

definition Slide :: "rabin_hasher \<Rightarrow> char \<Rightarrow> 64 word \<times> rabin_hasher" where
  "Slide h b =
     (let out = window h ! pos h;
          w = (window h)[pos h := b];
          p = (pos h + 1) mod WindowSize;
          x = hash h XOR tables h ! byte_val out;
          x = drop_bit 1 x XOR tables h ! byte_val b
      in (x, h\<lparr>window := w, pos := p, hash := x\<rparr>))"

definition Reset :: "rabin_hasher \<Rightarrow> rabin_hasher" where
  "Reset h = h\<lparr>hash := 0, pos := 0, window := replicate (length (window h)) (CHR 0x00)\<rparr>"

section \<open>The chunker\<close>

record chunk =
  ck_Hash :: string
  ck_Data :: bytes
  ck_Size :: int
  ck_Offset :: int

definition HashChunk :: "(bytes \<Rightarrow> bytes) \<Rightarrow> bytes \<Rightarrow> string" where
  "HashChunk blake3 data = hex_encode (blake3 data)"

datatype read_err = ReadOK | ReadEOF | ReadFail

type_synonym reader = "(bytes \<times> read_err) list"

definition Read :: "reader \<Rightarrow> bytes \<times> read_err \<times> reader" where
  "Read r = (case r of [] \<Rightarrow> ([], ReadEOF, []) | (bs, e) # r' \<Rightarrow> (bs, e, r'))"

record chunker =
  rd :: reader
  hasher :: rabin_hasher
  pending :: bytes
  offset :: int
  src_done :: bool

definition NewBufferedChunker :: "reader \<Rightarrow> chunker" where
  "NewBufferedChunker r = \<lparr>rd = r, hasher = NewRabinHasher, pending = [], offset = 0, src_done = False\<rparr>"

definition is_boundary :: "nat \<Rightarrow> 64 word \<Rightarrow> bool" where
  "is_boundary chunkLen fp =
     (chunkLen \<ge> MaxChunkSize \<or> (chunkLen \<ge> MinChunkSize \<and> fp AND Mask = Pattern))"

text \<open>
  The inner loop over \<open>c.pending[scanned:]\<close>, at index \<open>i\<close>: \<open>Inl\<close> is the length of the chunk to
  emit, \<open>Inr\<close> says that every pending byte has been scanned.
\<close>

fun scan :: "rabin_hasher \<Rightarrow> nat \<Rightarrow> bytes \<Rightarrow> (nat \<times> rabin_hasher) + rabin_hasher" where
  "scan h i [] = Inr h"
| "scan h i (b # bs) =
     (let (fp, h') = Slide h b; chunkLen = i + 1
      in if is_boundary chunkLen fp then Inl (chunkLen, h') else scan h' (i + 1) bs)"

datatype next_err = NextEOF | NextReadErr

definition emit :: "(bytes \<Rightarrow> bytes) \<Rightarrow> int \<Rightarrow> bytes \<Rightarrow> chunk" where
  "emit blake3 startOffset data =
     \<lparr>ck_Hash = HashChunk blake3 data, ck_Data = data, ck_Size = int (length data), ck_Offset = startOffset\<rparr>"

function next_loop :: "(bytes \<Rightarrow> bytes) \<Rightarrow> int \<Rightarrow> chunker \<Rightarrow> nat \<Rightarrow> (next_err + chunk) \<times> chunker" where
  "next_loop blake3 startOffset c scanned =
     (case scan (hasher c) scanned (drop scanned (pending c)) of
        Inl (chunkLen, h) \<Rightarrow>
          (Inr (emit blake3 startOffset (take chunkLen (pending c))),
           c\<lparr>hasher := h, pending := drop chunkLen (pending c), offset := offset c + int chunkLen\<rparr>)
      | Inr h \<Rightarrow>
          (let c = c\<lparr>hasher := h\<rparr>; scanned = length (pending c) in
           if src_done c then
             if pending c \<noteq> [] then
               (Inr (emit blake3 startOffset (pending c)),
                c\<lparr>pending := [], offset := offset c + int (length (pending c))\<rparr>)
             else (Inl NextEOF, c)
           else
             (case Read (rd c) of (bs, e, r) \<Rightarrow>
               (let c = c\<lparr>pending := pending c @ bs, rd := r\<rparr> in
                if e = ReadEOF then next_loop blake3 startOffset (c\<lparr>src_done := True\<rparr>) scanned
                else if e = ReadFail then (Inl NextReadErr, c)
                else next_loop blake3 startOffset c scanned))))"
  by pat_completeness auto
termination
  by (relation "measure (\<lambda>(bl, start, c, s). if src_done c then 0 else Suc (length (rd c)))")
     (auto simp: Read_def split: list.splits)

declare next_loop.simps [simp del]

definition Next :: "(bytes \<Rightarrow> bytes) \<Rightarrow> chunker \<Rightarrow> (next_err + chunk) \<times> chunker" where
  "Next blake3 c =
     (if src_done c \<and> pending c = [] then (Inl NextEOF, c)
      else next_loop blake3 (offset c) (c\<lparr>hasher := Reset (hasher c)\<rparr>) 0)"

section \<open>The fingerprint in closed form\<close>

definition table_of :: "char \<Rightarrow> 64 word" where
  "table_of b = table_entry (byte_val b)"

text \<open>
  What a byte contributes to the fingerprint when \<open>k\<close> bytes have been fed after it: its table
  entry shifted by \<open>k\<close>; and once it has left the 64-byte window, its entry again, counted from
  the moment it left.
\<close>

definition age_part :: "nat \<Rightarrow> char \<Rightarrow> 64 word" where
  "age_part k b = (if k < 64 then drop_bit k (table_of b) else drop_bit (k - 63) (table_of b))"

fun fp_from :: "nat \<Rightarrow> bytes \<Rightarrow> 64 word" where
  "fp_from k [] = 0"
| "fp_from k (b # r) = age_part k b XOR fp_from (Suc k) r"

definition fingerprint :: "bytes \<Rightarrow> 64 word" where
  "fingerprint bs = fp_from 0 (rev bs)"

definition feed :: "rabin_hasher \<Rightarrow> bytes \<Rightarrow> rabin_hasher" where
  "feed h bs = foldl (\<lambda>h b. snd (Slide h b)) h bs"

definition padded :: "bytes \<Rightarrow> bytes" where
  "padded bs = replicate 64 (CHR 0x00) @ bs"

text \<open>The hasher after \<open>Reset\<close> and the bytes \<open>bs\<close>: the window is a ring that starts at \<open>pos\<close>.\<close>

definition hasher_ok :: "rabin_hasher \<Rightarrow> bytes \<Rightarrow> bool" where
  "hasher_ok h bs \<longleftrightarrow>
     tables h = rabin_tables \<and> length (window h) = 64 \<and> pos h < 64 \<and>
     drop (pos h) (window h) @ take (pos h) (window h) = drop (length bs) (padded bs) \<and>
     hash h = fingerprint bs"

lemma table_step_0: "table_step 0 = 0"
  by (simp add: table_step_def)

lemma table_of_0 [simp]: "table_of (CHR 0x00) = 0"
proof -
  have "(table_step ^^ n) 0 = 0" for n by (induction n) (simp_all add: table_step_0)
  then show ?thesis by (simp add: table_of_def table_entry_def)
qed

lemma nth_rabin_tables [simp]: "rabin_tables ! byte_val b = table_of b"
  by (simp add: rabin_tables_def table_of_def)

lemma Poly_bits: "drop_bit 54 Poly = 0"
  by (simp add: Poly_def)

lemma table_step_bits: "drop_bit 54 t = 0 \<Longrightarrow> drop_bit 54 (table_step t) = 0"
proof -
  assume "drop_bit 54 t = 0"
  then have "drop_bit 54 (drop_bit 1 t) = drop_bit 1 0"
    by (metis drop_bit_drop_bit add.commute)
  then show ?thesis by (simp add: table_step_def drop_bit_xor Poly_bits)
qed

text \<open>The polynomial has 54 bits, so no table entry has more.\<close>

lemma table_of_bits: "drop_bit 54 (table_of b) = 0"
proof -
  have "drop_bit 54 ((table_step ^^ n) (word_of_nat (byte_val b))) = 0" for n
  proof (induction n)
    case 0
    have "unat (word_of_nat (byte_val b) :: 64 word) < 256"
      using le_less_trans [OF mod_less_eq_dividend byte_val_less [of b]]
      by (simp add: unat_of_nat)
    then have "unat (drop_bit 54 (word_of_nat (byte_val b) :: 64 word)) = 0"
      by (simp only: unat_drop_bit_eq) (simp add: drop_bit_eq_div)
    then show ?case by (simp only: unat_eq_zero funpow_0)
  qed (simp add: table_step_bits)
  then show ?thesis by (simp add: table_of_def table_entry_def)
qed

lemma drop_table_of: "54 \<le> k \<Longrightarrow> drop_bit k (table_of b) = 0"
proof -
  assume "54 \<le> k"
  then obtain j where "k = j + 54" using le_Suc_ex by (metis add.commute)
  then have "drop_bit k (table_of b) = drop_bit j (drop_bit 54 (table_of b))"
    by (simp add: drop_bit_drop_bit)
  then show ?thesis by (simp add: table_of_bits)
qed

definition leaving :: "nat \<Rightarrow> bytes \<Rightarrow> 64 word" where
  "leaving k r = (if k \<le> 63 \<and> 63 - k < length r then table_of (r ! (63 - k)) else 0)"

lemma fp_from_Suc: "fp_from (Suc k) r = drop_bit 1 (fp_from k r XOR leaving k r)"
proof (induction r arbitrary: k)
  case Nil
  then show ?case by (simp add: leaving_def)
next
  case (Cons b r)
  show ?case
  proof (cases "k = 63")
    case True
    then show ?thesis
      using Cons [of 64] drop_table_of [of 64 b]
      by (simp add: leaving_def age_part_def drop_bit_xor drop_bit_drop_bit xor.assoc xor.commute)
  next
    case False
    have "leaving (Suc k) r = leaving k (b # r)"
      using False by (auto simp: leaving_def nth_Cons' Suc_diff_le)
    moreover have "age_part (Suc k) b = drop_bit 1 (age_part k b)"
      using False Suc_diff_le [of 63 k] by (auto simp: age_part_def drop_bit_drop_bit)
    ultimately show ?thesis
      using Cons [of "Suc k"] by (simp add: drop_bit_xor xor.assoc)
  qed
qed

lemma ring_step:
  assumes "length w = 64" "p < 64"
  shows "drop ((p + 1) mod 64) (w[p := b]) @ take ((p + 1) mod 64) (w[p := b])
       = tl (drop p w @ take p w) @ [b]"
proof (cases "p = 63")
  case True
  have "drop 63 w = [w ! 63]" using assms Cons_nth_drop_Suc [of 63 w] by simp
  moreover have "w[63 := b] = take 63 w @ b # drop 64 w"
    using assms by (simp add: upd_conv_take_nth_drop)
  ultimately show ?thesis using True assms by simp
next
  case False
  then have p: "p + 1 < 64" using assms by simp
  have "w[p := b] = take p w @ b # drop (Suc p) w" using assms by (simp add: upd_conv_take_nth_drop)
  moreover have "tl (drop p w @ take p w) = drop (Suc p) w @ take p w"
    using assms by (simp add: drop_Suc drop_tl tl_append split: list.split)
  ultimately show ?thesis using p assms by simp
qed

lemma length_padded [simp]: "length (padded bs) = 64 + length bs"
  by (simp add: padded_def)

lemma drop_padded_snoc: "drop (Suc (length bs)) (padded (bs @ [b])) = tl (drop (length bs) (padded bs)) @ [b]"
proof -
  have "padded (bs @ [b]) = padded bs @ [b]" by (simp add: padded_def)
  moreover have "tl (drop (length bs) (padded bs)) = drop (Suc (length bs)) (padded bs)"
    by (simp add: drop_Suc tl_drop)
  ultimately show ?thesis by simp
qed

lemma hasher_ok_Reset:
  assumes "tables h = rabin_tables" "length (window h) = 64"
  shows "hasher_ok (Reset h) []"
  using assms by (simp add: hasher_ok_def Reset_def fingerprint_def padded_def)

lemma hasher_ok_new: "hasher_ok NewRabinHasher []"
  by (simp add: hasher_ok_def NewRabinHasher_def fingerprint_def WindowSize_def padded_def)

text \<open>The byte that leaves the window is the one fed 64 steps ago, or zero.\<close>

lemma leaving_byte:
  assumes "hasher_ok h bs"
  shows "table_of (window h ! pos h) = leaving 0 (rev bs)"
proof -
  have l: "length (window h) = 64" "pos h < 64" using assms by (simp_all add: hasher_ok_def)
  have e: "drop (pos h) (window h) @ take (pos h) (window h) = drop (length bs) (padded bs)"
    using assms by (simp add: hasher_ok_def)
  have "window h ! pos h = (drop (pos h) (window h) @ take (pos h) (window h)) ! 0"
    using l by (simp add: nth_append)
  also have "\<dots> = drop (length bs) (padded bs) ! 0" by (simp only: e)
  also have "\<dots> = padded bs ! length bs" by simp
  also have "\<dots> = (if length bs < 64 then CHR 0x00 else bs ! (length bs - 64))"
    by (simp add: padded_def nth_append)
  finally show ?thesis by (auto simp: leaving_def rev_nth)
qed

lemma hasher_ok_Slide:
  assumes ok: "hasher_ok h bs"
  shows "fst (Slide h b) = fingerprint (bs @ [b])" "hasher_ok (snd (Slide h b)) (bs @ [b])"
proof -
  have fp: "drop_bit 1 (hash h XOR table_of (window h ! pos h)) XOR table_of b = fingerprint (bs @ [b])"
    using ok fp_from_Suc [of 0 "rev bs"]
    by (simp add: leaving_byte [OF ok] fingerprint_def hasher_ok_def age_part_def xor.commute)
  show "fst (Slide h b) = fingerprint (bs @ [b])"
    using ok fp by (simp add: Slide_def Let_def hasher_ok_def)
  show "hasher_ok (snd (Slide h b)) (bs @ [b])"
    using ok fp ring_step [of "window h" "pos h" b]
    by (simp add: Slide_def Let_def hasher_ok_def WindowSize_def drop_padded_snoc)
qed

lemma feed_ok: "hasher_ok h as \<Longrightarrow> hasher_ok (feed h bs) (as @ bs)"
proof (induction bs arbitrary: h as)
  case Nil
  then show ?case by (simp add: feed_def)
next
  case (Cons b bs)
  from Cons.IH [OF hasher_ok_Slide(2) [OF Cons.prems, of b]] show ?case by (simp add: feed_def)
qed

text \<open>How far the fingerprint sees: a byte with 54 to 63 or with 117 and more successors is gone.\<close>

lemma age_part_dead: "117 \<le> k \<or> (54 \<le> k \<and> k < 64) \<Longrightarrow> age_part k b = 0"
  by (auto simp: age_part_def drop_table_of)

lemma fp_from_dead: "117 \<le> k \<Longrightarrow> fp_from k r = 0"
  by (induction r arbitrary: k) (simp_all add: age_part_dead)

lemma fp_from_append: "fp_from k (r @ r') = fp_from k r XOR fp_from (k + length r) r'"
  by (induction r arbitrary: k) (simp_all add: xor.assoc)

lemma fingerprint_suffix:
  assumes "117 \<le> length ys"
  shows "fingerprint (xs @ ys) = fingerprint ys"
  using assms by (simp add: fingerprint_def fp_from_append fp_from_dead)

lemma fp_from_zeros: "fp_from k (replicate n (CHR 0x00)) = 0"
  by (induction n arbitrary: k) (simp_all add: age_part_def)

section \<open>Draining the chunker\<close>

lemma scan_bounds: "scan h i bs = Inl (n, h') \<Longrightarrow> i < n \<and> n \<le> i + length bs"
  by (induction h i bs arbitrary: n h' rule: scan.induct) (fastforce simp: Let_def split: prod.splits if_splits)+

text \<open>The three ways one round of the loop can go, and the induction that follows them.\<close>

lemma next_loop_found:
  "scan (hasher c) s (drop s (pending c)) = Inl (n, h) \<Longrightarrow>
   next_loop bl st c s =
     (Inr (emit bl st (take n (pending c))),
      c\<lparr>hasher := h, pending := drop n (pending c), offset := offset c + int n\<rparr>)"
  by (simp add: next_loop.simps [of bl st c s])

lemma next_loop_done:
  "scan (hasher c) s (drop s (pending c)) = Inr h \<Longrightarrow> src_done c \<Longrightarrow>
   next_loop bl st c s =
     (if pending c \<noteq> [] then
        (Inr (emit bl st (pending c)),
         c\<lparr>hasher := h, pending := [], offset := offset c + int (length (pending c))\<rparr>)
      else (Inl NextEOF, c\<lparr>hasher := h\<rparr>))"
  by (simp add: next_loop.simps [of bl st c s] Let_def)

lemma next_loop_read:
  "scan (hasher c) s (drop s (pending c)) = Inr h \<Longrightarrow> \<not> src_done c \<Longrightarrow> Read (rd c) = (bs, e, r) \<Longrightarrow>
   next_loop bl st c s =
     (case e of
        ReadEOF \<Rightarrow> next_loop bl st (c\<lparr>hasher := h, pending := pending c @ bs, rd := r, src_done := True\<rparr>) (length (pending c))
      | ReadFail \<Rightarrow> (Inl NextReadErr, c\<lparr>hasher := h, pending := pending c @ bs, rd := r\<rparr>)
      | ReadOK \<Rightarrow> next_loop bl st (c\<lparr>hasher := h, pending := pending c @ bs, rd := r\<rparr>) (length (pending c)))"
  by (cases e) (simp_all add: next_loop.simps [of bl st c s] Let_def)

lemma Read_shorter: "Read rs = (bs, e, r) \<Longrightarrow> e \<noteq> ReadEOF \<Longrightarrow> length r < length rs"
  by (auto simp: Read_def split: list.splits)

lemma next_loop_induct [case_names found tail read]:
  assumes found: "\<And>c s n h. scan (hasher c) s (drop s (pending c)) = Inl (n, h) \<Longrightarrow> P c s"
    and tail: "\<And>c s h. scan (hasher c) s (drop s (pending c)) = Inr h \<Longrightarrow> src_done c \<Longrightarrow> P c s"
    and read: "\<And>c s h bs e r. scan (hasher c) s (drop s (pending c)) = Inr h \<Longrightarrow> \<not> src_done c \<Longrightarrow>
        Read (rd c) = (bs, e, r) \<Longrightarrow>
        (e = ReadEOF \<Longrightarrow> P (c\<lparr>hasher := h, pending := pending c @ bs, rd := r, src_done := True\<rparr>) (length (pending c))) \<Longrightarrow>
        (e = ReadOK \<Longrightarrow> P (c\<lparr>hasher := h, pending := pending c @ bs, rd := r\<rparr>) (length (pending c))) \<Longrightarrow> P c s"
  shows "P c s"
proof (induction "if src_done c then 0 else Suc (length (rd c))" arbitrary: c s rule: less_induct)
  case (less c s)
  show ?case
  proof (cases "scan (hasher c) s (drop s (pending c))")
    case (Inl nh)
    then show ?thesis using found by (cases nh) simp
  next
    case (Inr h)
    show ?thesis
    proof (cases "src_done c")
      case True
      with Inr show ?thesis by (rule tail)
    next
      case False
      obtain bs e r where R: "Read (rd c) = (bs, e, r)" by (metis prod_cases3)
      show ?thesis
        by (rule read [OF Inr False R]; rule less) (use False Read_shorter [OF R] in auto)
    qed
  qed
qed

definition all_bytes :: "chunker \<Rightarrow> nat" where
  "all_bytes c = length (pending c) + sum_list (map (length \<circ> fst) (rd c))"

text \<open>Every chunk takes at least one byte from what the chunker still holds or will read.\<close>

lemma next_loop_consumes:
  "next_loop bl st c s = (Inr ch, c') \<Longrightarrow> s \<le> length (pending c) \<Longrightarrow> all_bytes c' < all_bytes c"
proof (induction c s rule: next_loop_induct)
  case (found c s n h)
  have "0 < n" "n \<le> length (pending c)" using scan_bounds [OF found(1)] found(3) by auto
  with found show ?case by (auto simp: next_loop_found all_bytes_def)
next
  case (tail c s h)
  then show ?case by (auto simp: next_loop_done all_bytes_def split: if_splits)
next
  case (read c s h bs e r)
  have "length bs + sum_list (map (length \<circ> fst) r) = sum_list (map (length \<circ> fst) (rd c))"
    using read(3) by (auto simp: Read_def split: list.splits)
  with read show ?case by (cases e) (fastforce simp: next_loop_read all_bytes_def)+
qed

lemma Next_consumes: "Next bl c = (Inr ch, c') \<Longrightarrow> all_bytes c' < all_bytes c"
  using next_loop_consumes [of bl "offset c" "c\<lparr>hasher := Reset (hasher c)\<rparr>" 0 ch c']
  by (auto simp: Next_def all_bytes_def split: if_splits)

text \<open>
  The loop of every caller: \<open>Next\<close> until it reports \<open>io.EOF\<close> or an error; the chunks so far, and
  whether a read error ended the loop.
\<close>

function drain :: "(bytes \<Rightarrow> bytes) \<Rightarrow> chunker \<Rightarrow> chunk list \<times> bool" where
  "drain bl c = (case Next bl c of
       (Inl e, c') \<Rightarrow> ([], e = NextReadErr)
     | (Inr ch, c') \<Rightarrow> (case drain bl c' of (chs, failed) \<Rightarrow> (ch # chs, failed)))"
  by pat_completeness auto
termination
  by (relation "measure (\<lambda>(bl, c). all_bytes c)") (auto dest: Next_consumes [OF sym])

declare drain.simps [simp del]

section \<open>The reference splitting\<close>

definition boundary_at :: "bytes \<Rightarrow> nat \<Rightarrow> bool" where
  "boundary_at bs n = is_boundary n (fingerprint (take n bs))"

definition first_cut :: "bytes \<Rightarrow> nat" where
  "first_cut bs = (case find (boundary_at bs) [1..<Suc (length bs)] of Some n \<Rightarrow> n | None \<Rightarrow> length bs)"

lemma find_upt_bounds: "find P [a..<b] = Some n \<Longrightarrow> a \<le> n \<and> n < b \<and> P n"
  by (auto simp: find_Some_iff)

lemma first_cut_bounds: "bs \<noteq> [] \<Longrightarrow> 0 < first_cut bs \<and> first_cut bs \<le> length bs"
  using find_upt_bounds [of "boundary_at bs" 1 "Suc (length bs)"]
  by (auto simp: first_cut_def simp del: upt_Suc split: option.splits)

function cdc_split :: "bytes \<Rightarrow> bytes list" where
  "cdc_split bs = (if bs = [] then [] else take (first_cut bs) bs # cdc_split (drop (first_cut bs) bs))"
  by pat_completeness auto
termination
  by (relation "measure length") (auto dest: first_cut_bounds)

declare cdc_split.simps [simp del]

lemma cdc_split_Nil [simp]: "cdc_split [] = []"
  by (simp add: cdc_split.simps [of "[]"])

text \<open>What a reader delivers before it ends, and whether it ends without an error.\<close>

fun rest_of :: "reader \<Rightarrow> bytes" where
  "rest_of [] = []"
| "rest_of ((bs, e) # r) = bs @ (if e = ReadOK then rest_of r else [])"

fun healthy :: "reader \<Rightarrow> bool" where
  "healthy [] = True"
| "healthy ((bs, e) # r) = (if e = ReadOK then healthy r else e = ReadEOF)"

definition unread :: "chunker \<Rightarrow> bytes" where
  "unread c = pending c @ (if src_done c then [] else rest_of (rd c))"

definition chunker_ok :: "chunker \<Rightarrow> bool" where
  "chunker_ok c \<longleftrightarrow> tables (hasher c) = rabin_tables \<and> length (window (hasher c)) = 64 \<and>
     (src_done c \<or> healthy (rd c))"

lemma find_append: "find P (xs @ ys) = (case find P xs of None \<Rightarrow> find P ys | Some x \<Rightarrow> Some x)"
  by (induction xs) auto

lemma find_upt_split:
  "a \<le> b \<Longrightarrow> b \<le> c \<Longrightarrow>
   find P [a..<c] = (case find P [a..<b] of None \<Rightarrow> find P [b..<c] | Some x \<Rightarrow> Some x)"
  using find_append [of P "[a..<b]" "[b..<c]"] by (metis le_Suc_ex upt_add_eq_append)

lemma find_boundary_prefix:
  "m \<le> Suc (length p) \<Longrightarrow> find (boundary_at (p @ q)) [a..<m] = find (boundary_at p) [a..<m]"
  by (rule find_cong) (auto simp: boundary_at_def)

lemma scan_spec:
  "hasher_ok h (take i p) \<Longrightarrow> i \<le> length p \<Longrightarrow>
   (case scan h i (drop i p) of
      Inl (n, h') \<Rightarrow> find (boundary_at p) [Suc i..<Suc (length p)] = Some n \<and> hasher_ok h' (take n p)
    | Inr h' \<Rightarrow> find (boundary_at p) [Suc i..<Suc (length p)] = None \<and> hasher_ok h' p)"
proof (induction "length p - i" arbitrary: h i)
  case 0
  then show ?case by simp
next
  case (Suc k)
  then have i: "i < length p" by simp
  have d: "drop i p = p ! i # drop (Suc i) p" using i by (rule Cons_nth_drop_Suc [symmetric])
  have t: "take i p @ [p ! i] = take (Suc i) p" using i by (simp add: take_Suc_conv_app_nth)
  have u: "[Suc i..<Suc (length p)] = Suc i # [Suc (Suc i)..<Suc (length p)]"
    using i by (simp add: upt_conv_Cons del: upt_Suc)
  obtain fp h' where S: "Slide h (p ! i) = (fp, h')" by force
  from hasher_ok_Slide [OF Suc.prems(1), of "p ! i"] S t
  have fp: "fp = fingerprint (take (Suc i) p)" and ok: "hasher_ok h' (take (Suc i) p)" by simp_all
  show ?case
  proof (cases "is_boundary (Suc i) fp")
    case True
    then show ?thesis using d u S fp ok by (simp add: boundary_at_def)
  next
    case False
    have k: "k = length p - Suc i" "Suc i \<le> length p" using Suc.hyps(2) i by simp_all
    have f: "find (boundary_at p) [Suc i..<Suc (length p)] = find (boundary_at p) [Suc (Suc i)..<Suc (length p)]"
      using u fp False by (simp add: boundary_at_def)
    have sc: "scan h i (drop i p) = scan h' (Suc i) (drop (Suc i) p)"
      using d S False by simp
    from Suc.hyps(1) [OF k(1) ok k(2)] show ?thesis by (simp only: f sc)
  qed
qed

lemma first_cut_found:
  "find (boundary_at p) [1..<Suc (length p)] = Some n \<Longrightarrow> first_cut (p @ q) = n"
  using find_upt_split [of 1 "Suc (length p)" "Suc (length (p @ q))" "boundary_at (p @ q)"]
    find_boundary_prefix [of "Suc (length p)" p q 1]
  by (simp add: first_cut_def del: upt_Suc)

lemma scan_from_start:
  assumes "hasher_ok (hasher c) (take s (pending c))" "s \<le> length (pending c)"
    and "find (boundary_at (pending c)) [1..<Suc s] = None"
  shows "scan (hasher c) s (drop s (pending c)) = Inl (n, h) \<Longrightarrow>
           find (boundary_at (pending c)) [1..<Suc (length (pending c))] = Some n \<and> hasher_ok h (take n (pending c))"
    and "scan (hasher c) s (drop s (pending c)) = Inr h \<Longrightarrow>
           find (boundary_at (pending c)) [1..<Suc (length (pending c))] = None \<and> hasher_ok h (pending c)"
  using scan_spec [OF assms(1,2)] find_upt_split [of 1 "Suc s" "Suc (length (pending c))" "boundary_at (pending c)"]
    assms(2,3)
  by (auto simp del: upt_Suc)

lemma hasher_ok_shape: "hasher_ok h bs \<Longrightarrow> tables h = rabin_tables \<and> length (window h) = 64"
  by (simp add: hasher_ok_def)

text \<open>One chunk: the first cut of everything unread, however the reads fall.\<close>

definition next_spec :: "(bytes \<Rightarrow> bytes) \<Rightarrow> int \<Rightarrow> chunker \<Rightarrow> (next_err + chunk) \<times> chunker \<Rightarrow> bool" where
  "next_spec bl st c res \<longleftrightarrow>
     (let u = unread c; n = first_cut u in
      if u = [] then fst res = Inl NextEOF
      else fst res = Inr (emit bl st (take n u)) \<and> chunker_ok (snd res) \<and>
           unread (snd res) = drop n u \<and> offset (snd res) = offset c + int n)"

lemma next_spec_cong:
  "unread c = unread c' \<Longrightarrow> offset c = offset c' \<Longrightarrow> next_spec bl st c res = next_spec bl st c' res"
  by (simp add: next_spec_def)

lemma next_loop_spec:
  "hasher_ok (hasher c) (take s (pending c)) \<Longrightarrow> s \<le> length (pending c) \<Longrightarrow>
   src_done c \<or> healthy (rd c) \<Longrightarrow> find (boundary_at (pending c)) [1..<Suc s] = None \<Longrightarrow>
   next_spec bl st c (next_loop bl st c s)"
proof (induction c s rule: next_loop_induct)
  case (found c s n h)
  from scan_from_start(1) [OF found(2,3,5,1)]
  have n: "find (boundary_at (pending c)) [1..<Suc (length (pending c))] = Some n"
    and ok: "hasher_ok h (take n (pending c))" by auto
  have b: "n \<le> length (pending c)" "0 < n" using find_upt_bounds [OF n] by auto
  have fc: "first_cut (unread c) = n" using first_cut_found [OF n] by (simp add: unread_def)
  have "unread c \<noteq> []" using b by (auto simp: unread_def)
  then show ?case
    using found(4) b hasher_ok_shape [OF ok]
    by (simp add: next_spec_def next_loop_found [OF found(1)] fc chunker_ok_def)
      (simp add: unread_def)
next
  case (tail c s h)
  from scan_from_start(2) [OF tail(3,4,6,1)]
  have "first_cut (pending c) = length (pending c)" "hasher_ok h (pending c)"
    by (simp_all add: first_cut_def del: upt_Suc)
  then show ?case
    using tail(2) hasher_ok_shape [of h]
    by (simp add: next_spec_def next_loop_done [OF tail(1,2)] unread_def chunker_ok_def)
next
  case (read c s h bs e r)
  from scan_from_start(2) [OF read(6,7,9,1)]
  have nb: "find (boundary_at (pending c @ bs)) [1..<Suc (length (pending c))] = None"
    and ok: "hasher_ok h (pending c)"
    using find_boundary_prefix [of "Suc (length (pending c))" "pending c" bs 1] by auto
  have rd: "rest_of (rd c) = bs @ (if e = ReadOK then rest_of r else [])" "e = ReadFail \<Longrightarrow> \<not> healthy (rd c)"
    "e = ReadOK \<Longrightarrow> healthy (rd c) \<Longrightarrow> healthy r"
    using read(3) by (auto simp: Read_def split: list.splits)
  show ?case
  proof (cases e)
    case ReadOK
    let ?c = "c\<lparr>hasher := h, pending := pending c @ bs, rd := r\<rparr>"
    have "next_spec bl st ?c (next_loop bl st ?c (length (pending c)))"
      by (rule read(5) [OF ReadOK]) (use ok nb rd ReadOK read(2,8) in \<open>simp_all del: upt_Suc\<close>)
    moreover have "unread ?c = unread c" using rd(1) ReadOK read(2) by (simp add: unread_def)
    ultimately show ?thesis
      using next_spec_cong [of ?c c] by (simp add: next_loop_read [OF read(1,2,3)] ReadOK)
  next
    case ReadEOF
    let ?c = "c\<lparr>hasher := h, pending := pending c @ bs, rd := r, src_done := True\<rparr>"
    have "next_spec bl st ?c (next_loop bl st ?c (length (pending c)))"
      by (rule read(4) [OF ReadEOF]) (use ok nb in \<open>simp_all del: upt_Suc\<close>)
    moreover have "unread ?c = unread c" using rd(1) ReadEOF read(2) by (simp add: unread_def)
    ultimately show ?thesis
      using next_spec_cong [of ?c c] by (simp add: next_loop_read [OF read(1,2,3)] ReadEOF)
  next
    case ReadFail
    with rd read(2,8) show ?thesis by simp
  qed
qed

lemma Next_spec:
  assumes "chunker_ok c"
  shows "next_spec bl (offset c) c (Next bl c)"
proof (cases "src_done c \<and> pending c = []")
  case True
  then show ?thesis by (simp add: Next_def next_spec_def unread_def)
next
  case False
  have "hasher_ok (Reset (hasher c)) []"
    using assms hasher_ok_Reset by (simp add: chunker_ok_def)
  then have "next_spec bl (offset c) (c\<lparr>hasher := Reset (hasher c)\<rparr>) (next_loop bl (offset c) (c\<lparr>hasher := Reset (hasher c)\<rparr>) 0)"
    using assms by (intro next_loop_spec) (simp_all add: chunker_ok_def)
  moreover have "unread (c\<lparr>hasher := Reset (hasher c)\<rparr>) = unread c" by (simp add: unread_def)
  ultimately show ?thesis using False by (auto simp: Next_def next_spec_def Let_def)
qed


text \<open>The whole run: the chunks are the reference splitting of what the reader delivers.\<close>

fun with_offsets :: "(bytes \<Rightarrow> bytes) \<Rightarrow> int \<Rightarrow> bytes list \<Rightarrow> chunk list" where
  "with_offsets bl st [] = []"
| "with_offsets bl st (d # ds) = emit bl st d # with_offsets bl (st + int (length d)) ds"

lemma drain_spec:
  "chunker_ok c \<Longrightarrow> drain bl c = (with_offsets bl (offset c) (cdc_split (unread c)), False)"
proof (induction "length (unread c)" arbitrary: c rule: less_induct)
  case less
  obtain res c' where N: "Next bl c = (res, c')" by force
  note sp = Next_spec [OF less.prems, of bl, unfolded N next_spec_def Let_def]
  show ?case
  proof (cases "unread c = []")
    case True
    then show ?thesis using sp N by (simp add: drain.simps [of bl c])
  next
    case False
    let ?n = "first_cut (unread c)"
    have n: "0 < ?n" "?n \<le> length (unread c)" using first_cut_bounds [OF False] by auto
    from sp False have c': "res = Inr (emit bl (offset c) (take ?n (unread c)))" "chunker_ok c'"
      "unread c' = drop ?n (unread c)" "offset c' = offset c + int ?n" by auto
    have "drain bl c' = (with_offsets bl (offset c') (cdc_split (unread c')), False)"
      using less.hyps [of c'] c' n False by simp
    then show ?thesis
      using N c' n False
      by (simp add: drain.simps [of bl c] cdc_split.simps [of "unread c"] min_absorb2)
  qed
qed

lemma chunker_ok_new: "healthy r \<Longrightarrow> chunker_ok (NewBufferedChunker r)"
  by (simp add: chunker_ok_def NewBufferedChunker_def NewRabinHasher_def WindowSize_def)

lemma drain_new:
  "healthy r \<Longrightarrow>
   drain bl (NewBufferedChunker r) = (with_offsets bl 0 (cdc_split (rest_of r)), False)"
  using drain_spec [OF chunker_ok_new, of r bl]
  by (simp add: NewBufferedChunker_def unread_def)

section \<open>Facts about the reference splitting\<close>

lemma concat_cdc_split [simp]: "concat (cdc_split bs) = bs"
proof (induction bs rule: cdc_split.induct)
  case (1 bs)
  then show ?case by (simp add: cdc_split.simps [of bs])
qed

lemma first_cut_upper: "first_cut bs \<le> MaxChunkSize"
proof (cases "find (boundary_at bs) [1..<Suc (length bs)]")
  case None
  have "length bs < MaxChunkSize \<or> bs = []"
    using None by (auto simp: find_None_iff boundary_at_def is_boundary_def Suc_le_eq simp del: upt_Suc
      dest!: spec [of _ "length bs"])
  then show ?thesis using None by (auto simp: first_cut_def MaxChunkSize_def simp del: upt_Suc)
next
  case (Some n)
  show ?thesis
  proof (rule ccontr)
    assume "\<not> first_cut bs \<le> MaxChunkSize"
    then have "MaxChunkSize < n" using Some by (simp add: first_cut_def del: upt_Suc)
    moreover obtain i where i: "i < length [1..<Suc (length bs)]" "n = [1..<Suc (length bs)] ! i"
      "\<forall>j<i. \<not> boundary_at bs ([1..<Suc (length bs)] ! j)"
      using Some by (auto simp: find_Some_iff simp del: upt_Suc)
    ultimately have "\<not> boundary_at bs MaxChunkSize"
      by (auto simp: MaxChunkSize_def simp del: upt_Suc dest!: spec [of _ "8 * 1024 * 1024 - 1"])
    then show False by (simp add: boundary_at_def is_boundary_def)
  qed
qed

lemma first_cut_lower: "first_cut bs < length bs \<Longrightarrow> MinChunkSize \<le> first_cut bs"
  by (auto simp: first_cut_def boundary_at_def is_boundary_def MinChunkSize_def MaxChunkSize_def
      split: option.splits dest!: find_upt_bounds simp del: upt_Suc)

section \<open>Chunk lists\<close>

lemma map_with_offsets [simp]:
  "map ck_Data (with_offsets bl st ds) = ds"
  "map ck_Size (with_offsets bl st ds) = map (\<lambda>d. int (length d)) ds"
  "map ck_Hash (with_offsets bl st ds) = map (HashChunk bl) ds"
  by (induction ds arbitrary: st) (simp_all add: emit_def)

lemma offsets_are_prefix_sums:
  "map ck_Offset (with_offsets bl st ds) = map (\<lambda>i. st + int (length (concat (take i ds)))) [0..<length ds]"
proof (induction ds arbitrary: st)
  case (Cons d ds)
  have "[0..<Suc (length ds)] = 0 # map Suc [0..<length ds]"
    by (simp add: upt_conv_Cons map_Suc_upt del: upt_Suc)
  then show ?case by (simp add: Cons emit_def add.assoc del: upt_Suc)
qed simp

lemma cdc_split_bounds:
  "list_all (\<lambda>d. 0 < length d \<and> length d \<le> MaxChunkSize) (cdc_split bs)"
  "list_all (\<lambda>d. MinChunkSize \<le> length d) (butlast (cdc_split bs))"
proof (induction bs rule: cdc_split.induct)
  case (1 bs)
  {
    case 1
    show ?case
      using "1.IH"(1) first_cut_upper [of bs] first_cut_bounds [of bs]
      by (cases "bs = []") (simp_all add: cdc_split.simps [of bs] min_absorb2)
  next
    case 2
    show ?case
    proof (cases "bs = [] \<or> drop (first_cut bs) bs = []")
      case True
      then show ?thesis by (auto simp: cdc_split.simps [of bs])
    next
      case False
      then have "cdc_split (drop (first_cut bs) bs) \<noteq> []"
        by (simp add: cdc_split.simps [of "drop (first_cut bs) bs"])
      with False "1.IH"(2) first_cut_lower [of bs] show ?thesis
        by (simp add: cdc_split.simps [of bs] min_absorb2)
    qed
  }
qed

text \<open>The chunks after any chunk are the splitting of the bytes after it.\<close>

lemma drop_cdc_split: "drop k (cdc_split bs) = cdc_split (concat (drop k (cdc_split bs)))"
proof (induction bs arbitrary: k rule: cdc_split.induct)
  case (1 bs)
  show ?case
  proof (cases "bs = [] \<or> k = 0")
    case True
    then show ?thesis by auto
  next
    case False
    then obtain j where "k = Suc j" by (cases k) auto
    with 1 False show ?thesis by (simp add: cdc_split.simps [of bs])
  qed
qed

text \<open>A reader that fails is reported by \<open>Next\<close>, never taken for the end of the file.\<close>

lemma next_loop_fails:
  "\<not> src_done c \<Longrightarrow> \<not> healthy (rd c) \<Longrightarrow>
   (case next_loop bl st c s of
      (Inl e, c') \<Rightarrow> e = NextReadErr
    | (Inr ch, c') \<Rightarrow> \<not> src_done c' \<and> \<not> healthy (rd c'))"
proof (induction c s rule: next_loop_induct)
  case (found c s n h)
  then show ?case by (simp add: next_loop_found)
next
  case (tail c s h)
  then show ?case by simp
next
  case (read c s h bs e r)
  have "e \<noteq> ReadEOF" "e = ReadOK \<Longrightarrow> \<not> healthy r"
    using read(3,7) by (auto simp: Read_def split: list.splits if_splits)
  with read(5,6) show ?case
    by (cases e) (simp_all add: next_loop_read [OF read(1,2,3)] read(2))
qed

lemma drain_fails: "\<not> src_done c \<Longrightarrow> \<not> healthy (rd c) \<Longrightarrow> snd (drain bl c)"
proof (induction bl c rule: drain.induct)
  case (1 bl c)
  obtain res c' where N: "Next bl c = (res, c')" by force
  have "case (res, c') of (Inl e, c') \<Rightarrow> e = NextReadErr
     | (Inr ch, c') \<Rightarrow> \<not> src_done c' \<and> \<not> healthy (rd c')"
    using next_loop_fails [of "c\<lparr>hasher := Reset (hasher c)\<rparr>" bl "offset c" 0] 1(2,3) N
    by (auto simp: Next_def)
  with 1(1) [OF N [symmetric]] N show ?case
    by (cases res) (auto simp: drain.simps [of bl c] split: prod.split)
qed

text \<open>A file of zeros has the fingerprint 0 everywhere, so every chunk has the minimal size.\<close>

lemma first_cut_zeros:
  assumes "MinChunkSize \<le> n"
  shows "first_cut (replicate n (CHR 0x00)) = MinChunkSize"
proof -
  have fp: "fingerprint (replicate m (CHR 0x00)) = 0" for m
    by (simp add: fingerprint_def fp_from_zeros)
  let ?P = "boundary_at (replicate n (CHR 0x00))"
  have P: "?P m = (MinChunkSize \<le> m)" for m
    by (auto simp: boundary_at_def is_boundary_def fp Pattern_def MinChunkSize_def MaxChunkSize_def)
  have "find ?P [1..<MinChunkSize] = None"
    by (auto simp: find_None_iff P)
  moreover have "[MinChunkSize..<Suc n] = MinChunkSize # [Suc MinChunkSize..<Suc n]"
    using assms by (simp add: upt_conv_Cons del: upt_Suc)
  ultimately show ?thesis
    using find_upt_split [of 1 MinChunkSize "Suc n" ?P] assms P
    by (simp add: first_cut_def MinChunkSize_def del: upt_Suc)
qed

lemma cdc_split_zeros:
  "cdc_split (replicate (k * MinChunkSize) (CHR 0x00)) = replicate k (replicate MinChunkSize (CHR 0x00))"
proof (induction k)
  case (Suc k)
  let ?z = "\<lambda>m. replicate m (CHR 0x00)"
  have "MinChunkSize \<le> Suc k * MinChunkSize" by simp
  then have fc: "first_cut (?z (Suc k * MinChunkSize)) = MinChunkSize" by (rule first_cut_zeros)
  have ne: "?z (Suc k * MinChunkSize) \<noteq> []" by (simp add: MinChunkSize_def)
  have td: "take MinChunkSize (?z (Suc k * MinChunkSize)) = ?z MinChunkSize"
    "drop MinChunkSize (?z (Suc k * MinChunkSize)) = ?z (k * MinChunkSize)"
    by (simp_all add: min_absorb1)
  show ?case
    by (subst cdc_split.simps) (simp only: fc ne td Suc if_False replicate_Suc)
qed simp

section \<open>Properties\<close>

text \<open>
  C7. Refinement of the chunker. For every reader that ends without an error, and however it cuts
  its bytes into reads, calling \<open>Next\<close> until \<open>io.EOF\<close> gives exactly the reference splitting
  of the whole input: each chunk ends at the first position where the maximal size is reached or
  the minimal size is reached and the fingerprint's masked bits are zero, and carries its hash,
  its size and its offset. No read error is reported.
\<close>

theorem chunker_refines_split:
  assumes "healthy r"
  shows "drain blake3 (NewBufferedChunker r) = (with_offsets blake3 0 (cdc_split (rest_of r)), False)"
  using assms by (rule drain_new)

theorem chunker_refines_split_witness:
  "drain (\<lambda>d. d) (NewBufferedChunker [(''ab'', ReadOK), (''c'', ReadEOF)])
     = (with_offsets (\<lambda>d. d) 0 (cdc_split ''abc''), False)"
  using chunker_refines_split [of "[(''ab'', ReadOK), (''c'', ReadEOF)]" "\<lambda>d. d"] by simp

text \<open>
  Reassembly. The chunks of a file, concatenated, are the file; each chunk's size is the length
  of its data, its hash is \<open>HashChunk\<close> of its data, and its offset is the number of bytes in the
  chunks before it.
\<close>

theorem chunks_reassemble:
  assumes "healthy r" and "drain blake3 (NewBufferedChunker r) = (chs, failed)"
  shows "\<not> failed \<and> concat (map ck_Data chs) = rest_of r \<and>
    map ck_Size chs = map (\<lambda>c. int (length (ck_Data c))) chs \<and>
    map ck_Hash chs = map (\<lambda>c. HashChunk blake3 (ck_Data c)) chs \<and>
    map ck_Offset chs = map (\<lambda>i. int (length (concat (take i (map ck_Data chs))))) [0..<length chs]"
proof -
  let ?ds = "cdc_split (rest_of r)"
  have chs: "chs = with_offsets blake3 0 ?ds" "\<not> failed"
    using assms drain_new [of r blake3] by simp_all
  have len: "length chs = length ?ds" by (metis chs(1) length_map map_with_offsets(1))
  have via: "map (\<lambda>c. f (ck_Data c)) chs = map f ?ds" for f :: "bytes \<Rightarrow> 'b"
    using map_map [of f ck_Data chs] chs(1) by (simp add: comp_def)
  have "map ck_Size chs = map (\<lambda>d. int (length d)) ?ds" "map ck_Hash chs = map (HashChunk blake3) ?ds"
    by (simp_all add: chs(1))
  then have "map ck_Size chs = map (\<lambda>c. int (length (ck_Data c))) chs"
    "map ck_Hash chs = map (\<lambda>c. HashChunk blake3 (ck_Data c)) chs"
    by (simp_all only: via [of "\<lambda>d. int (length d)"] via [of "HashChunk blake3"])
  moreover have "map ck_Offset chs = map (\<lambda>i. int (length (concat (take i (map ck_Data chs))))) [0..<length chs]"
    using chs len offsets_are_prefix_sums [of blake3 0 ?ds] by simp
  moreover have "concat (map ck_Data chs) = rest_of r" by (simp add: chs(1))
  ultimately show ?thesis using chs(2) by blast
qed

theorem chunks_reassemble_witness:
  "\<exists>chs failed. drain (\<lambda>d. d) (NewBufferedChunker [(''ab'', ReadOK), (''c'', ReadEOF)]) = (chs, failed) \<and>
     \<not> failed \<and> concat (map ck_Data chs) = ''abc''"
proof -
  obtain chs failed where d: "drain (\<lambda>d. d) (NewBufferedChunker [(''ab'', ReadOK), (''c'', ReadEOF)]) = (chs, failed)"
    by force
  have "healthy [(''ab'', ReadOK), (''c'', ReadEOF)]" by simp
  from chunks_reassemble [OF this d] d show ?thesis
    by (intro exI [of _ chs] exI [of _ failed]) simp
qed

text \<open>
  C30. Chunk sizes. No chunk is empty or longer than \<open>MaxChunkSize\<close>, and every chunk but the last
  one of the file has at least \<open>MinChunkSize\<close> bytes.
\<close>

theorem chunk_sizes_bounded:
  assumes "healthy r"
  shows "list_all (\<lambda>c. 0 < ck_Size c \<and> ck_Size c \<le> int MaxChunkSize) (fst (drain blake3 (NewBufferedChunker r)))
    \<and> list_all (\<lambda>c. int MinChunkSize \<le> ck_Size c) (butlast (fst (drain blake3 (NewBufferedChunker r))))"
proof -
  let ?chs = "fst (drain blake3 (NewBufferedChunker r))"
  have sz: "map ck_Size ?chs = map (\<lambda>d. int (length d)) (cdc_split (rest_of r))"
    using drain_new [OF assms, of blake3] by simp
  have "list_all (\<lambda>n. 0 < n \<and> n \<le> int MaxChunkSize) (map ck_Size ?chs)"
    unfolding sz using cdc_split_bounds(1) [of "rest_of r"] by (simp add: list.pred_map comp_def)
  then have up: "list_all (\<lambda>c. 0 < ck_Size c \<and> ck_Size c \<le> int MaxChunkSize) ?chs"
    by (simp add: list.pred_map comp_def)
  have "list_all (\<lambda>n. int MinChunkSize \<le> n) (butlast (map ck_Size ?chs))"
    unfolding sz using cdc_split_bounds(2) [of "rest_of r"]
    by (simp add: list.pred_map comp_def map_butlast [symmetric])
  then have "list_all (\<lambda>c. int MinChunkSize \<le> ck_Size c) (butlast ?chs)"
    by (simp add: list.pred_map comp_def map_butlast [symmetric])
  with up show ?thesis by blast
qed

theorem chunk_sizes_bounded_witness:
  "list_all (\<lambda>c. 0 < ck_Size c \<and> ck_Size c \<le> int MaxChunkSize)
     (fst (drain (\<lambda>d. d) (NewBufferedChunker [(replicate 1048576 (CHR 0x00), ReadOK)])))"
  using chunk_sizes_bounded [of "[(replicate 1048576 (CHR 0x00), ReadOK)]" "\<lambda>d. d"] by simp

text \<open>
  C31. Resynchronisation. If what two files hold after their first \<open>k\<close> and \<open>k'\<close> chunks is the same,
  then the chunks from there on are the same, hash by hash: the chunker starts afresh at every
  boundary, so an edit can only change chunks up to the next common boundary.
\<close>

theorem chunks_resynchronise:
  assumes "healthy r" and "healthy r'"
    and "chs = fst (drain blake3 (NewBufferedChunker r))"
    and "chs' = fst (drain blake3 (NewBufferedChunker r'))"
    and "concat (map ck_Data (drop k chs)) = concat (map ck_Data (drop k' chs'))"
  shows "map ck_Data (drop k chs) = map ck_Data (drop k' chs') \<and>
         map ck_Hash (drop k chs) = map ck_Hash (drop k' chs')"
proof -
  let ?d = "cdc_split (rest_of r)" and ?d' = "cdc_split (rest_of r')"
  have data: "map ck_Data chs = ?d" "map ck_Data chs' = ?d'"
    using assms drain_new [of r blake3] drain_new [of r' blake3] by simp_all
  have hashes: "map ck_Hash chs = map (HashChunk blake3) ?d" "map ck_Hash chs' = map (HashChunk blake3) ?d'"
    using assms drain_new [of r blake3] drain_new [of r' blake3] by simp_all
  have "concat (drop k ?d) = concat (drop k' ?d')"
    using assms(5) data by (simp add: drop_map [symmetric])
  then have "drop k ?d = drop k' ?d'" by (metis drop_cdc_split)
  then show ?thesis by (metis data hashes drop_map)
qed

theorem chunks_resynchronise_witness:
  "map ck_Hash (drop 0 (fst (drain (\<lambda>d. d) (NewBufferedChunker [(''ab'', ReadOK)]))))
     = map ck_Hash (drop 0 (fst (drain (\<lambda>d. d) (NewBufferedChunker [(''a'', ReadOK), (''b'', ReadEOF)]))))"
  using chunks_resynchronise [of "[(''ab'', ReadOK)]" "[(''a'', ReadOK), (''b'', ReadEOF)]"
      _ "\<lambda>d. d" _ 0 0] chunks_reassemble [of "[(''ab'', ReadOK)]" "\<lambda>d. d"]
    drain_new [of "[(''ab'', ReadOK)]" "\<lambda>d. d"] drain_new [of "[(''a'', ReadOK), (''b'', ReadEOF)]" "\<lambda>d. d"]
  by simp

text \<open>
  Reach of the rolling fingerprint. After \<open>NewRabinHasher\<close> the fingerprint depends on the
  last 117 bytes only: whatever was fed before them makes no difference.
\<close>

theorem fingerprint_reach:
  assumes "117 \<le> length ys"
  shows "hash (feed NewRabinHasher (xs @ ys)) = hash (feed NewRabinHasher (xs' @ ys))"
  using feed_ok [OF hasher_ok_new, of "xs @ ys"] feed_ok [OF hasher_ok_new, of "xs' @ ys"]
    fingerprint_suffix [OF assms]
  by (simp add: hasher_ok_def)

theorem fingerprint_reach_witness:
  "hash (feed NewRabinHasher (''abc'' @ replicate 117 (CHR ''x'')))
     = hash (feed NewRabinHasher (''z'' @ replicate 117 (CHR ''x'')))"
  using fingerprint_reach [of "replicate 117 (CHR ''x'')" "''abc''" "''z''"] by simp

text \<open>
  The fingerprint is not a function of the \<open>WindowSize\<close> bytes in the window: \<open>Slide\<close> cancels
  the byte that leaves unshifted, so it comes back into the fingerprint for another 53 steps.
  There are inputs that agree on the last 116 bytes and have different fingerprints.
\<close>

theorem fingerprint_exceeds_window:
  "\<exists>a b ys. WindowSize < length ys \<and> length ys = 116 \<and>
     hash (feed NewRabinHasher (a # ys)) \<noteq> hash (feed NewRabinHasher (b # ys))"
proof -
  let ?ys = "replicate 116 (CHR 0x00)"
  have fp: "hash (feed NewRabinHasher (a # ?ys)) = age_part 116 a" for a
    using feed_ok [OF hasher_ok_new, of "a # ?ys"]
    by (simp add: hasher_ok_def fingerprint_def fp_from_append fp_from_zeros rev_replicate)
  have "table_of (CHR 0x80) = Poly" by code_simp
  then have "age_part 116 (CHR 0x80) = 1" by (simp add: age_part_def Poly_def)
  moreover have "age_part 116 (CHR 0x00) = 0" by (simp add: age_part_def)
  ultimately have "hash (feed NewRabinHasher (CHR 0x80 # ?ys)) \<noteq> hash (feed NewRabinHasher (CHR 0x00 # ?ys))"
    by (simp only: fp) simp
  moreover have "WindowSize < length ?ys \<and> length ?ys = 116" by (simp add: WindowSize_def)
  ultimately show ?thesis by blast
qed

text \<open>
  Read errors. If the source fails before it reports its end, draining the chunker reports the
  failure: an unreadable file is never taken for a shorter file.
\<close>

theorem read_error_reported:
  assumes "\<not> healthy r"
  shows "snd (drain blake3 (NewBufferedChunker r))"
  by (rule drain_fails) (use assms in \<open>simp_all add: NewBufferedChunker_def\<close>)

theorem read_error_reported_witness:
  "snd (drain (\<lambda>d. d) (NewBufferedChunker [(''ab'', ReadOK), ([], ReadFail)]))"
  using read_error_reported [of "[(''ab'', ReadOK), ([], ReadFail)]" "\<lambda>d. d"] by simp

text \<open>
  A file of zeros of \<open>k\<close> times the minimal size is cut into exactly \<open>k\<close> chunks of the
  minimal size: the fingerprint of zeros is zero, so the first admissible position is a boundary.
\<close>

theorem zeros_cut_at_minimum:
  assumes "healthy r" and "rest_of r = replicate (k * MinChunkSize) (CHR 0x00)"
  shows "map ck_Size (fst (drain blake3 (NewBufferedChunker r))) = replicate k (int MinChunkSize)"
  using drain_new [OF assms(1), of blake3] assms(2) by (simp add: cdc_split_zeros map_replicate_const)

theorem zeros_cut_at_minimum_witness:
  "map ck_Size (fst (drain (\<lambda>d. d) (NewBufferedChunker [(replicate (3 * MinChunkSize) (CHR 0x00), ReadOK)])))
     = replicate 3 (int MinChunkSize)"
  using zeros_cut_at_minimum [of "[(replicate (3 * MinChunkSize) (CHR 0x00), ReadOK)]" 3 "\<lambda>d. d"]
  by simp

end
