(* ===== verification/Engine.thy ===== *)
theory Engine
  imports Sqlite Wal Crypto Cdc
begin

text \<open>
  \<open>internal/store\<close>: the storage engine that joins the metadata tables and the write-ahead log
  (\<open>db.go\<close>, \<open>engine_ext.go\<close>), the content-addressed chunk files (\<open>chunks.go\<close>) and the
  spaces (\<open>spaces.go\<close>). The fields \<open>sqlite\<close> and \<open>bolt\<close> are set by the only constructor, so the
  nil checks on them are never taken. Files are a map from paths to contents; what the operating
  system does with each call of \<open>WriteChunk\<close> is a record of outcomes (\<open>fs_env\<close>), so that every
  error path is a value of it. \<open>filepath.Join\<close> is written for a directory path already clean.

  The last section states the interface that the sync coordinator uses of the engine, the locale
  \<open>wal_engine\<close>, and interprets it on the engine's own operations.
\<close>

record 'm engine =
  en_sqlite :: sqlite_store
  en_bolt :: "'m bolt_store"
  en_chunkDir :: string

definition NewEngineWithChunkDir :: "string \<Rightarrow> string \<Rightarrow> string \<Rightarrow> 'm engine" where
  "NewEngineWithChunkDir dbp walp dir =
     \<lparr>en_sqlite = NewSQLiteStore dbp, en_bolt = NewBoltStore walp, en_chunkDir = dir\<rparr>"

datatype engine_err = EngSql sql_err | EngWal wal_err

definition engine_Init ::
  "('m, bytes) bucket_ops \<Rightarrow> bool \<Rightarrow> bool \<Rightarrow> sqlite_db \<Rightarrow> 'm option option \<Rightarrow> 'm engine \<Rightarrow> engine_err option \<times> 'm engine" where
  "engine_Init B opened schema_ok disk root e =
     (let (r, sq) = sqlite_Init opened schema_ok disk (en_sqlite e); e1 = e\<lparr>en_sqlite := sq\<rparr> in
      case r of
        Some er \<Rightarrow> (Some (EngSql er), e1)
      | None \<Rightarrow> (let (r2, bo) = bolt_Init B root (en_bolt e1) in
                 (map_option EngWal r2, e1\<lparr>en_bolt := bo\<rparr>)))"

text \<open>\<open>Close\<close>: \<open>sq_ok\<close> is whether closing SQLite succeeds; when it fails bbolt stays open.\<close>

definition engine_Close :: "bool \<Rightarrow> 'm engine \<Rightarrow> engine_err option \<times> 'm engine" where
  "engine_Close sq_ok e =
     (if \<not> sq_ok \<and> sq_db (en_sqlite e) \<noteq> SqlNil then (Some (EngSql SqlDriver), e\<lparr>en_sqlite := sqlite_Close (en_sqlite e)\<rparr>)
      else (None, e\<lparr>en_sqlite := sqlite_Close (en_sqlite e), en_bolt := bolt_Close (en_bolt e)\<rparr>))"

section \<open>Chunk files\<close>

type_synonym files = "string \<rightharpoonup> bytes"

definition filepath_join :: "string \<Rightarrow> string \<Rightarrow> string" where
  "filepath_join dir n = dir @ ''/'' @ n"

text \<open>A rename that reports an existing target has met the file of a concurrent writer.\<close>

datatype rename_outcome = RenameOK | RenameExists bytes | RenameFails

record fs_env =
  fe_mkdir :: bool
  fe_stat :: bool
  fe_temp :: "string option"
  fe_write :: bool
  fe_close :: bool
  fe_rename :: rename_outcome
  fe_remove :: bool

record stored_chunk =
  sc_Hash :: string
  sc_Path :: string
  sc_Size :: int

datatype chunk_err = ChunkEmpty | NoChunkDir | MkdirErr | StatErr | TempErr | WriteErr | CloseErr
  | CommitErr | MetaErr sql_err | ChunkNotFound | ChunkLookupErr sql_err | ChunkReadErr

definition os_remove :: "bool \<Rightarrow> string \<Rightarrow> files \<Rightarrow> files" where
  "os_remove works path fs = (if works then fs(path := None) else fs)"

text \<open>
  The file part of \<open>WriteChunk\<close>: reuse an existing file, else write a temporary one and rename it.
  \<open>partial\<close> is what a failed write leaves in the temporary file.
\<close>

definition commit_chunk_file ::
  "fs_env \<Rightarrow> bytes \<Rightarrow> string \<Rightarrow> bytes \<Rightarrow> files \<Rightarrow> chunk_err option \<times> files" where
  "commit_chunk_file env partial path data fs =
     (if \<not> fe_stat env then (Some StatErr, fs)
      else if fs path \<noteq> None then (None, fs)
      else case fe_temp env of
        None \<Rightarrow> (Some TempErr, fs)
      | Some tmp \<Rightarrow>
          if \<not> fe_write env then (Some WriteErr, os_remove (fe_remove env) tmp (fs(tmp \<mapsto> partial)))
          else if \<not> fe_close env then (Some CloseErr, os_remove (fe_remove env) tmp (fs(tmp \<mapsto> data)))
          else (case fe_rename env of
              RenameOK \<Rightarrow> (None, fs(tmp := None, path \<mapsto> data))
            | RenameExists d \<Rightarrow> (None, os_remove (fe_remove env) tmp (fs(tmp \<mapsto> data, path \<mapsto> d)))
            | RenameFails \<Rightarrow> (Some CommitErr, os_remove (fe_remove env) tmp (fs(tmp \<mapsto> data)))))"

definition chunk_path :: "string \<Rightarrow> string \<Rightarrow> string" where
  "chunk_path dir h = filepath_join dir (h @ ''.chunk'')"

definition WriteChunk ::
  "(bytes \<Rightarrow> bytes) \<Rightarrow> fs_env \<Rightarrow> bytes \<Rightarrow> bool \<Rightarrow> 'm engine \<Rightarrow> files \<Rightarrow> bytes
     \<Rightarrow> (chunk_err + stored_chunk) \<times> 'm engine \<times> files" where
  "WriteChunk blake3 env partial drv e fs data =
     (if data = [] then (Inl ChunkEmpty, e, fs)
      else if en_chunkDir e = [] then (Inl NoChunkDir, e, fs)
      else
        let h = HashChunk blake3 data; path = chunk_path (en_chunkDir e) h in
        if \<not> fe_mkdir env then (Inl MkdirErr, e, fs)
        else case commit_chunk_file env partial path data fs of
            (Some er, fs') \<Rightarrow> (Inl er, e, fs')
          | (None, fs') \<Rightarrow>
              (case UpsertChunk drv (en_sqlite e) h path (int (length data)) of
                 (Some er, _) \<Rightarrow> (Inl (MetaErr er), e, fs')
               | (None, sq) \<Rightarrow>
                   (Inr \<lparr>sc_Hash = h, sc_Path = path, sc_Size = int (length data)\<rparr>,
                    e\<lparr>en_sqlite := sq\<rparr>, fs')))"

definition ReadChunk :: "bool \<Rightarrow> 'm engine \<Rightarrow> files \<Rightarrow> string \<Rightarrow> chunk_err + bytes" where
  "ReadChunk drv e fs h = (case GetChunkPath drv (en_sqlite e) h of
     Inl SqlNoRows \<Rightarrow> Inl ChunkNotFound
   | Inl er \<Rightarrow> Inl (ChunkLookupErr er)
   | Inr path \<Rightarrow> of_option ChunkReadErr (fs path))"

definition VerifyChunk :: "(bytes \<Rightarrow> bytes) \<Rightarrow> bool \<Rightarrow> 'm engine \<Rightarrow> files \<Rightarrow> string \<Rightarrow> chunk_err + bool" where
  "VerifyChunk blake3 drv e fs h =
     rbind (ReadChunk drv e fs h) (\<lambda>data. Inr (HashChunk blake3 data = h))"

text \<open>
  The invariant of the chunk store: every row names the file of its own hash, that file exists,
  and every \<open>.chunk\<close> file holds data with the hash in its name.
\<close>

definition sql_chunks :: "'m engine \<Rightarrow> (string \<times> (string \<times> int)) list" where
  "sql_chunks e = (case sq_db (en_sqlite e) of SqlOpen d \<Rightarrow> chunks d | _ \<Rightarrow> [])"

definition chunk_store_ok :: "(bytes \<Rightarrow> bytes) \<Rightarrow> 'm engine \<Rightarrow> files \<Rightarrow> bool" where
  "chunk_store_ok blake3 e fs \<longleftrightarrow>
     (\<forall>h r. map_of (sql_chunks e) h = Some r \<longrightarrow>
        fst r = chunk_path (en_chunkDir e) h \<and> fs (chunk_path (en_chunkDir e) h) \<noteq> None) \<and>
     (\<forall>h d. fs (chunk_path (en_chunkDir e) h) = Some d \<longrightarrow> HashChunk blake3 d = h)"

text \<open>\<open>os.CreateTemp\<close> makes a new file, whose name ends in \<open>.tmp\<close>.\<close>

definition temp_fresh :: "fs_env \<Rightarrow> files \<Rightarrow> bool" where
  "temp_fresh env fs = (case fe_temp env of None \<Rightarrow> True | Some t \<Rightarrow> fs t = None \<and> (\<exists>p. t = p @ ''.tmp''))"

definition fs_env_ok :: "(bytes \<Rightarrow> bytes) \<Rightarrow> fs_env \<Rightarrow> bytes \<Rightarrow> files \<Rightarrow> bool" where
  "fs_env_ok blake3 env data fs \<longleftrightarrow> temp_fresh env fs \<and>
     (case fe_rename env of RenameExists d \<Rightarrow> HashChunk blake3 d = HashChunk blake3 data | _ \<Rightarrow> True)"

lemma chunk_path_inj [simp]: "chunk_path dir a = chunk_path dir b \<longleftrightarrow> a = b"
  by (simp add: chunk_path_def filepath_join_def)

lemma temp_not_chunk [simp]: "chunk_path dir h \<noteq> p @ ''.tmp''" "p @ ''.tmp'' \<noteq> chunk_path dir h"
proof -
  show "p @ ''.tmp'' \<noteq> chunk_path dir h"
  proof
    assume "p @ ''.tmp'' = chunk_path dir h"
    then have "last (p @ ''.tmp'') = last (chunk_path dir h)" by simp
    then show False by (simp add: chunk_path_def filepath_join_def)
  qed
  then show "chunk_path dir h \<noteq> p @ ''.tmp''" by simp
qed

section \<open>Spaces\<close>

definition SaveSpace :: "bool \<Rightarrow> 'm engine \<Rightarrow> space \<Rightarrow> string \<Rightarrow> sql_err option \<times> 'm engine" where
  "SaveSpace drv e sp ownerPubkey =
     (let keyHex = hex_encode (sp_SymmetricKey sp);
          upsert = (\<lambda>d. d\<lparr>spaces := AList.update (sp_ID sp)
            (case map_of (spaces d) (sp_ID sp) of
               None \<Rightarrow> \<lparr>owner_pubkey = ownerPubkey, sym_key_enc = keyHex, replication_factor = 1, name = sp_Name sp\<rparr>
             | Some r \<Rightarrow> r\<lparr>owner_pubkey := ownerPubkey, sym_key_enc := keyHex, name := sp_Name sp\<rparr>)
            (spaces d)\<rparr>);
          (r, sq) = sql_exec drv upsert (en_sqlite e)
      in (r, e\<lparr>en_sqlite := sq\<rparr>))"

datatype space_err = SpaceSql sql_err | SpaceNotFound | SpaceKeyHex | SpaceKeyLen

definition GetSpace :: "bool \<Rightarrow> 'm engine \<Rightarrow> string \<Rightarrow> space_err + (space \<times> string)" where
  "GetSpace drv e spaceID =
     (case sql_query drv (\<lambda>d. of_option SqlNoRows (map_of (spaces d) spaceID)) (en_sqlite e) of
        Inl SqlNoRows \<Rightarrow> Inl SpaceNotFound
      | Inl er \<Rightarrow> Inl (SpaceSql er)
      | Inr row \<Rightarrow>
          (case hex_decode (sym_key_enc row) of
             None \<Rightarrow> Inl SpaceKeyHex
           | Some key \<Rightarrow>
               if length key \<noteq> SpaceKeySize then Inl SpaceKeyLen
               else Inr (\<lparr>sp_ID = spaceID, sp_Name = name row, sp_SymmetricKey = key, sp_CreatedAt = 0\<rparr>,
                         owner_pubkey row)))"

definition ListSpaces :: "bool \<Rightarrow> 'm engine \<Rightarrow> sql_err + string list" where
  "ListSpaces drv e = sql_query drv (\<lambda>d. Inr (sort (map fst (spaces d)))) (en_sqlite e)"

section \<open>Properties of the chunk store\<close>

lemma commit_None:
  assumes "commit_chunk_file env partial path data fs = (None, fs')"
    and "temp_fresh env fs" "path = chunk_path dir h" "HashChunk bl data = h"
    and "\<forall>d. fs path = Some d \<longrightarrow> HashChunk bl d = h"
    and "\<forall>d. fe_rename env = RenameExists d \<longrightarrow> HashChunk bl d = h"
  shows "\<exists>d. fs' path = Some d \<and> HashChunk bl d = h"
  using assms
  by (auto simp: commit_chunk_file_def os_remove_def temp_fresh_def
      split: if_splits option.splits rename_outcome.splits)

lemma commit_other:
  assumes "commit_chunk_file env partial (chunk_path dir h) data fs = (r, fs')" "temp_fresh env fs" "k \<noteq> h"
  shows "fs' (chunk_path dir k) = fs (chunk_path dir k)"
  using assms
  by (auto simp: commit_chunk_file_def os_remove_def temp_fresh_def
      split: if_splits option.splits rename_outcome.splits)

lemma commit_Some:
  assumes "commit_chunk_file env partial (chunk_path dir h) data fs = (Some er, fs')" "temp_fresh env fs"
  shows "fs' (chunk_path dir k) = fs (chunk_path dir k)"
  using assms
  by (auto simp: commit_chunk_file_def os_remove_def temp_fresh_def
      split: if_splits option.splits rename_outcome.splits)

lemma commit_keeps:
  assumes "commit_chunk_file env partial (chunk_path dir h) data fs = (r, fs')" "temp_fresh env fs"
    and "fs (chunk_path dir k) = Some d"
  shows "fs' (chunk_path dir k) = Some d"
proof (cases "k = h")
  case True
  then show ?thesis using assms by (auto simp: commit_chunk_file_def split: if_splits)
next
  case False
  then show ?thesis using commit_other [OF assms(1,2)] assms(3) by simp
qed

lemma commit_content:
  assumes "commit_chunk_file env partial (chunk_path dir (HashChunk bl data)) data fs = (r, fs')"
    and "fs_env_ok bl env data fs" "\<And>k d. fs (chunk_path dir k) = Some d \<Longrightarrow> HashChunk bl d = k"
    and "fs' (chunk_path dir k) = Some d"
  shows "HashChunk bl d = k"
proof (cases "k = HashChunk bl data")
  case True
  then show ?thesis using assms
    by (auto simp: commit_chunk_file_def os_remove_def fs_env_ok_def temp_fresh_def
        split: if_splits option.splits rename_outcome.splits)
next
  case False
  then show ?thesis using assms commit_other [OF assms(1) _ False] by (simp add: fs_env_ok_def)
qed

lemma UpsertChunk_None:
  assumes "UpsertChunk drv s h path sz = (None, s')"
  shows "\<exists>d. sq_db s = SqlOpen d \<and> drv \<and>
    s' = s\<lparr>sq_db := SqlOpen (d\<lparr>chunks := AList.update h (path, sz) (chunks d)\<rparr>)\<rparr>"
  using assms by (auto simp: UpsertChunk_def sql_exec_None)

lemma WriteChunk_cases:
  assumes "WriteChunk bl env partial drv e fs data = (r, e', fs')"
  obtains (early) er where "r = Inl er" "e' = e" "fs' = fs"
  | (failed) er q where "r = Inl er" "e' = e"
      "commit_chunk_file env partial (chunk_path (en_chunkDir e) (HashChunk bl data)) data fs = (q, fs')"
  | (written) sq where
      "commit_chunk_file env partial (chunk_path (en_chunkDir e) (HashChunk bl data)) data fs = (None, fs')"
      "UpsertChunk drv (en_sqlite e) (HashChunk bl data) (chunk_path (en_chunkDir e) (HashChunk bl data))
        (int (length data)) = (None, sq)"
      "e' = e\<lparr>en_sqlite := sq\<rparr>"
      "r = Inr \<lparr>sc_Hash = HashChunk bl data, sc_Path = chunk_path (en_chunkDir e) (HashChunk bl data),
        sc_Size = int (length data)\<rparr>"
proof (cases "data = [] \<or> en_chunkDir e = [] \<or> \<not> fe_mkdir env")
  case True
  then show ?thesis using assms early by (auto simp: WriteChunk_def Let_def split: if_split_asm)
next
  case False
  let ?h = "HashChunk bl data" and ?path = "chunk_path (en_chunkDir e) (HashChunk bl data)"
  obtain q fs1 where c: "commit_chunk_file env partial ?path data fs = (q, fs1)" by fastforce
  obtain u sq where u: "UpsertChunk drv (en_sqlite e) ?h ?path (int (length data)) = (u, sq)" by fastforce
  show ?thesis
  proof (cases q)
    case None
    show ?thesis
    proof (cases u)
      case None
      then show ?thesis using \<open>q = None\<close> assms False c u written by (simp add: WriteChunk_def Let_def)
    next
      case (Some er)
      show ?thesis
        by (rule failed [of "MetaErr er" None])
          (use \<open>q = None\<close> Some assms False c u in \<open>simp_all add: WriteChunk_def Let_def\<close>)
    qed
  next
    case (Some er)
    show ?thesis
      by (rule failed [of er q])
        (use Some assms False c in \<open>simp_all add: WriteChunk_def Let_def\<close>)
  qed
qed

lemma ReadChunk_iff:
  "ReadChunk True e fs h = Inr d \<longleftrightarrow> (\<exists>p. map_of (sql_chunks e) h = Some p \<and> fs (fst p) = Some d)"
  by (auto simp: ReadChunk_def GetChunkPath_def sql_query_def sql_chunks_def of_option_def
      split: sqlite_handle.splits option.splits)

text \<open>
  C9. The chunk store stays consistent through every outcome of \<open>WriteChunk\<close>, failures of the file
  system and of the database included: every recorded hash has its file, every chunk file holds data
  with the hash it is named by, nothing written before is lost, and after a success the chunk reads
  back with the right hash and \<open>VerifyChunk\<close> confirms it.
\<close>

theorem write_chunk_keeps_store:
  assumes "chunk_store_ok bl e fs" "fs_env_ok bl env data fs"
  shows "case WriteChunk bl env partial drv e fs data of (r, e', fs') \<Rightarrow>
    chunk_store_ok bl e' fs' \<and>
    (\<forall>h d. ReadChunk True e fs h = Inr d \<longrightarrow> ReadChunk True e' fs' h = Inr d) \<and>
    (case r of
      Inl _ \<Rightarrow> e' = e
    | Inr sc \<Rightarrow> sc_Hash sc = HashChunk bl data \<and> VerifyChunk bl True e' fs' (sc_Hash sc) = Inr True \<and>
        (fs (sc_Path sc) = None \<and> fe_rename env = RenameOK \<longrightarrow> ReadChunk True e' fs' (sc_Hash sc) = Inr data))"
proof -
  obtain r e' fs' where w: "WriteChunk bl env partial drv e fs data = (r, e', fs')" by (cases "WriteChunk bl env partial drv e fs data")
  let ?dir = "en_chunkDir e" and ?h = "HashChunk bl data"
  have fresh: "temp_fresh env fs" using assms(2) by (simp add: fs_env_ok_def)
  have row: "fst q = chunk_path ?dir h" "fs (chunk_path ?dir h) \<noteq> None" if "map_of (sql_chunks e) h = Some q" for h q
    using assms(1) that unfolding chunk_store_ok_def by blast+
  have cont: "HashChunk bl d = h" if "fs (chunk_path ?dir h) = Some d" for h d
    using assms(1) that unfolding chunk_store_ok_def by blast
  from w show ?thesis
  proof (cases rule: WriteChunk_cases)
    case early
    then show ?thesis using w assms(1) by simp
  next
    case (failed er q)
    note keep = commit_keeps [OF failed(3) fresh]
    have "chunk_store_ok bl e fs'"
      using row keep commit_content [OF failed(3) assms(2) cont] by (fastforce simp: chunk_store_ok_def)
    moreover have "ReadChunk True e fs' h = Inr d" if "ReadChunk True e fs h = Inr d" for h d
      using that row keep by (fastforce simp: ReadChunk_iff)
    ultimately show ?thesis using w failed by simp
  next
    case (written sq)
    note keep = commit_keeps [OF written(1) fresh]
    obtain db where db: "sq_db (en_sqlite e) = SqlOpen db" and
      sq: "sq = (en_sqlite e)\<lparr>sq_db := SqlOpen (db\<lparr>chunks := AList.update ?h (chunk_path ?dir ?h, int (length data)) (chunks db)\<rparr>)\<rparr>"
      using UpsertChunk_None [OF written(2)] by blast
    have rows': "map_of (sql_chunks e') = (map_of (sql_chunks e))(?h \<mapsto> (chunk_path ?dir ?h, int (length data)))"
      by (simp add: sql_chunks_def db sq written(3) update_conv')
    have dir: "en_chunkDir e' = ?dir" by (simp add: written(3))
    obtain d0 where d0: "fs' (chunk_path ?dir ?h) = Some d0" "HashChunk bl d0 = ?h"
      using commit_None [OF written(1) fresh refl refl] cont assms(2)
      by (fastforce simp: fs_env_ok_def split: rename_outcome.splits)
    have ok: "chunk_store_ok bl e' fs'"
      unfolding chunk_store_ok_def rows' dir
      using row keep d0 commit_content [OF written(1) assms(2) cont] by (fastforce split: if_splits)
    have old: "ReadChunk True e' fs' h = Inr d" if "ReadChunk True e fs h = Inr d" for h d
      using that row keep by (fastforce simp: ReadChunk_iff rows')
    have new: "ReadChunk True e' fs' ?h = Inr d0" using d0 by (simp add: ReadChunk_iff rows')
    have "d0 = data" if "fs (chunk_path ?dir ?h) = None" "fe_rename env = RenameOK"
      using written(1) that d0 by (auto simp: commit_chunk_file_def split: if_splits option.splits)
    with ok old new d0 show ?thesis by (simp add: w written(4) VerifyChunk_def)
  qed
qed

text \<open>An engine on a fresh database, and a run of the operating system without faults.\<close>

definition demo_engine :: "((string, bytes) rbt \<times> nat) engine" where
  "demo_engine = \<lparr>en_sqlite = \<lparr>dbPath = ''v.db'',
     sq_db = SqlOpen \<lparr>chunks = [], spaces = [], peers = [], chunk_locations = []\<rparr>\<rparr>,
     en_bolt = fresh_store, en_chunkDir = ''chunks''\<rparr>"

definition smooth_fs :: fs_env where
  "smooth_fs = \<lparr>fe_mkdir = True, fe_stat = True, fe_temp = Some ''chunks/1.tmp'', fe_write = True,
     fe_close = True, fe_rename = RenameOK, fe_remove = True\<rparr>"

definition no_files :: files where
  "no_files = Map.empty"

lemma smooth_fs_ok: "fs_env_ok bl smooth_fs data no_files"
  by (simp add: fs_env_ok_def temp_fresh_def smooth_fs_def no_files_def)

lemma demo_store_ok: "chunk_store_ok bl demo_engine no_files"
  by (simp add: chunk_store_ok_def sql_chunks_def demo_engine_def no_files_def)

theorem write_chunk_keeps_store_witness:
  "case WriteChunk id smooth_fs [] True demo_engine no_files ''hello'' of (r, e', fs') \<Rightarrow>
    chunk_store_ok id e' fs' \<and>
    (\<forall>h d. ReadChunk True demo_engine no_files h = Inr d \<longrightarrow> ReadChunk True e' fs' h = Inr d) \<and>
    (case r of
      Inl _ \<Rightarrow> e' = demo_engine
    | Inr sc \<Rightarrow> sc_Hash sc = HashChunk id ''hello'' \<and> VerifyChunk id True e' fs' (sc_Hash sc) = Inr True \<and>
        (no_files (sc_Path sc) = None \<and> fe_rename smooth_fs = RenameOK \<longrightarrow>
          ReadChunk True e' fs' (sc_Hash sc) = Inr ''hello''))"
  by (rule write_chunk_keeps_store)
    (simp_all add: smooth_fs_ok demo_store_ok)

text \<open>
  On a healthy file system and an open database \<open>WriteChunk\<close> of a non-empty chunk succeeds,
  whether or not the chunk was stored before.
\<close>

theorem write_chunk_succeeds:
  assumes "data \<noteq> []" "en_chunkDir e \<noteq> []" "fe_mkdir env" "fe_stat env" "fe_temp env = Some tmp"
    and "fe_write env" "fe_close env" "fe_rename env = RenameOK" "sq_db (en_sqlite e) = SqlOpen d"
  shows "\<exists>e' fs'. WriteChunk bl env partial True e fs data =
    (Inr \<lparr>sc_Hash = HashChunk bl data, sc_Path = chunk_path (en_chunkDir e) (HashChunk bl data),
          sc_Size = int (length data)\<rparr>, e', fs')"
proof -
  let ?path = "chunk_path (en_chunkDir e) (HashChunk bl data)"
  have "\<exists>fs'. commit_chunk_file env partial ?path data fs = (None, fs')"
    using assms by (simp add: commit_chunk_file_def)
  then show ?thesis using assms by (auto simp: WriteChunk_def Let_def UpsertChunk_def sql_exec_def)
qed

theorem write_chunk_succeeds_witness:
  "\<exists>e' fs'. WriteChunk id smooth_fs [] True demo_engine no_files ''hello'' =
    (Inr \<lparr>sc_Hash = HashChunk id ''hello'', sc_Path = chunk_path (en_chunkDir demo_engine) (HashChunk id ''hello''),
          sc_Size = int (length ''hello'')\<rparr>, e', fs')"
  by (rule write_chunk_succeeds) (simp_all add: smooth_fs_def demo_engine_def)

section \<open>Properties of the spaces\<close>

text \<open>
  C32. After \<open>SaveSpace\<close>, \<open>GetSpace\<close> of the identifier gives back name, key and owner of what was
  saved, with the creation time lost (it is not a column), or \<open>SpaceKeyLen\<close> if the key does not have
  32 bytes; every other space is as before; and \<open>ListSpaces\<close> lists exactly the saved identifiers, sorted.
\<close>

theorem save_space_get_space:
  assumes "sqlite_ok (en_sqlite e)" "SaveSpace drv e sp owner = (None, e')"
  shows "GetSpace True e' (sp_ID sp) =
      (if length (sp_SymmetricKey sp) = SpaceKeySize then Inr (sp\<lparr>sp_CreatedAt := 0\<rparr>, owner) else Inl SpaceKeyLen) \<and>
    (\<forall>i. i \<noteq> sp_ID sp \<longrightarrow> GetSpace True e' i = GetSpace True e i) \<and>
    (\<exists>old new. ListSpaces True e = Inr old \<and> ListSpaces True e' = Inr new \<and>
      set new = insert (sp_ID sp) (set old) \<and> sorted new \<and> distinct new) \<and>
    sqlite_ok (en_sqlite e')"
proof -
  obtain db where db: "sq_db (en_sqlite e) = SqlOpen db"
    using assms(2) by (auto simp: SaveSpace_def Let_def sql_exec_None split: prod.splits)
  define row where "row = (case map_of (spaces db) (sp_ID sp) of
      None \<Rightarrow> \<lparr>owner_pubkey = owner, sym_key_enc = hex_encode (sp_SymmetricKey sp), replication_factor = 1, name = sp_Name sp\<rparr>
    | Some r \<Rightarrow> r\<lparr>owner_pubkey := owner, sym_key_enc := hex_encode (sp_SymmetricKey sp), name := sp_Name sp\<rparr>)"
  have row: "owner_pubkey row = owner" "sym_key_enc row = hex_encode (sp_SymmetricKey sp)" "name row = sp_Name sp"
    by (simp_all add: row_def split: option.split)
  have e': "sq_db (en_sqlite e') = SqlOpen (db\<lparr>spaces := AList.update (sp_ID sp) row (spaces db)\<rparr>)"
    using assms(2) db by (auto simp: SaveSpace_def Let_def sql_exec_def row_def split: if_split_asm)
  have eq: "\<lparr>sp_ID = sp_ID sp, sp_Name = sp_Name sp, sp_SymmetricKey = sp_SymmetricKey sp, sp_CreatedAt = 0\<rparr>
      = sp\<lparr>sp_CreatedAt := 0\<rparr>" by (cases sp) simp
  have dis: "db_ok db" using assms(1) db by (simp add: sqlite_ok_def)
  have "GetSpace True e' (sp_ID sp) =
      (if length (sp_SymmetricKey sp) = SpaceKeySize then Inr (sp\<lparr>sp_CreatedAt := 0\<rparr>, owner) else Inl SpaceKeyLen)"
    by (simp add: GetSpace_def sql_query_def e' update_conv' row hex_decode_encode eq)
  moreover have "GetSpace True e' i = GetSpace True e i" if "i \<noteq> sp_ID sp" for i
    using that by (simp add: GetSpace_def sql_query_def e' db update_conv')
  moreover have "sqlite_ok (en_sqlite e')" using dis by (simp add: sqlite_ok_def e')
  moreover from this have "distinct (map fst (AList.update (sp_ID sp) row (spaces db)))"
    by (simp add: sqlite_ok_def e' db_ok_def)
  ultimately show ?thesis
    by (simp add: ListSpaces_def sql_query_def e' db update_keys insert_absorb)
qed

theorem save_space_get_space_witness:
  "let e' = snd (SaveSpace True demo_engine demo_space ''alice'') in
    GetSpace True e' (sp_ID demo_space) =
      (if length (sp_SymmetricKey demo_space) = SpaceKeySize then Inr (demo_space\<lparr>sp_CreatedAt := 0\<rparr>, ''alice'')
       else Inl SpaceKeyLen) \<and>
    (\<forall>i. i \<noteq> sp_ID demo_space \<longrightarrow> GetSpace True e' i = GetSpace True demo_engine i) \<and>
    (\<exists>old new. ListSpaces True demo_engine = Inr old \<and> ListSpaces True e' = Inr new \<and>
      set new = insert (sp_ID demo_space) (set old) \<and> sorted new \<and> distinct new) \<and>
    sqlite_ok (en_sqlite e')"
proof -
  have "SaveSpace True demo_engine demo_space ''alice'' = (None, snd (SaveSpace True demo_engine demo_space ''alice''))"
    by (simp add: SaveSpace_def Let_def sql_exec_def demo_engine_def)
  moreover have "sqlite_ok (en_sqlite demo_engine)" by (simp add: demo_engine_def sqlite_ok_def db_ok_def)
  ultimately show ?thesis unfolding Let_def by (intro save_space_get_space)
qed

section \<open>The interface to the log\<close>

text \<open>
  The log operations of the engine, as \<open>engine_ext.go\<close> forwards them to bbolt: a record, which the
  sync coordinator takes as an argument in place of the \<open>*store.Engine\<close>.
\<close>

record 's wal_api =
  api_enqueue :: "int \<Rightarrow> 's \<Rightarrow> string \<Rightarrow> string \<Rightarrow> raw_message \<Rightarrow> (wal_err + wal_entry) \<times> 's"
  api_pending :: "'s \<Rightarrow> string \<Rightarrow> wal_entry list \<times> wal_err option"
  api_all_pending :: "'s \<Rightarrow> wal_entry list \<times> wal_err option"
  api_inflight :: "int \<Rightarrow> 's \<Rightarrow> string \<Rightarrow> (wal_err + unit) \<times> 's"
  api_done :: "int \<Rightarrow> 's \<Rightarrow> string \<Rightarrow> (wal_err + unit) \<times> 's"
  api_failed :: "int \<Rightarrow> 's \<Rightarrow> string \<Rightarrow> (wal_err + unit) \<times> 's"
  api_delete :: "'s \<Rightarrow> string \<Rightarrow> (wal_err + unit) \<times> 's"

definition with_bolt :: "'m engine \<Rightarrow> 'a \<times> 'm bolt_store \<Rightarrow> 'a \<times> 'm engine" where
  "with_bolt e r = (fst r, e\<lparr>en_bolt := snd r\<rparr>)"

definition engine_api :: "('m, bytes) bucket_ops \<Rightarrow> 'm engine wal_api" where
  "engine_api B =
     \<lparr>api_enqueue = (\<lambda>now e p q pl. with_bolt e (EnqueueEntry B now (en_bolt e) p q pl)),
      api_pending = (\<lambda>e p. GetPendingEntries B (en_bolt e) p),
      api_all_pending = (\<lambda>e. GetAllPendingEntries B (en_bolt e)),
      api_inflight = (\<lambda>now e i. with_bolt e (MarkInFlight B now (en_bolt e) i)),
      api_done = (\<lambda>now e i. with_bolt e (MarkDone B now (en_bolt e) i)),
      api_failed = (\<lambda>now e i. with_bolt e (MarkFailed B now (en_bolt e) i)),
      api_delete = (\<lambda>e i. with_bolt e (DeleteEntry B (en_bolt e) i))\<rparr>"

text \<open>
  The contract: a log of entries with distinct identifiers that are never reused (\<open>used\<close>), where an
  operation either reports an error and changes nothing or makes its one change.
\<close>

locale wal_engine =
  fixes api :: "'s wal_api" and inv :: "'s \<Rightarrow> bool" and log :: "'s \<Rightarrow> wal_entry list" and used :: "'s \<Rightarrow> string set"
  assumes ids_distinct: "inv s \<Longrightarrow> distinct (map we_ID (log s))"
    and ids_used: "inv s \<Longrightarrow> we_ID ` set (log s) \<subseteq> used s"
    and enqueue_Inl: "api_enqueue api now s p q pl = (Inl er, s') \<Longrightarrow> s' = s"
    and enqueue_Inr: "api_enqueue api now s p q pl = (Inr e, s') \<Longrightarrow> inv s \<Longrightarrow> in_int64 now \<Longrightarrow>
      inv s' \<and> set (log s') = insert (canon_entry e) (set (log s)) \<and> used s' = insert (we_ID e) (used s) \<and>
      we_ID e \<notin> used s \<and> we_PeerID e = p \<and> we_Op e = q \<and> we_Payload e = pl \<and>
      we_Status e = WALStatusPending \<and> we_Retries e = 0"
    and pending: "inv s \<Longrightarrow> api_pending api s p = (es, eo) \<Longrightarrow>
      es = filter (\<lambda>e. we_PeerID e = p \<and> we_Status e = WALStatusPending) (log s)"
    and all_pending: "inv s \<Longrightarrow> api_all_pending api s = (es, eo) \<Longrightarrow>
      es = filter (\<lambda>e. we_Status e = WALStatusPending) (log s)"
    and inflight_Inl: "api_inflight api now s i = (Inl er, s') \<Longrightarrow> s' = s"
    and inflight_Inr: "api_inflight api now s i = (Inr u, s') \<Longrightarrow> inv s \<Longrightarrow> in_int64 now \<Longrightarrow>
      inv s' \<and> log s' = update_log i (set_status WALStatusInFlight now) (log s) \<and> used s' = used s \<and>
      i \<in> we_ID ` set (log s)"
    and done_Inl: "api_done api now s i = (Inl er, s') \<Longrightarrow> s' = s"
    and done_Inr: "api_done api now s i = (Inr u, s') \<Longrightarrow> inv s \<Longrightarrow> in_int64 now \<Longrightarrow>
      inv s' \<and> log s' = update_log i (set_status WALStatusDone now) (log s) \<and> used s' = used s"
    and failed_Inl: "api_failed api now s i = (Inl er, s') \<Longrightarrow> s' = s"
    and failed_Inr: "api_failed api now s i = (Inr u, s') \<Longrightarrow> inv s \<Longrightarrow> in_int64 now \<Longrightarrow>
      inv s' \<and> log s' = update_log i (set_retry now) (log s) \<and> used s' = used s"
    and delete_Inl: "api_delete api s i = (Inl er, s') \<Longrightarrow> s' = s"
    and delete_Inr: "api_delete api s i = (Inr u, s') \<Longrightarrow> inv s \<Longrightarrow>
      inv s' \<and> log s' = filter (\<lambda>e. we_ID e \<noteq> i) (log s) \<and> used s' = used s"

text \<open>Storage that works: the open log accepts every operation on an entry it holds.\<close>

locale wal_engine_reliable = wal_engine api inv log used
  for api :: "'s wal_api" and inv log used +
  fixes ready :: "'s \<Rightarrow> bool"
  assumes ready_pending: "ready s \<Longrightarrow> inv s \<Longrightarrow> snd (api_pending api s p) = None"
    and ready_all: "ready s \<Longrightarrow> inv s \<Longrightarrow> snd (api_all_pending api s) = None"
    and ready_inflight: "ready s \<Longrightarrow> inv s \<Longrightarrow> in_int64 now \<Longrightarrow> i \<in> we_ID ` set (log s) \<Longrightarrow>
      \<exists>s'. api_inflight api now s i = (Inr (), s') \<and> ready s'"
    and ready_done: "ready s \<Longrightarrow> inv s \<Longrightarrow> in_int64 now \<Longrightarrow> i \<in> we_ID ` set (log s) \<Longrightarrow>
      \<exists>s'. api_done api now s i = (Inr (), s') \<and> ready s'"
    and ready_failed: "ready s \<Longrightarrow> inv s \<Longrightarrow> in_int64 now \<Longrightarrow> i \<in> we_ID ` set (log s) \<Longrightarrow>
      \<exists>s'. api_failed api now s i = (Inr (), s') \<and> ready s'"
    and ready_delete: "ready s \<Longrightarrow> inv s \<Longrightarrow> \<exists>s'. api_delete api s i = (Inr (), s') \<and> ready s'"

definition engine_inv :: "('m, bytes) bucket_ops \<Rightarrow> 'm engine \<Rightarrow> bool" where
  "engine_inv B e = store_inv B (en_bolt e)"

definition engine_log :: "('m, bytes) bucket_ops \<Rightarrow> 'm engine \<Rightarrow> wal_entry list" where
  "engine_log B e = store_log B (en_bolt e)"

definition engine_used :: "('m, bytes) bucket_ops \<Rightarrow> 'm engine \<Rightarrow> string set" where
  "engine_used B e = pad10 ` {1..store_seq B (en_bolt e)}"

definition engine_ready :: "'m engine \<Rightarrow> bool" where
  "engine_ready e = (case db (en_bolt e) of OpenDB (Some _) \<Rightarrow> True | _ \<Rightarrow> False)"

lemma with_bolt_eq: "with_bolt e r = (a, e') \<longleftrightarrow> fst r = a \<and> e' = e\<lparr>en_bolt := snd r\<rparr>"
  by (auto simp: with_bolt_def)

lemma engine_bolt_self [simp]: "e\<lparr>en_bolt := en_bolt e\<rparr> = e"
  by (cases e) simp

lemma engine_api_simps [simp]:
  "api_enqueue (engine_api B) now e p q pl = with_bolt e (EnqueueEntry B now (en_bolt e) p q pl)"
  "api_pending (engine_api B) e p = GetPendingEntries B (en_bolt e) p"
  "api_all_pending (engine_api B) e = GetAllPendingEntries B (en_bolt e)"
  "api_inflight (engine_api B) now e i = with_bolt e (MarkInFlight B now (en_bolt e) i)"
  "api_done (engine_api B) now e i = with_bolt e (MarkDone B now (en_bolt e) i)"
  "api_failed (engine_api B) now e i = with_bolt e (MarkFailed B now (en_bolt e) i)"
  "api_delete (engine_api B) e i = with_bolt e (DeleteEntry B (en_bolt e) i)"
  by (simp_all add: engine_api_def)

context wal_bucket begin

lemma used_new: "wal_inv B m \<Longrightarrow> pad10 (Suc (b_seq B m)) \<notin> pad10 ` {1..b_seq B m}"
  by auto

lemma engine_enqueue:
  assumes "EnqueueEntry B now (en_bolt s) p q pl = (Inr e, b')" "engine_inv B s" "in_int64 now"
  shows "engine_inv B (s\<lparr>en_bolt := b'\<rparr>) \<and>
    set (engine_log B (s\<lparr>en_bolt := b'\<rparr>)) = insert (canon_entry e) (set (engine_log B s)) \<and>
    engine_used B (s\<lparr>en_bolt := b'\<rparr>) = insert (we_ID e) (engine_used B s) \<and> we_ID e \<notin> engine_used B s \<and>
    we_PeerID e = p \<and> we_Op e = q \<and> we_Payload e = pl \<and> we_Status e = WALStatusPending \<and> we_Retries e = 0"
  using enqueue_set [OF assms(1) _ assms(3)] assms(2)
  by (auto simp: engine_inv_def engine_log_def engine_used_def atLeastAtMostSuc_conv)

lemma engine_update:
  assumes "store_inv B b' \<and> store_log B b' = f (store_log B (en_bolt s)) \<and> store_seq B b' = store_seq B (en_bolt s)"
  shows "engine_inv B (s\<lparr>en_bolt := b'\<rparr>) \<and> engine_log B (s\<lparr>en_bolt := b'\<rparr>) = f (engine_log B s) \<and>
    engine_used B (s\<lparr>en_bolt := b'\<rparr>) = engine_used B s"
  using assms by (simp add: engine_inv_def engine_log_def engine_used_def)

lemma engine_status:
  "updateStatus B now (en_bolt s) i st = (Inr u, b') \<Longrightarrow> engine_inv B s \<Longrightarrow> in_int64 now \<Longrightarrow>
   engine_inv B (s\<lparr>en_bolt := b'\<rparr>) \<and>
   engine_log B (s\<lparr>en_bolt := b'\<rparr>) = update_log i (set_status st now) (engine_log B s) \<and>
   engine_used B (s\<lparr>en_bolt := b'\<rparr>) = engine_used B s \<and> i \<in> we_ID ` set (engine_log B s)"
  using updateStatus_Inr [of now "en_bolt s" i st u b'] by (simp add: engine_inv_def engine_log_def engine_used_def)

end

lemma with_bolt_cases:
  assumes "with_bolt e r = (a, e')"
  obtains b where "r = (a, b)" "e' = e\<lparr>en_bolt := b\<rparr>"
  using assms by (cases r) (auto simp: with_bolt_def)

lemma engine_wal:
  assumes "wal_bucket B"
  shows "wal_engine (engine_api B) (engine_inv B) (engine_log B) (engine_used B)"
proof
  fix s s' :: "'a engine" and now :: int and p q i :: string and pl :: raw_message and er :: wal_err
    and e :: wal_entry and u :: unit and es :: "wal_entry list" and eo :: "wal_err option"
  note d = engine_inv_def engine_log_def engine_used_def
  note wb = assms
  show "distinct (map we_ID (engine_log B s))" if "engine_inv B s"
    using wal_bucket.store_ids_sorted [OF wb] that strict_sorted_iff unfolding d by blast
  show "we_ID ` set (engine_log B s) \<subseteq> engine_used B s" if "engine_inv B s"
    using that wal_bucket.store_ids_used [OF wb] unfolding d by blast
  show "s' = s" if "api_enqueue (engine_api B) now s p q pl = (Inl er, s')"
    using that by (auto elim!: with_bolt_cases dest: store_op_error)
  show "engine_inv B s' \<and> set (engine_log B s') = insert (canon_entry e) (set (engine_log B s)) \<and>
      engine_used B s' = insert (we_ID e) (engine_used B s) \<and> we_ID e \<notin> engine_used B s \<and>
      we_PeerID e = p \<and> we_Op e = q \<and> we_Payload e = pl \<and> we_Status e = WALStatusPending \<and> we_Retries e = 0"
    if "api_enqueue (engine_api B) now s p q pl = (Inr e, s')" "engine_inv B s" "in_int64 now"
    using that wal_bucket.engine_enqueue [OF wb] by (auto elim!: with_bolt_cases)
  show "es = filter (\<lambda>e. we_PeerID e = p \<and> we_Status e = WALStatusPending) (engine_log B s)"
    if "engine_inv B s" "api_pending (engine_api B) s p = (es, eo)"
    using that wal_bucket.store_read [OF wb] by (simp add: d GetPendingEntries_def)
  show "es = filter (\<lambda>e. we_Status e = WALStatusPending) (engine_log B s)"
    if "engine_inv B s" "api_all_pending (engine_api B) s = (es, eo)"
    using that wal_bucket.store_read [OF wb] by (simp add: d GetAllPendingEntries_def)
  show "s' = s" if "api_inflight (engine_api B) now s i = (Inl er, s')"
    using that by (auto elim!: with_bolt_cases dest: store_op_error simp: MarkInFlight_def)
  show "engine_inv B s' \<and> engine_log B s' = update_log i (set_status WALStatusInFlight now) (engine_log B s) \<and>
      engine_used B s' = engine_used B s \<and> i \<in> we_ID ` set (engine_log B s)"
    if "api_inflight (engine_api B) now s i = (Inr u, s')" "engine_inv B s" "in_int64 now"
    using that wal_bucket.engine_status [OF wb] by (auto elim!: with_bolt_cases simp: MarkInFlight_def)
  show "s' = s" if "api_done (engine_api B) now s i = (Inl er, s')"
    using that by (auto elim!: with_bolt_cases dest: store_op_error simp: MarkDone_def)
  show "engine_inv B s' \<and> engine_log B s' = update_log i (set_status WALStatusDone now) (engine_log B s) \<and>
      engine_used B s' = engine_used B s"
    if "api_done (engine_api B) now s i = (Inr u, s')" "engine_inv B s" "in_int64 now"
    using that wal_bucket.engine_status [OF wb] by (auto elim!: with_bolt_cases simp: MarkDone_def)
  show "s' = s" if "api_failed (engine_api B) now s i = (Inl er, s')"
    using that by (auto elim!: with_bolt_cases dest: store_op_error)
  show "engine_inv B s' \<and> engine_log B s' = update_log i (set_retry now) (engine_log B s) \<and>
      engine_used B s' = engine_used B s"
    if "api_failed (engine_api B) now s i = (Inr u, s')" "engine_inv B s" "in_int64 now"
    using that wal_bucket.MarkFailed_Inr [OF wb] by (auto elim!: with_bolt_cases simp: d)
  show "s' = s" if "api_delete (engine_api B) s i = (Inl er, s')"
    using that by (auto elim!: with_bolt_cases dest: store_op_error)
  show "engine_inv B s' \<and> engine_log B s' = filter (\<lambda>e. we_ID e \<noteq> i) (engine_log B s) \<and>
      engine_used B s' = engine_used B s"
    if "api_delete (engine_api B) s i = (Inr u, s')" "engine_inv B s"
    using that wal_bucket.DeleteEntry_Inr [OF wb] by (auto elim!: with_bolt_cases simp: d)
qed

lemma engine_wal_reliable:
  assumes "wal_bucket_reliable B"
  shows "wal_engine_reliable (engine_api B) (engine_inv B) (engine_log B) (engine_used B) engine_ready"
proof -
  have wb: "wal_bucket B" using assms by (simp add: wal_bucket_reliable_def)
  have upd: "\<exists>s'. with_bolt s (wal_update B (en_bolt s) (modify_entry B i g)) = (Inr (), s') \<and> engine_ready s'"
    if h: "engine_ready s" "engine_inv B s" "i \<in> we_ID ` set (engine_log B s)" "\<And>e. wal_ok e \<Longrightarrow> wal_ok (g e)"
    for s :: "'a engine" and i g
  proof -
    obtain m where m: "db (en_bolt s) = OpenDB (Some m)"
      using h(1) by (auto simp: engine_ready_def split: bolt_handle.split_asm option.split_asm)
    have "wal_inv B m" "i \<in> we_ID ` set (wal_log B m)"
      using h(2,3) m by (simp_all add: engine_inv_def store_inv_def engine_log_def store_log_def)
    then obtain b where b: "wal_update B (en_bolt s) (modify_entry B i g) = (Inr (), b)"
      using wal_bucket_reliable.modify_ok [OF assms _ m] h(4) by blast
    then have "engine_ready (s\<lparr>en_bolt := b\<rparr>)" by (auto simp: engine_ready_def wal_update_Inr)
    with b show ?thesis by (simp add: with_bolt_def)
  qed
  have del: "\<exists>s'. with_bolt s (DeleteEntry B (en_bolt s) i) = (Inr (), s') \<and> engine_ready s'"
    if ready: "engine_ready s" for s :: "'a engine" and i
  proof -
    obtain m where m: "db (en_bolt s) = OpenDB (Some m)"
      using ready by (auto simp: engine_ready_def split: bolt_handle.split_asm option.split_asm)
    obtain b where b: "DeleteEntry B (en_bolt s) i = (Inr (), b)"
      using wal_bucket_reliable.delete_ok [OF assms m] by blast
    then have "engine_ready (s\<lparr>en_bolt := b\<rparr>)" by (auto simp: engine_ready_def DeleteEntry_def wal_update_Inr)
    with b show ?thesis by (simp add: with_bolt_def)
  qed
  have rd: "snd (wal_read B (en_bolt s) P) = None" if "engine_ready s" "engine_inv B s" for s :: "'a engine" and P
    using that wal_bucket.store_read [OF wb, of "en_bolt s" P]
    by (auto simp: engine_ready_def engine_inv_def split: bolt_handle.splits option.splits)
  show ?thesis
    by (intro wal_engine_reliable.intro wal_engine_reliable_axioms.intro engine_wal wb)
      (use upd del rd in \<open>auto simp: GetPendingEntries_def GetAllPendingEntries_def MarkInFlight_def MarkDone_def
        updateStatus_def MarkFailed_def wal_ok_set_status wal_ok_set_retry\<close>)
qed

sublocale wal_bucket \<subseteq> eng: wal_engine "engine_api B" "engine_inv B" "engine_log B" "engine_used B"
  by (rule engine_wal) (rule wal_bucket_axioms)

interpretation ref_log: wal_engine_reliable "engine_api ref_ops" "engine_inv ref_ops" "engine_log ref_ops"
  "engine_used ref_ops" engine_ready
  by (rule engine_wal_reliable) (rule ref_wal.wal_bucket_reliable_axioms)

end
