(* ===== verification/Coordinator.thy ===== *)
theory Coordinator
  imports Engine "HOL-Library.Sublist"
begin

text \<open>
  \<open>internal/sync/coordinator.go\<close>: the offline-first delivery of the log. The engine is used through
  its \<open>wal_api\<close>; what the process does not control is the record \<open>env\<close> of functions of an outside
  state: the clock, whether the context is cancelled, and the delivery function.

  Two models of the same code. The functions \<open>deliver\<close>, \<open>drainPeer\<close> and \<open>pollAndDeliver\<close> run one
  goroutine alone. The relation \<open>cstep\<close> interleaves any number of goroutines (the poll loop, one
  drain per \<open>MarkOnline\<close>, explicit drains) with calls of \<open>Enqueue\<close>, \<open>MarkOnline\<close>, \<open>MarkOffline\<close>
  and crashes of the process, one log transaction or one delivery per step. \<open>solo_run\<close> shows that
  the functions are the runs of one goroutine.

  Lemmas: nothing queued is lost under any interleaving and any number of crashes; one drain
  delivers everything pending, in order, once; what happens to an entry that a crash left in flight
  and to one that ran out of retries.
\<close>

definition MaxRetries :: int where "MaxRetries = 10"
definition DefaultPollInterval :: int where "DefaultPollInterval = 5 * 1000000000"

record 's coordinator =
  co_engine :: 's
  pollInterval :: int
  online :: "string \<rightharpoonup> bool"

definition NewCoordinator :: "'s \<Rightarrow> 's coordinator" where
  "NewCoordinator eng = \<lparr>co_engine = eng, pollInterval = DefaultPollInterval, online = Map.empty\<rparr>"

definition WithPollInterval :: "int \<Rightarrow> 's coordinator \<Rightarrow> 's coordinator" where
  "WithPollInterval d c = c\<lparr>pollInterval := d\<rparr>"

text \<open>A missing key of the map reads as false.\<close>

definition IsPeerOnline :: "'s coordinator \<Rightarrow> string \<Rightarrow> bool" where
  "IsPeerOnline c peerID = (online c peerID = Some True)"

definition MarkOffline :: "'s coordinator \<Rightarrow> string \<Rightarrow> 's coordinator" where
  "MarkOffline c peerID = c\<lparr>online := (online c)(peerID \<mapsto> False)\<rparr>"

datatype coord_err = MarshalPayload | EnqueueFailed wal_err | PendingFailed wal_err | Cancelled

text \<open>\<open>json.Marshal(payload)\<close> is the argument \<open>raw\<close>: \<open>None\<close> when the value cannot be marshalled.\<close>

definition Enqueue ::
  "'s wal_api \<Rightarrow> int \<Rightarrow> 's coordinator \<Rightarrow> string \<Rightarrow> string \<Rightarrow> bytes option \<Rightarrow> (coord_err + wal_entry) \<times> 's coordinator" where
  "Enqueue api now c peerID op raw = (case raw of
     None \<Rightarrow> (Inl MarshalPayload, c)
   | Some t \<Rightarrow>
       (case api_enqueue api now (co_engine c) peerID op (Some t) of
          (Inl er, s) \<Rightarrow> (Inl (EnqueueFailed er), c\<lparr>co_engine := s\<rparr>)
        | (Inr e, s) \<Rightarrow> (Inr e, c\<lparr>co_engine := s\<rparr>)))"

section \<open>One goroutine\<close>

record 'w env =
  env_now :: "'w \<Rightarrow> int"
  env_cancelled :: "'w \<Rightarrow> bool"
  env_deliver :: "string \<Rightarrow> wal_entry \<Rightarrow> 'w \<Rightarrow> bool \<times> 'w"

definition deliver :: "'s wal_api \<Rightarrow> 'w env \<Rightarrow> wal_entry \<Rightarrow> 's \<times> 'w \<Rightarrow> 's \<times> 'w" where
  "deliver api env entry sw =
     (let (s, w) = sw in
      if we_Retries entry \<ge> MaxRetries then (snd (api_failed api (env_now env w) s (we_ID entry)), w)
      else case api_inflight api (env_now env w) s (we_ID entry) of
        (Inl _, s1) \<Rightarrow> (s1, w)
      | (Inr _, s1) \<Rightarrow>
          (case env_deliver env (we_PeerID entry) entry w of
             (False, w1) \<Rightarrow> (snd (api_failed api (env_now env w1) s1 (we_ID entry)), w1)
           | (True, w1) \<Rightarrow>
               (let s2 = snd (api_done api (env_now env w1) s1 (we_ID entry))
                in (snd (api_delete api s2 (we_ID entry)), w1))))"

fun drain_loop :: "'s wal_api \<Rightarrow> 'w env \<Rightarrow> wal_entry list \<Rightarrow> 's \<times> 'w \<Rightarrow> coord_err option \<times> 's \<times> 'w" where
  "drain_loop api env [] sw = (None, sw)"
| "drain_loop api env (e # es) sw =
     (if env_cancelled env (snd sw) then (Some Cancelled, sw)
      else drain_loop api env es (deliver api env e sw))"

definition drainPeer :: "'s wal_api \<Rightarrow> 'w env \<Rightarrow> string \<Rightarrow> 's \<times> 'w \<Rightarrow> coord_err option \<times> 's \<times> 'w" where
  "drainPeer api env peerID sw = (case api_pending api (fst sw) peerID of
     (_, Some er) \<Rightarrow> (Some (PendingFailed er), sw)
   | (es, None) \<Rightarrow> drain_loop api env es sw)"

fun poll_loop :: "'s wal_api \<Rightarrow> 'w env \<Rightarrow> (string \<Rightarrow> bool) \<Rightarrow> wal_entry list \<Rightarrow> 's \<times> 'w \<Rightarrow> coord_err option \<times> 's \<times> 'w" where
  "poll_loop api env up [] sw = (None, sw)"
| "poll_loop api env up (e # es) sw =
     (if env_cancelled env (snd sw) then (Some Cancelled, sw)
      else if \<not> up (we_PeerID e) then poll_loop api env up es sw
      else poll_loop api env up es (deliver api env e sw))"

definition pollAndDeliver :: "'s wal_api \<Rightarrow> 'w env \<Rightarrow> (string \<Rightarrow> bool) \<Rightarrow> 's \<times> 'w \<Rightarrow> coord_err option \<times> 's \<times> 'w" where
  "pollAndDeliver api env up sw = (case api_all_pending api (fst sw) of
     (_, Some er) \<Rightarrow> (Some (PendingFailed er), sw)
   | (es, None) \<Rightarrow> poll_loop api env up es sw)"

section \<open>Many goroutines\<close>

text \<open>
  Where a goroutine stands. The flag of a loop tells the poll loop, which looks at the online map,
  from a drain, which does not.
\<close>

datatype phase =
    FetchPeer string
  | FetchAll
  | Loop bool "wal_entry list"
  | Begin wal_entry bool "wal_entry list"
  | Sending wal_entry bool "wal_entry list"
  | NotSent wal_entry bool "wal_entry list"
  | Sent wal_entry bool "wal_entry list"
  | Deleting wal_entry bool "wal_entry list"
  | Finished

text \<open>
  One step: at most one transaction on the log, or one call of the delivery function. \<open>now\<close>,
  \<open>canc\<close> and \<open>okd\<close> are what the clock, the context and the delivery function answer. The last
  component is the successful delivery made in this step.
\<close>

fun tstep ::
  "'s wal_api \<Rightarrow> (string \<Rightarrow> bool) \<Rightarrow> int \<Rightarrow> bool \<Rightarrow> bool \<Rightarrow> 's \<Rightarrow> phase \<Rightarrow> phase \<times> 's \<times> (string \<times> wal_entry) list" where
  "tstep api up now canc okd s (FetchPeer p) = (case api_pending api s p of
     (_, Some _) \<Rightarrow> (Finished, s, []) | (es, None) \<Rightarrow> (Loop False es, s, []))"
| "tstep api up now canc okd s FetchAll = (case api_all_pending api s of
     (_, Some _) \<Rightarrow> (Finished, s, []) | (es, None) \<Rightarrow> (Loop True es, s, []))"
| "tstep api up now canc okd s (Loop poll []) = (Finished, s, [])"
| "tstep api up now canc okd s (Loop poll (e # es)) =
     (if canc then (Finished, s, [])
      else if poll \<and> \<not> up (we_PeerID e) then (Loop poll es, s, [])
      else (Begin e poll es, s, []))"
| "tstep api up now canc okd s (Begin e poll es) =
     (if we_Retries e \<ge> MaxRetries then (Loop poll es, snd (api_failed api now s (we_ID e)), [])
      else case api_inflight api now s (we_ID e) of
        (Inl _, s1) \<Rightarrow> (Loop poll es, s1, [])
      | (Inr _, s1) \<Rightarrow> (Sending e poll es, s1, []))"
| "tstep api up now canc okd s (Sending e poll es) =
     (if okd then (Sent e poll es, s, [(we_PeerID e, e)]) else (NotSent e poll es, s, []))"
| "tstep api up now canc okd s (NotSent e poll es) = (Loop poll es, snd (api_failed api now s (we_ID e)), [])"
| "tstep api up now canc okd s (Sent e poll es) = (Deleting e poll es, snd (api_done api now s (we_ID e)), [])"
| "tstep api up now canc okd s (Deleting e poll es) = (Loop poll es, snd (api_delete api s (we_ID e)), [])"
| "tstep api up now canc okd s Finished = (Finished, s, [])"

text \<open>
  The whole process with its history: everything queued so far, as stored, and every successful
  delivery.
\<close>

record 's cstate =
  cs_engine :: 's
  cs_online :: "string \<rightharpoonup> bool"
  cs_threads :: "phase list"
  cs_queued :: "wal_entry list"
  cs_sent :: "(string \<times> wal_entry) list"

inductive cstep :: "'s wal_api \<Rightarrow> 's cstate \<Rightarrow> 's cstate \<Rightarrow> bool" for api where
  thread: "i < length (cs_threads c) \<Longrightarrow> in_int64 now \<Longrightarrow>
     tstep api (\<lambda>p. cs_online c p = Some True) now canc okd (cs_engine c) (cs_threads c ! i) = (ph, s', d) \<Longrightarrow>
     cstep api c (c\<lparr>cs_engine := s', cs_threads := (cs_threads c)[i := ph], cs_sent := cs_sent c @ d\<rparr>)"
| enqueue: "api_enqueue api now (cs_engine c) p q (Some t) = (Inr e, s') \<Longrightarrow> in_int64 now \<Longrightarrow>
     cstep api c (c\<lparr>cs_engine := s', cs_queued := cs_queued c @ [canon_entry e]\<rparr>)"
| enqueue_fails: "api_enqueue api now (cs_engine c) p q (Some t) = (Inl er, s') \<Longrightarrow>
     cstep api c (c\<lparr>cs_engine := s'\<rparr>)"
| mark_online: "cstep api c (c\<lparr>cs_online := (cs_online c)(p \<mapsto> True), cs_threads := cs_threads c @ [FetchPeer p]\<rparr>)"
| mark_offline: "cstep api c (c\<lparr>cs_online := (cs_online c)(p \<mapsto> False)\<rparr>)"
| drain: "cstep api c (c\<lparr>cs_threads := cs_threads c @ [FetchPeer p]\<rparr>)"
| tick: "cstep api c (c\<lparr>cs_threads := cs_threads c @ [FetchAll]\<rparr>)"
| crash: "cstep api c (c\<lparr>cs_online := Map.empty, cs_threads := []\<rparr>)"

inductive_cases cstepE: "cstep api c c'"

definition cstart :: "wal_entry list \<Rightarrow> 's \<Rightarrow> 's cstate" where
  "cstart queued s = \<lparr>cs_engine = s, cs_online = Map.empty, cs_threads = [], cs_queued = queued, cs_sent = []\<rparr>"

text \<open>The entries a goroutine still holds, and the ones it is about to remove.\<close>

fun holds :: "phase \<Rightarrow> wal_entry list" where
  "holds (Loop _ es) = es"
| "holds (Begin e _ es) = e # es"
| "holds (Sending e _ es) = e # es"
| "holds (NotSent e _ es) = e # es"
| "holds (Sent e _ es) = e # es"
| "holds (Deleting e _ es) = e # es"
| "holds _ = []"

fun settled :: "phase \<Rightarrow> wal_entry list" where
  "settled (Sent e _ _) = [e]"
| "settled (Deleting e _ _) = [e]"
| "settled _ = []"

definition delivered :: "'s cstate \<Rightarrow> wal_entry \<Rightarrow> bool" where
  "delivered c e \<longleftrightarrow> (\<exists>e'. (we_PeerID e, e') \<in> set (cs_sent c) \<and> entry_core e' = entry_core e)"

definition known :: "'s cstate \<Rightarrow> wal_entry \<Rightarrow> bool" where
  "known c e \<longleftrightarrow> entry_core e \<in> entry_core ` set (cs_queued c)"

lemma core_eqD: "entry_core a = entry_core b \<Longrightarrow> we_ID a = we_ID b \<and> we_PeerID a = we_PeerID b"
  by (simp add: entry_core_def)

lemma core_canon: "canon_entry e = e' \<Longrightarrow> we_ID e' = we_ID e"
  by auto

lemma set_update_log: "set (update_log i g es) = (\<lambda>e. if we_ID e = i then g e else e) ` set es"
  by (simp add: update_log_def)

lemma core_update_image:
  "(\<And>e. entry_core (g e) = entry_core e) \<Longrightarrow> entry_core ` set (update_log i g es) = entry_core ` set es"
  unfolding set_update_log image_image by (rule image_cong) simp_all

context wal_engine begin

text \<open>What each transaction can do to the log, errors included.\<close>

definition kept :: "'s \<Rightarrow> 's \<Rightarrow> bool" where
  "kept s s' \<longleftrightarrow> inv s' \<and> used s' = used s \<and> entry_core ` set (log s') = entry_core ` set (log s)"

lemma kept_refl: "inv s \<Longrightarrow> kept s s"
  by (simp add: kept_def)

lemma kept_inflight: "inv s \<Longrightarrow> in_int64 now \<Longrightarrow> kept s (snd (api_inflight api now s i))"
  using inflight_Inl [of now s i] inflight_Inr [of now s i]
  by (cases "api_inflight api now s i"; cases "fst (api_inflight api now s i)")
    (auto simp: kept_def core_update_image)

lemma kept_inflight_eq: "api_inflight api now s i = (r, s') \<Longrightarrow> inv s \<Longrightarrow> in_int64 now \<Longrightarrow> kept s s'"
  using kept_inflight [of s now i] by simp

lemma kept_done: "inv s \<Longrightarrow> in_int64 now \<Longrightarrow> kept s (snd (api_done api now s i))"
  using done_Inl [of now s i] done_Inr [of now s i]
  by (cases "api_done api now s i"; cases "fst (api_done api now s i)")
    (auto simp: kept_def core_update_image)

lemma kept_failed: "inv s \<Longrightarrow> in_int64 now \<Longrightarrow> kept s (snd (api_failed api now s i))"
  using failed_Inl [of now s i] failed_Inr [of now s i]
  by (cases "api_failed api now s i"; cases "fst (api_failed api now s i)")
    (auto simp: kept_def core_update_image)

lemma after_delete:
  "inv s \<Longrightarrow> inv (snd (api_delete api s i)) \<and> used (snd (api_delete api s i)) = used s \<and>
    set (log (snd (api_delete api s i))) \<subseteq> set (log s) \<and>
    {e \<in> set (log s). we_ID e \<noteq> i} \<subseteq> set (log (snd (api_delete api s i)))"
  using delete_Inl [of s i] delete_Inr [of s i]
  by (cases "api_delete api s i"; cases "fst (api_delete api s i)") auto

definition cinv :: "'s cstate \<Rightarrow> bool" where
  "cinv c \<longleftrightarrow> inv (cs_engine c) \<and> distinct (map we_ID (cs_queued c)) \<and>
     we_ID ` set (cs_queued c) \<subseteq> used (cs_engine c) \<and>
     (\<forall>e \<in> set (log (cs_engine c)). known c e) \<and>
     (\<forall>ph \<in> set (cs_threads c). \<forall>e \<in> set (holds ph). known c e) \<and>
     (\<forall>ph \<in> set (cs_threads c). \<forall>e \<in> set (settled ph). delivered c e) \<and>
     (\<forall>(p, e) \<in> set (cs_sent c). known c e \<and> p = we_PeerID e) \<and>
     (\<forall>e \<in> set (cs_queued c). entry_core e \<in> entry_core ` set (log (cs_engine c)) \<or> delivered c e)"

lemma cinvI:
  assumes "inv (cs_engine c)" "distinct (map we_ID (cs_queued c))" "we_ID ` set (cs_queued c) \<subseteq> used (cs_engine c)"
    and "\<And>e. e \<in> set (log (cs_engine c)) \<Longrightarrow> known c e"
    and "\<And>ph e. ph \<in> set (cs_threads c) \<Longrightarrow> e \<in> set (holds ph) \<Longrightarrow> known c e"
    and "\<And>ph e. ph \<in> set (cs_threads c) \<Longrightarrow> e \<in> set (settled ph) \<Longrightarrow> delivered c e"
    and "\<And>p e. (p, e) \<in> set (cs_sent c) \<Longrightarrow> known c e \<and> p = we_PeerID e"
    and "\<And>e. e \<in> set (cs_queued c) \<Longrightarrow> entry_core e \<in> entry_core ` set (log (cs_engine c)) \<or> delivered c e"
  shows "cinv c"
  unfolding cinv_def
proof (intro conjI ballI)
  show "case pe of (p, e) \<Rightarrow> known c e \<and> p = we_PeerID e" if "pe \<in> set (cs_sent c)" for pe
    using that assms(7) [of "fst pe" "snd pe"] by (auto split: prod.split)
qed (fact assms | erule assms; assumption)+

lemma cinvD:
  assumes "cinv c"
  shows "inv (cs_engine c)" "distinct (map we_ID (cs_queued c))" "we_ID ` set (cs_queued c) \<subseteq> used (cs_engine c)"
    and "e \<in> set (log (cs_engine c)) \<Longrightarrow> known c e"
    and "ph \<in> set (cs_threads c) \<Longrightarrow> e \<in> set (holds ph) \<Longrightarrow> known c e"
    and "ph \<in> set (cs_threads c) \<Longrightarrow> e \<in> set (settled ph) \<Longrightarrow> delivered c e"
    and "(p, e) \<in> set (cs_sent c) \<Longrightarrow> known c e" "(p, e) \<in> set (cs_sent c) \<Longrightarrow> p = we_PeerID e"
    and "e \<in> set (cs_queued c) \<Longrightarrow> entry_core e \<in> entry_core ` set (log (cs_engine c)) \<or> delivered c e"
  using assms unfolding cinv_def by blast+

lemma cinv_start: "inv s \<Longrightarrow> cinv (cstart (log s) s)"
  using ids_distinct ids_used by (auto simp: cinv_def cstart_def known_def)

lemma pending_sub: "api_pending api s p = (es, eo) \<Longrightarrow> inv s \<Longrightarrow> e \<in> set es \<Longrightarrow> e \<in> set (log s)"
  using pending by fastforce

lemma all_pending_sub: "api_all_pending api s = (es, eo) \<Longrightarrow> inv s \<Longrightarrow> e \<in> set es \<Longrightarrow> e \<in> set (log s)"
  using all_pending by fastforce

text \<open>One step of one goroutine, without the list of goroutines around it.\<close>

lemma tstep_effect:
  assumes "tstep api up now canc okd s ph = (ph', s', d)" "inv s" "in_int64 now"
  shows "(kept s s' \<or> (\<exists>e poll es. ph = Deleting e poll es \<and> s' = snd (api_delete api s (we_ID e)))) \<and>
    set (holds ph') \<subseteq> set (holds ph) \<union> set (log s) \<and>
    (\<forall>e \<in> set (settled ph'). e \<in> set (settled ph) \<or> (we_PeerID e, e) \<in> set d) \<and>
    (\<forall>(p, e) \<in> set d. e \<in> set (holds ph) \<and> p = we_PeerID e)"
  using assms kept_refl kept_failed kept_done kept_inflight_eq pending_sub all_pending_sub
  by (cases "(api, up, now, canc, okd, s, ph)" rule: tstep.cases)
    (auto split: prod.splits option.splits sum.splits if_splits)

lemma known_mono: "known c e \<Longrightarrow> set (cs_queued c) \<subseteq> set (cs_queued c') \<Longrightarrow> known c' e"
  by (auto simp: known_def)

lemma known_update [simp]:
  "known (c\<lparr>cs_engine := s, cs_threads := ts, cs_sent := d\<rparr>) e = known c e"
  by (simp add: known_def)

lemma delivered_mono: "delivered c e \<Longrightarrow> set (cs_sent c) \<subseteq> set (cs_sent c') \<Longrightarrow> delivered c' e"
  by (auto simp: delivered_def)

lemma cinv_thread:
  assumes cinv: "cinv c" and i: "i < length (cs_threads c)" and now: "in_int64 now"
    and st: "tstep api up now canc okd (cs_engine c) (cs_threads c ! i) = (ph', s', d)"
  shows "cinv (c\<lparr>cs_engine := s', cs_threads := (cs_threads c)[i := ph'], cs_sent := cs_sent c @ d\<rparr>)"
    (is "cinv ?c")
proof -
  let ?s = "cs_engine c" and ?ph = "cs_threads c ! i"
  have ph: "?ph \<in> set (cs_threads c)" using i by simp
  note C = cinvD [OF cinv]
  note eff = tstep_effect [OF st C(1) now]
  have threads: "ph = ph' \<or> ph \<in> set (cs_threads c)" if "ph \<in> set ((cs_threads c)[i := ph'])" for ph
    using that set_update_subset_insert by fastforce
  have up: "delivered ?c e" if "delivered c e" for e using that by (rule delivered_mono) simp
  have log': "inv s' \<and> used s' = used ?s \<and> entry_core ` set (log s') \<subseteq> entry_core ` set (log ?s) \<and>
      (\<forall>e \<in> set (cs_queued c). entry_core e \<in> entry_core ` set (log ?s) \<longrightarrow>
         entry_core e \<in> entry_core ` set (log s') \<or> delivered c e)"
  proof (cases "kept ?s s'")
    case True
    then show ?thesis by (auto simp: kept_def)
  next
    case False
    then obtain e0 poll es where del: "?ph = Deleting e0 poll es" "s' = snd (api_delete api ?s (we_ID e0))"
      using eff by blast
    note ad = after_delete [OF C(1), of "we_ID e0"]
    have d0: "delivered c e0" "known c e0" using C(5,6) [OF ph, of e0] del by simp_all
    obtain q0 where q0: "q0 \<in> set (cs_queued c)" "entry_core q0 = entry_core e0"
      using d0(2) by (auto simp: known_def)
    have "entry_core q \<in> entry_core ` set (log s') \<or> delivered c q"
      if q: "q \<in> set (cs_queued c)" and l: "entry_core q \<in> entry_core ` set (log ?s)" for q
    proof (cases "we_ID q = we_ID e0")
      case True
      have "inj_on we_ID (set (cs_queued c))" using C(2) by (simp add: distinct_map)
      then have "q = q0" by (rule inj_onD) (use True q q0 core_eqD [OF q0(2)] in simp_all)
      then show ?thesis using d0(1) q0(2) core_eqD [OF q0(2)] by (simp add: delivered_def)
    next
      case False
      obtain e where "e \<in> set (log ?s)" "entry_core e = entry_core q" using l by force
      moreover from this False have "we_ID e \<noteq> we_ID e0" using core_eqD by metis
      ultimately show ?thesis using ad del(2) by (force intro: image_eqI [of _ _ e])
    qed
    then show ?thesis using ad del(2) by auto
  qed
  show ?thesis
  proof (rule cinvI, unfold known_update)
    show "inv (cs_engine ?c)" "distinct (map we_ID (cs_queued ?c))" "we_ID ` set (cs_queued ?c) \<subseteq> used (cs_engine ?c)"
      using C(2,3) log' by simp_all
    show "known c e" if "e \<in> set (log (cs_engine ?c))" for e
    proof -
      have "entry_core e \<in> entry_core ` set (log ?s)" using that log' by auto
      then obtain e1 where "e1 \<in> set (log ?s)" "entry_core e = entry_core e1" by blast
      then show ?thesis using C(4) [of e1] by (simp add: known_def)
    qed
    show "known c e" if "ph \<in> set (cs_threads ?c)" "e \<in> set (holds ph)" for ph e
    proof -
      have "ph \<in> set ((cs_threads c)[i := ph'])" using that(1) by simp
      from threads [OF this] consider "ph = ph'" | "ph \<in> set (cs_threads c)" by blast
      then show ?thesis
      proof cases
        case 1
        then have "e \<in> set (holds ?ph) \<or> e \<in> set (log ?s)" using eff that(2) by blast
        then show ?thesis using C(4,5) ph by blast
      next
        case 2
        then show ?thesis using C(5) that(2) by blast
      qed
    qed
    show "delivered ?c e" if "ph \<in> set (cs_threads ?c)" "e \<in> set (settled ph)" for ph e
    proof -
      have "ph \<in> set ((cs_threads c)[i := ph'])" using that(1) by simp
      from threads [OF this] consider "ph = ph'" | "ph \<in> set (cs_threads c)" by blast
      then show ?thesis
      proof cases
        case 1
        then have "e \<in> set (settled ?ph) \<or> (we_PeerID e, e) \<in> set d" using eff that(2) by blast
        then show ?thesis using C(6) [OF ph] up by (auto simp: delivered_def)
      next
        case 2
        then show ?thesis using C(6) that(2) up by blast
      qed
    qed
    show "known c e \<and> p = we_PeerID e" if "(p, e) \<in> set (cs_sent ?c)" for p e
    proof -
      have "(p, e) \<in> set (cs_sent c) \<or> (p, e) \<in> set d" using that by simp
      then show ?thesis using C(5) [OF ph] C(7,8) eff by blast
    qed
    show "entry_core e \<in> entry_core ` set (log (cs_engine ?c)) \<or> delivered ?c e" if "e \<in> set (cs_queued ?c)" for e
    proof -
      have "e \<in> set (cs_queued c)" using that by simp
      then have "entry_core e \<in> entry_core ` set (log s') \<or> delivered c e" using C(9) [of e] log' by blast
      then show ?thesis using up [of e] by fastforce
    qed
  qed
qed

lemma cinv_same:
  assumes "cinv c" "cs_engine c' = cs_engine c" "cs_queued c' = cs_queued c" "cs_sent c' = cs_sent c"
    and threads: "\<And>ph. ph \<in> set (cs_threads c') \<Longrightarrow> ph \<in> set (cs_threads c) \<or> holds ph = [] \<and> settled ph = []"
  shows "cinv c'"
proof -
  note C = cinvD [OF assms(1)]
  have k: "known c' e = known c e" and d: "delivered c' e = delivered c e" for e
    using assms(3,4) by (simp_all add: known_def delivered_def)
  show ?thesis
  proof (rule cinvI)
    show "known c' e" if "ph \<in> set (cs_threads c')" "e \<in> set (holds ph)" for ph e
      using threads [OF that(1)] C(5) that(2) k by fastforce
    show "delivered c' e" if "ph \<in> set (cs_threads c')" "e \<in> set (settled ph)" for ph e
      using threads [OF that(1)] C(6) that(2) d by fastforce
  qed (use C assms(2-4) k d in simp_all)
qed

lemma cinv_enqueue:
  assumes cinv: "cinv c" and en: "api_enqueue api now (cs_engine c) p q (Some t) = (Inr e, s')" and now: "in_int64 now"
  shows "cinv (c\<lparr>cs_engine := s', cs_queued := cs_queued c @ [canon_entry e]\<rparr>)" (is "cinv ?c")
proof -
  note C = cinvD [OF cinv]
  note q = enqueue_Inr [OF en C(1) now]
  have logs: "set (log s') = insert (canon_entry e) (set (log (cs_engine c)))" using q by blast
  have k: "known ?c e'" if "known c e'" for e' by (rule known_mono [OF that]) auto
  have d: "delivered ?c e'" if "delivered c e'" for e' by (rule delivered_mono [OF that]) simp
  have new: "known ?c (canon_entry e)" by (simp add: known_def)
  have fresh: "we_ID e \<notin> we_ID ` set (cs_queued c)" using C(3) q by blast
  show ?thesis
  proof (rule cinvI)
    show "known ?c e'" if "e' \<in> set (log (cs_engine ?c))" for e'
      using that logs C(4) k new by auto
    show "entry_core e' \<in> entry_core ` set (log (cs_engine ?c)) \<or> delivered ?c e'" if "e' \<in> set (cs_queued ?c)" for e'
      using that logs C(9) d by auto
  qed (use C q k d fresh in auto)
qed

lemma cinv_step: "cstep api c c' \<Longrightarrow> cinv c \<Longrightarrow> cinv c'"
proof (induction rule: cstep.induct)
  case (thread i c now canc okd ph s' d)
  then show ?case by (intro cinv_thread)
next
  case (enqueue now c p q t e s')
  then show ?case by (intro cinv_enqueue)
next
  case (enqueue_fails now c p q t er s')
  have "s' = cs_engine c" using enqueue_fails(1) by (rule enqueue_Inl)
  then show ?case using enqueue_fails.prems by simp
qed (erule cinv_same; force)+

lemma cinv_reach: "(cstep api)\<^sup>*\<^sup>* c c' \<Longrightarrow> cinv c \<Longrightarrow> cinv c'"
  by (induction rule: rtranclp_induct) (auto intro: cinv_step)

lemma no_loss:
  assumes "(cstep api)\<^sup>*\<^sup>* (cstart (log s) s) c" "inv s"
  shows "(\<forall>e \<in> set (cs_queued c). (\<exists>e' \<in> set (log (cs_engine c)). entry_core e' = entry_core e) \<or> delivered c e) \<and>
    (\<forall>(p, e') \<in> set (cs_sent c). \<exists>e \<in> set (cs_queued c). p = we_PeerID e \<and> entry_core e' = entry_core e)"
proof -
  have c: "cinv c" using cinv_reach [OF assms(1) cinv_start [OF assms(2)]] .
  note C = cinvD [OF this]
  have "p = we_PeerID e'" "\<exists>e \<in> set (cs_queued c). entry_core e' = entry_core e"
    if "(p, e') \<in> set (cs_sent c)" for p e'
    using C(7,8) [OF that] by (auto simp: known_def)
  then have "\<exists>e \<in> set (cs_queued c). p = we_PeerID e \<and> entry_core e' = entry_core e"
    if "(p, e') \<in> set (cs_sent c)" for p e'
    using that core_eqD by metis
  moreover have "(\<exists>e' \<in> set (log (cs_engine c)). entry_core e' = entry_core e) \<or> delivered c e"
    if "e \<in> set (cs_queued c)" for e
    using C(9) [OF that] by (metis imageE)
  ultimately show ?thesis by blast
qed

end

section \<open>The functions are the runs of one goroutine\<close>

definition solo_step ::
  "'s wal_api \<Rightarrow> 'w env \<Rightarrow> (string \<Rightarrow> bool) \<Rightarrow> phase \<times> 's \<times> 'w \<Rightarrow> phase \<times> 's \<times> 'w" where
  "solo_step api env up psw =
     (let (ph, s, w) = psw;
          (okd, w1) = (case ph of Sending e _ _ \<Rightarrow> env_deliver env (we_PeerID e) e w | _ \<Rightarrow> (True, w));
          (ph1, s1, _) = tstep api up (env_now env w) (env_cancelled env w) okd s ph
      in (ph1, s1, w1))"

fun solo_run ::
  "'s wal_api \<Rightarrow> 'w env \<Rightarrow> (string \<Rightarrow> bool) \<Rightarrow> nat \<Rightarrow> phase \<times> 's \<times> 'w \<Rightarrow> phase \<times> 's \<times> 'w" where
  "solo_run api env up 0 psw = psw"
| "solo_run api env up (Suc n) psw = solo_run api env up n (solo_step api env up psw)"

lemma solo_run_add: "solo_run api env up (m + n) psw = solo_run api env up n (solo_run api env up m psw)"
  by (induction m arbitrary: psw) simp_all

lemma solo_deliver:
  "\<exists>n. solo_run api env up n (Begin e poll es, s, w) = (Loop poll es, deliver api env e (s, w))"
proof (cases "we_Retries e \<ge> MaxRetries")
  case True
  then show ?thesis by (intro exI [of _ 1]) (simp add: solo_step_def deliver_def)
next
  case False
  obtain r s1 where s1: "api_inflight api (env_now env w) s (we_ID e) = (r, s1)" by fastforce
  obtain okd w1 where d: "env_deliver env (we_PeerID e) e w = (okd, w1)" by fastforce
  show ?thesis
  proof (cases r)
    case (Inl er)
    then show ?thesis using False s1 by (intro exI [of _ 1]) (simp add: solo_step_def deliver_def)
  next
    case (Inr u)
    show ?thesis
    proof (cases okd)
      case True
      then show ?thesis using False s1 d Inr
        by (intro exI [of _ 4]) (simp add: solo_step_def deliver_def numeral_eq_Suc)
    next
      case f: False
      then show ?thesis using False s1 d Inr
        by (intro exI [of _ 3]) (simp add: solo_step_def deliver_def numeral_eq_Suc)
    qed
  qed
qed

lemma solo_one: "solo_run api env up 1 psw = solo_step api env up psw"
  by simp

lemma solo_loop:
  "\<exists>n. solo_run api env up n (Loop poll es, s, w) =
     (Finished, snd (if poll then poll_loop api env up es (s, w) else drain_loop api env es (s, w)))"
proof (induction es arbitrary: s w)
  case Nil
  then show ?case by (intro exI [of _ 1]) (simp add: solo_step_def)
next
  case (Cons e es)
  obtain s1 w1 where d: "deliver api env e (s, w) = (s1, w1)" by fastforce
  obtain n where n: "solo_run api env up n (Begin e poll es, s, w) = (Loop poll es, s1, w1)"
    using solo_deliver [of api env up e poll es s w] d by auto
  consider (canc) "env_cancelled env w" | (skip) "\<not> env_cancelled env w" "poll" "\<not> up (we_PeerID e)"
    | (go) "\<not> env_cancelled env w" "poll \<longrightarrow> up (we_PeerID e)" by blast
  then show ?case
  proof cases
    case canc
    then show ?thesis by (intro exI [of _ 1]) (simp add: solo_step_def)
  next
    case skip
    obtain m where "solo_run api env up m (Loop poll es, s, w) = (Finished, snd (poll_loop api env up es (s, w)))"
      using Cons.IH [of s w] skip(2) by auto
    then show ?thesis using skip by (intro exI [of _ "Suc m"]) (simp add: solo_step_def)
  next
    case go
    obtain m where m: "solo_run api env up m (Loop poll es, s1, w1) =
        (Finished, snd (if poll then poll_loop api env up es (s1, w1) else drain_loop api env es (s1, w1)))"
      using Cons.IH [of s1 w1] by blast
    have "solo_run api env up (Suc (n + m)) (Loop poll (e # es), s, w) =
        (Finished, snd (if poll then poll_loop api env up es (s1, w1) else drain_loop api env es (s1, w1)))"
      using go n m by (cases poll) (simp_all add: solo_run_add solo_step_def)
    then show ?thesis using go d by (intro exI [of _ "Suc (n + m)"]) auto
  qed
qed

section \<open>One goroutine, in detail\<close>

text \<open>An environment whose clock fits 64 bits and whose context is never cancelled.\<close>

definition env_ok :: "'w env \<Rightarrow> bool" where
  "env_ok env \<longleftrightarrow> (\<forall>w. in_int64 (env_now env w) \<and> \<not> env_cancelled env w)"

lemma env_okD: "env_ok env \<Longrightarrow> in_int64 (env_now env w)" "env_ok env \<Longrightarrow> \<not> env_cancelled env w"
  by (simp_all add: env_ok_def)

lemma id_set [simp]: "we_ID (set_status st now e) = we_ID e" "we_ID (set_retry now e) = we_ID e"
  by (simp_all add: set_status_def set_retry_def)

lemma peer_set [simp]: "we_PeerID (set_status st now e) = we_PeerID e" "we_PeerID (set_retry now e) = we_PeerID e"
  by (simp_all add: set_status_def set_retry_def)

lemma ids_update_log [simp]: "(\<And>e. we_ID (g e) = we_ID e) \<Longrightarrow> we_ID ` set (update_log i g es) = we_ID ` set es"
  unfolding set_update_log image_image by (rule image_cong) simp_all

lemma update_log_twice:
  "(\<And>e. we_ID (g e) = we_ID e) \<Longrightarrow> update_log i h (update_log i g es) = update_log i (\<lambda>e. h (g e)) es"
  by (induction es) (simp_all add: update_log_def)

lemma filter_update_log:
  "(\<And>e. we_ID (g e) = we_ID e) \<Longrightarrow> filter (\<lambda>e. we_ID e \<noteq> i) (update_log i g es) = filter (\<lambda>e. we_ID e \<noteq> i) es"
  by (induction es) (simp_all add: update_log_def)

lemma filter_others_update:
  "(\<And>e. e \<in> set es \<Longrightarrow> we_ID e = i \<Longrightarrow> \<not> P e \<and> \<not> P (g e)) \<Longrightarrow> filter P (update_log i g es) = filter P es"
  by (induction es) (auto simp: update_log_def)

text \<open>The retry that follows a failed delivery, and what a delivery does to the log.\<close>

definition deliver_log :: "'w env \<Rightarrow> wal_entry \<Rightarrow> 'w \<Rightarrow> wal_entry list \<Rightarrow> wal_entry list" where
  "deliver_log env e w es =
     (if we_Retries e \<ge> MaxRetries then update_log (we_ID e) (set_retry (env_now env w)) es
      else case env_deliver env (we_PeerID e) e w of
        (True, w1) \<Rightarrow> filter (\<lambda>x. we_ID x \<noteq> we_ID e) es
      | (False, w1) \<Rightarrow>
          update_log (we_ID e)
            (\<lambda>x. set_retry (env_now env w1) (set_status WALStatusInFlight (env_now env w) x)) es)"

definition deliver_world :: "'w env \<Rightarrow> wal_entry \<Rightarrow> 'w \<Rightarrow> 'w" where
  "deliver_world env e w =
     (if we_Retries e \<ge> MaxRetries then w else snd (env_deliver env (we_PeerID e) e w))"

context wal_engine_reliable begin

lemma deliver_spec:
  assumes env: "env_ok env" and r: "ready s" "inv s" and e: "we_ID e \<in> we_ID ` set (log s)"
  shows "\<exists>s'. deliver api env e (s, w) = (s', deliver_world env e w) \<and> ready s' \<and> inv s' \<and>
    log s' = deliver_log env e w (log s)"
proof (cases "we_Retries e \<ge> MaxRetries")
  case True
  obtain s1 where s1: "api_failed api (env_now env w) s (we_ID e) = (Inr (), s1)" "ready s1"
    using ready_failed [OF r env_okD(1) [OF env] e] by blast
  then show ?thesis using True failed_Inr [OF s1(1) r(2) env_okD(1) [OF env]]
    by (simp add: deliver_def deliver_world_def deliver_log_def)
next
  case False
  let ?i = "we_ID e"
  obtain s1 where s1: "api_inflight api (env_now env w) s ?i = (Inr (), s1)" "ready s1"
    using ready_inflight [OF r env_okD(1) [OF env] e] by blast
  have l1: "inv s1" "log s1 = update_log ?i (set_status WALStatusInFlight (env_now env w)) (log s)"
    using inflight_Inr [OF s1(1) r(2) env_okD(1) [OF env]] by simp_all
  have i1: "?i \<in> we_ID ` set (log s1)" using e l1 by simp
  obtain okd w1 where d: "env_deliver env (we_PeerID e) e w = (okd, w1)" by fastforce
  show ?thesis
  proof (cases okd)
    case True
    obtain s2 where s2: "api_done api (env_now env w1) s1 ?i = (Inr (), s2)" "ready s2"
      using ready_done [OF s1(2) l1(1) env_okD(1) [OF env] i1] by blast
    have l2: "inv s2" "log s2 = update_log ?i (set_status WALStatusDone (env_now env w1)) (log s1)"
      using done_Inr [OF s2(1) l1(1) env_okD(1) [OF env]] by simp_all
    obtain s3 where s3: "api_delete api s2 ?i = (Inr (), s3)" "ready s3"
      using ready_delete [OF s2(2) l2(1)] by blast
    have l3: "inv s3" "log s3 = filter (\<lambda>x. we_ID x \<noteq> ?i) (log s2)"
      using delete_Inr [OF s3(1) l2(1)] by simp_all
    show ?thesis using False True d s1 s2 s3 l1 l2 l3
      by (simp add: deliver_def deliver_world_def deliver_log_def filter_update_log)
  next
    case f: False
    obtain s2 where s2: "api_failed api (env_now env w1) s1 ?i = (Inr (), s2)" "ready s2"
      using ready_failed [OF s1(2) l1(1) env_okD(1) [OF env] i1] by blast
    show ?thesis using False f d s1 s2 l1 failed_Inr [OF s2(1) l1(1) env_okD(1) [OF env]]
      by (simp add: deliver_def deliver_world_def deliver_log_def update_log_twice)
  qed
qed

lemma drain_loop_success:
  assumes env: "env_ok env"
    and "ready s" "inv s" "set es \<subseteq> set (log s)" "distinct (map we_ID es)"
    and "\<And>e. e \<in> set es \<Longrightarrow> we_Retries e < MaxRetries"
    and "\<And>e w. e \<in> set es \<Longrightarrow> fst (env_deliver env (we_PeerID e) e w)"
  shows "\<exists>s'. drain_loop api env es (s, w) = (None, s', fold (\<lambda>e w. snd (env_deliver env (we_PeerID e) e w)) es w) \<and>
    inv s' \<and> ready s' \<and> log s' = filter (\<lambda>e. we_ID e \<notin> we_ID ` set es) (log s)"
  using assms(2-)
proof (induction es arbitrary: s w)
  case Nil
  then show ?case by simp
next
  case (Cons e es)
  have "we_ID e \<in> we_ID ` set (log s)" using Cons.prems(3) by auto
  from deliver_spec [OF env Cons.prems(1,2) this, of w]
  obtain s1 where s1: "deliver api env e (s, w) = (s1, deliver_world env e w)" "ready s1" "inv s1"
    "log s1 = deliver_log env e w (log s)" by blast
  have r: "we_Retries e < MaxRetries" using Cons.prems(5) by simp
  have l1: "log s1 = filter (\<lambda>x. we_ID x \<noteq> we_ID e) (log s)" and
    w1: "deliver_world env e w = snd (env_deliver env (we_PeerID e) e w)"
    using s1(4) r Cons.prems(6) [of e w] by (auto simp: deliver_log_def deliver_world_def split: prod.splits bool.splits)
  have sub: "set es \<subseteq> set (log s1)" using Cons.prems(3,4) by (auto simp: l1) (metis image_eqI)
  have dis: "distinct (map we_ID es)" using Cons.prems(4) by simp
  from Cons.IH [OF s1(2,3) sub dis Cons.prems(5,6), of "deliver_world env e w"]
  show ?case using s1(1) env_okD(2) [OF env] by (auto simp: w1 l1 intro: filter_cong)
qed

lemma drain_loop_exhausted:
  assumes env: "env_ok env"
    and "ready s" "inv s" "set es \<subseteq> set (log s)" "distinct (map we_ID es)" "\<And>e. e \<in> set es \<Longrightarrow> MaxRetries \<le> we_Retries e"
  shows "\<exists>s'. drain_loop api env es (s, w) = (None, s', w) \<and> inv s' \<and> ready s' \<and>
    log s' = map (\<lambda>e. if we_ID e \<in> we_ID ` set es then set_retry (env_now env w) e else e) (log s)"
  using assms(2-)
proof (induction es arbitrary: s)
  case Nil
  then show ?case by simp
next
  case (Cons e es)
  have "we_ID e \<in> we_ID ` set (log s)" using Cons.prems(3) by auto
  from deliver_spec [OF env Cons.prems(1,2) this, of w]
  obtain s1 where s1: "deliver api env e (s, w) = (s1, deliver_world env e w)" "ready s1" "inv s1"
    "log s1 = deliver_log env e w (log s)" by blast
  have r: "MaxRetries \<le> we_Retries e" using Cons.prems(5) by simp
  have l1: "log s1 = update_log (we_ID e) (set_retry (env_now env w)) (log s)" and w1: "deliver_world env e w = w"
    using s1(4) r by (simp_all add: deliver_log_def deliver_world_def)
  have nin: "we_ID e \<notin> we_ID ` set es" using Cons.prems(4) by simp
  have ne: "we_ID x \<noteq> we_ID e" if "x \<in> set es" for x using nin that by (metis image_eqI)
  have sub: "set es \<subseteq> set (log s1)"
  proof
    fix x assume x: "x \<in> set es"
    then have "x \<in> set (log s)" "we_ID x \<noteq> we_ID e" using Cons.prems(3) ne by auto
    then show "x \<in> set (log s1)" unfolding l1 set_update_log by force
  qed
  have dis: "distinct (map we_ID es)" using Cons.prems(4) by simp
  from Cons.IH [OF s1(2,3) sub dis Cons.prems(5)]
  obtain s' where s': "drain_loop api env es (s1, w) = (None, s', w)" "inv s'" "ready s'"
    "log s' = map (\<lambda>e. if we_ID e \<in> we_ID ` set es then set_retry (env_now env w) e else e) (log s1)" by auto
  have "log s' = map (\<lambda>x. if we_ID x \<in> we_ID ` set (e # es) then set_retry (env_now env w) x else x) (log s)"
    using nin by (auto simp: s'(4) l1 update_log_def)
  then show ?case using s1(1) s' env_okD(2) [OF env] by (auto simp: w1)
qed

end

text \<open>No two entries of the given lists share an identifier without sharing the peer.\<close>

definition same_peer :: "wal_entry list \<Rightarrow> wal_entry list \<Rightarrow> bool" where
  "same_peer es fs \<longleftrightarrow> (\<forall>a \<in> set es. \<forall>b \<in> set fs. we_ID a = we_ID b \<longrightarrow> we_PeerID a = we_PeerID b)"

context wal_engine begin

text \<open>A delivery touches one identifier only, whatever the storage and the peer do.\<close>

definition touches :: "string \<Rightarrow> 's \<Rightarrow> 's \<Rightarrow> bool" where
  "touches i s s' \<longleftrightarrow> inv s' \<and> filter (\<lambda>e. we_ID e \<noteq> i) (log s') = filter (\<lambda>e. we_ID e \<noteq> i) (log s) \<and>
     entry_core ` set (log s') \<subseteq> entry_core ` set (log s)"

lemma touches_trans: "touches i s s1 \<Longrightarrow> touches i s1 s2 \<Longrightarrow> touches i s s2"
  unfolding touches_def by (elim conjE) (intro conjI; simp)

lemma touches_update:
  assumes "inv s" "inv s'" "log s' = update_log i g (log s)" "\<And>e. we_ID (g e) = we_ID e" "\<And>e. entry_core (g e) = entry_core e"
  shows "touches i s s'"
  using assms by (simp add: touches_def filter_update_log core_update_image)

lemma touches_inflight: "inv s \<Longrightarrow> in_int64 now \<Longrightarrow> touches i s (snd (api_inflight api now s i))"
  using inflight_Inl [of now s i] inflight_Inr [of now s i]
  by (cases "api_inflight api now s i"; cases "fst (api_inflight api now s i)")
    (auto simp: touches_def filter_update_log core_update_image)

lemma touches_done: "inv s \<Longrightarrow> in_int64 now \<Longrightarrow> touches i s (snd (api_done api now s i))"
  using done_Inl [of now s i] done_Inr [of now s i]
  by (cases "api_done api now s i"; cases "fst (api_done api now s i)")
    (auto simp: touches_def filter_update_log core_update_image)

lemma touches_failed: "inv s \<Longrightarrow> in_int64 now \<Longrightarrow> touches i s (snd (api_failed api now s i))"
  using failed_Inl [of now s i] failed_Inr [of now s i]
  by (cases "api_failed api now s i"; cases "fst (api_failed api now s i)")
    (auto simp: touches_def filter_update_log core_update_image)

lemma touches_delete: "inv s \<Longrightarrow> touches i s (snd (api_delete api s i))"
  using delete_Inl [of s i] delete_Inr [of s i]
  by (cases "api_delete api s i"; cases "fst (api_delete api s i)") (auto simp: touches_def)

lemma touches_deliver:
  assumes env: "env_ok env" and inv: "inv s"
  shows "touches (we_ID e) s (fst (deliver api env e (s, w)))"
proof -
  let ?i = "we_ID e"
  note now = env_okD(1) [OF env]
  obtain r s1 where s1: "api_inflight api (env_now env w) s ?i = (r, s1)" by fastforce
  obtain okd w1 where d: "env_deliver env (we_PeerID e) e w = (okd, w1)" by fastforce
  have t1: "touches ?i s s1" using touches_inflight [OF inv now [of w], of ?i] s1 by simp
  then have i1: "inv s1" by (simp add: touches_def)
  let ?s2 = "snd (api_done api (env_now env w1) s1 ?i)"
  have t2: "touches ?i s1 ?s2" by (rule touches_done [OF i1 now])
  then have t3: "touches ?i ?s2 (snd (api_delete api ?s2 ?i))"
    by (intro touches_delete) (simp add: touches_def)
  note f = touches_failed [OF inv now, of ?i w] touches_failed [OF i1 now, of ?i w1]
  show ?thesis
    using t1 touches_trans [OF t1 f(2)] touches_trans [OF t1 touches_trans [OF t2 t3]] f(1)
    by (cases r; cases okd) (simp_all add: deliver_def s1 d)
qed

lemma touches_same_peer: "touches i s s' \<Longrightarrow> same_peer es (log s) \<Longrightarrow> same_peer es (log s')"
  unfolding same_peer_def
proof (intro ballI impI)
  fix a b assume t: "touches i s s'" and sp: "\<forall>a\<in>set es. \<forall>b\<in>set (log s). we_ID a = we_ID b \<longrightarrow> we_PeerID a = we_PeerID b"
    and a: "a \<in> set es" and b: "b \<in> set (log s')" and eq: "we_ID a = we_ID b"
  have "entry_core b \<in> entry_core ` set (log s)" using t b by (auto simp: touches_def)
  then obtain c where c: "c \<in> set (log s)" "entry_core b = entry_core c" by blast
  then show "we_PeerID a = we_PeerID b" using sp a eq core_eqD [OF c(2)] by simp
qed

lemma touches_filter:
  assumes "touches (we_ID e) s s'" "same_peer [e] (log s)" "we_PeerID e \<noteq> p"
  shows "filter (\<lambda>x. we_PeerID x = p) (log s') = filter (\<lambda>x. we_PeerID x = p) (log s)"
proof -
  have f: "filter (\<lambda>x. we_PeerID x = p) es = filter (\<lambda>x. we_PeerID x = p) (filter (\<lambda>x. we_ID x \<noteq> we_ID e) es)"
    if "same_peer [e] es" for es
    unfolding filter_filter by (rule filter_cong) (use that assms(3) in \<open>auto simp: same_peer_def\<close>)
  show ?thesis
    using f [OF assms(2)] f [OF touches_same_peer [OF assms(1,2)]] assms(1) unfolding touches_def by metis
qed

lemma poll_loop_offline:
  assumes "env_ok env" "\<not> up p"
  shows "inv s \<Longrightarrow> same_peer es (log s) \<Longrightarrow>
    filter (\<lambda>e. we_PeerID e = p) (log (fst (snd (poll_loop api env up es (s, w))))) = filter (\<lambda>e. we_PeerID e = p) (log s)"
proof (induction es arbitrary: s w)
  case Nil
  then show ?case by simp
next
  case (Cons e es)
  obtain s1 w1 where d: "deliver api env e (s, w) = (s1, w1)" by fastforce
  have t: "touches (we_ID e) s s1" using touches_deliver [OF assms(1) Cons.prems(1), of e w] d by simp
  have sp: "same_peer es (log s)" "same_peer [e] (log s)" using Cons.prems(2) by (simp_all add: same_peer_def)
  have i1: "inv s1" "same_peer es (log s1)" using t touches_same_peer [OF t sp(1)] by (simp_all add: touches_def)
  show ?case
  proof (cases "up (we_PeerID e)")
    case True
    then have "we_PeerID e \<noteq> p" using assms(2) by auto
    then show ?thesis using Cons.IH [OF i1] touches_filter [OF t sp(2)] env_okD(2) [OF assms(1)] True d by simp
  next
    case False
    then show ?thesis using Cons.IH [OF Cons.prems(1) sp(1)] env_okD(2) [OF assms(1)] by simp
  qed
qed

lemma same_peer_sub: "inv s \<Longrightarrow> set es \<subseteq> set (log s) \<Longrightarrow> same_peer es (log s)"
  using ids_distinct [of s] unfolding same_peer_def distinct_map by (metis inj_onD subsetD)

lemma tstep_touch:
  assumes "tstep api up now canc okd s ph = (ph', s', d)" "inv s" "in_int64 now"
  shows "(s' = s \<or> (\<exists>e \<in> set (holds ph). touches (we_ID e) s s')) \<and>
    set (holds ph') \<subseteq> set (holds ph) \<union> {e \<in> set (log s). we_Status e = WALStatusPending} \<and>
    (\<forall>(p, e) \<in> set d. e \<in> set (holds ph))"
proof -
  have t: "touches i s (snd (api_failed api now s i))" "touches i s (snd (api_done api now s i))"
    "touches i s (snd (api_delete api s i))" for i
    using touches_failed touches_done touches_delete assms(2,3) by blast+
  have f: "touches i s s1" if "api_inflight api now s i = (r, s1)" for i r s1
    using touches_inflight [OF assms(2,3), of i] that by simp
  have p: "x \<in> set (log s) \<and> we_Status x = WALStatusPending" if "api_pending api s q = (es, eo)" "x \<in> set es" for x q es eo
    using pending [OF assms(2) that(1)] that(2) by simp
  have a: "x \<in> set (log s) \<and> we_Status x = WALStatusPending" if "api_all_pending api s = (es, eo)" "x \<in> set es" for x es eo
    using all_pending [OF assms(2) that(1)] that(2) by simp
  show ?thesis
    using assms t f p a
    by (cases "(api, up, now, canc, okd, s, ph)" rule: tstep.cases)
      (auto split: prod.splits option.splits sum.splits if_splits)
qed

definition strands :: "'s cstate \<Rightarrow> string \<Rightarrow> (string \<times> wal_entry) list \<Rightarrow> entry_core \<Rightarrow> bool" where
  "strands c i sent co \<longleftrightarrow> cinv c \<and>
     (\<exists>e \<in> set (log (cs_engine c)). we_ID e = i \<and> we_Status e = WALStatusInFlight \<and> entry_core e = co) \<and>
     (\<forall>ph \<in> set (cs_threads c). \<forall>e \<in> set (holds ph). we_ID e \<noteq> i) \<and>
     filter (\<lambda>pe. we_ID (snd pe) = i) (cs_sent c) = sent"

lemma strands_thread:
  assumes st: "strands c i sent co" and n: "n < length (cs_threads c)" and now: "in_int64 now"
    and step: "tstep api up now canc okd (cs_engine c) (cs_threads c ! n) = (ph', s', d)"
  shows "strands (c\<lparr>cs_engine := s', cs_threads := (cs_threads c)[n := ph'], cs_sent := cs_sent c @ d\<rparr>) i sent co"
    (is "strands ?c i sent co")
proof -
  let ?ph = "cs_threads c ! n"
  have cinv: "cinv c" using st by (simp add: strands_def)
  note C = cinvD [OF cinv]
  note t = tstep_touch [OF step C(1) now]
  obtain e where e: "e \<in> set (log (cs_engine c))" "we_ID e = i" "we_Status e = WALStatusInFlight" "entry_core e = co"
    using st by (auto simp: strands_def)
  have notheld: "we_ID x \<noteq> i" if "ph \<in> set (cs_threads c)" "x \<in> set (holds ph)" for ph x
    using st that by (auto simp: strands_def)
  have ph: "?ph \<in> set (cs_threads c)" using n by simp
  have "e \<in> set (log s')"
  proof (cases "s' = cs_engine c")
    case False
    then obtain x where x: "x \<in> set (holds ?ph)" "touches (we_ID x) (cs_engine c) s'" using t by blast
    have "e \<in> set (filter (\<lambda>y. we_ID y \<noteq> we_ID x) (log (cs_engine c)))"
      using e notheld [OF ph x(1)] by auto
    then have "e \<in> set (filter (\<lambda>y. we_ID y \<noteq> we_ID x) (log s'))" using x(2) by (simp add: touches_def)
    then show ?thesis by simp
  qed (use e in simp)
  moreover have "we_ID x \<noteq> i" if "x \<in> set (holds ph')" for x
  proof -
    have "x \<in> set (holds ?ph) \<or> x \<in> set (log (cs_engine c)) \<and> we_Status x = WALStatusPending"
      using t that by blast
    then show ?thesis
    proof
      assume x: "x \<in> set (log (cs_engine c)) \<and> we_Status x = WALStatusPending"
      then have "x \<noteq> e" using e(3) by (auto simp: WALStatusPending_def WALStatusInFlight_def)
      moreover have "inj_on we_ID (set (log (cs_engine c)))" using ids_distinct [OF C(1)] by (simp add: distinct_map)
      ultimately show ?thesis using e(1,2) x by (auto dest: inj_onD)
    qed (rule notheld [OF ph])
  qed
  moreover have "filter (\<lambda>pe. we_ID (snd pe) = i) d = []"
    using t notheld [OF ph] by (fastforce simp: filter_empty_conv)
  moreover have "cinv ?c" by (rule cinv_thread [OF cinv n now step])
  ultimately show ?thesis
    using st e notheld set_update_subset_insert [of "cs_threads c" n ph']
    by (auto simp: strands_def)
qed

lemma strands_step:
  assumes "cstep api c c'" "strands c i sent co"
  shows "strands c' i sent co"
  using assms
proof (induction rule: cstep.induct)
  case (thread n c now canc okd ph s' d)
  then show ?case by (intro strands_thread)
next
  case (enqueue now c p q t e s')
  then have "cinv c" by (simp add: strands_def)
  then show ?case using enqueue cinv_enqueue [OF _ enqueue(1,2)] enqueue_Inr [OF enqueue(1) _ enqueue(2)] cinvD(1)
    by (auto simp: strands_def)
next
  case (enqueue_fails now c p q t er s')
  have "s' = cs_engine c" using enqueue_fails(1) by (rule enqueue_Inl)
  then show ?case using enqueue_fails.prems by simp
next
  case (mark_online c p)
  then show ?case using cinv_step [OF cstep.mark_online] by (auto simp: strands_def)
next
  case (mark_offline c p)
  then show ?case using cinv_step [OF cstep.mark_offline] by (auto simp: strands_def)
next
  case (drain c p)
  then show ?case using cinv_step [OF cstep.drain] by (auto simp: strands_def)
next
  case (tick c)
  then show ?case using cinv_step [OF cstep.tick] by (auto simp: strands_def)
next
  case (crash c)
  then show ?case using cinv_step [OF cstep.crash] by (auto simp: strands_def)
qed

lemma stranded:
  assumes "(cstep api)\<^sup>*\<^sup>* (cstart (log s) s) c" "inv s"
    and "e \<in> set (log (cs_engine c))" "we_Status e = WALStatusInFlight"
    and "(cstep api)\<^sup>*\<^sup>* (c\<lparr>cs_online := Map.empty, cs_threads := []\<rparr>) c'"
  shows "(\<exists>e' \<in> set (log (cs_engine c')). we_Status e' = WALStatusInFlight \<and> entry_core e' = entry_core e) \<and>
    filter (\<lambda>pe. we_ID (snd pe) = we_ID e) (cs_sent c') = filter (\<lambda>pe. we_ID (snd pe) = we_ID e) (cs_sent c)"
proof -
  let ?c = "c\<lparr>cs_online := Map.empty, cs_threads := []\<rparr>"
  have "cinv c" using cinv_reach [OF assms(1) cinv_start [OF assms(2)]] .
  then have "strands ?c (we_ID e) (filter (\<lambda>pe. we_ID (snd pe) = we_ID e) (cs_sent c)) (entry_core e)"
    using cinv_step [OF cstep.crash] assms(3,4) by (auto simp: strands_def)
  with assms(5) have "strands c' (we_ID e) (filter (\<lambda>pe. we_ID (snd pe) = we_ID e) (cs_sent c)) (entry_core e)"
    by (induction rule: rtranclp_induct) (auto intro: strands_step)
  then show ?thesis by (auto simp: strands_def)
qed

end

section \<open>Properties\<close>

text \<open>An engine with one operation queued, and an environment that records what it delivers.\<close>

definition busy_engine :: "((string, bytes) rbt \<times> nat) engine" where
  "busy_engine = demo_engine\<lparr>en_bolt := busy_store\<rparr>"

definition logging_env :: "(string \<times> wal_entry) list env" where
  "logging_env = \<lparr>env_now = (\<lambda>_. 1700000000), env_cancelled = (\<lambda>_. False),
     env_deliver = (\<lambda>p e w. (True, w @ [(p, e)]))\<rparr>"

lemma logging_env: "env_ok logging_env" "fst (env_deliver logging_env p e w)"
  by (simp_all add: env_ok_def logging_env_def in_int64_def int64_min_def int64_max_def)

lemma busy_engine:
  "engine_inv ref_ops busy_engine" "engine_log ref_ops busy_engine = [busy_entry]" "engine_ready busy_engine"
proof -
  show "engine_inv ref_ops busy_engine" "engine_log ref_ops busy_engine = [busy_entry]"
    by (simp_all add: engine_inv_def engine_log_def busy_engine_def busy_store)
  have "store_log ref_ops busy_store \<noteq> []" by (simp add: busy_store)
  then show "engine_ready busy_engine"
    by (auto simp: engine_ready_def busy_engine_def store_log_def split: bolt_handle.split_asm option.split_asm)
qed

text \<open>
  C3. Nothing queued is lost: in every state that any interleaving of goroutines, calls, storage
  failures and crashes reaches, each entry ever queued is still in the log or has been delivered
  successfully to its peer; and every delivery was of a queued entry, to the peer it was queued
  for, with the operation and payload it was queued with.
\<close>

theorem nothing_queued_is_lost:
  assumes "wal_bucket B" "engine_inv B e0" "(cstep (engine_api B))\<^sup>*\<^sup>* (cstart (engine_log B e0) e0) c"
  shows "(\<forall>e \<in> set (cs_queued c).
      (\<exists>e' \<in> set (engine_log B (cs_engine c)). entry_core e' = entry_core e) \<or> delivered c e) \<and>
    (\<forall>(p, e') \<in> set (cs_sent c). \<exists>e \<in> set (cs_queued c). p = we_PeerID e \<and> entry_core e' = entry_core e)"
  by (rule wal_engine.no_loss [OF engine_wal [OF assms(1)] assms(3,2)])

definition woken :: "((string, bytes) rbt \<times> nat) engine cstate" where
  "woken = (cstart (engine_log ref_ops busy_engine) busy_engine)
     \<lparr>cs_online := [''bob'' \<mapsto> True], cs_threads := [FetchPeer ''bob'']\<rparr>"

lemma woken: "cstep (engine_api ref_ops) (cstart (engine_log ref_ops busy_engine) busy_engine) woken"
  using cstep.mark_online [of "engine_api ref_ops" "cstart (engine_log ref_ops busy_engine) busy_engine" "''bob''"]
  by (simp add: woken_def cstart_def)

theorem nothing_queued_is_lost_witness:
  "busy_entry \<in> set (cs_queued woken) \<and>
    ((\<exists>e' \<in> set (engine_log ref_ops (cs_engine woken)). entry_core e' = entry_core busy_entry) \<or>
     delivered woken busy_entry)"
  using nothing_queued_is_lost [OF wal_bucket_ref busy_engine(1) r_into_rtranclp [of "cstep _", OF woken]]
  by (simp add: woken_def cstart_def busy_engine)



text \<open>
  What one delivery does when storage works: an entry below the retry limit leaves the log if
  the peer takes it, and otherwise goes back to pending with one more retry; an entry at the limit is
  not offered to the peer at all. Nothing else in the log changes.
\<close>

theorem deliver_outcomes:
  assumes "wal_bucket_reliable B" "env_ok env" "engine_ready eng" "engine_inv B eng" "e \<in> set (engine_log B eng)"
  shows "\<exists>eng' w'. deliver (engine_api B) env e (eng, w) = (eng', w') \<and> engine_inv B eng' \<and>
    (if we_Retries e \<ge> MaxRetries then
       w' = w \<and> engine_log B eng' = update_log (we_ID e) (set_retry (env_now env w)) (engine_log B eng)
     else case env_deliver env (we_PeerID e) e w of
       (True, w1) \<Rightarrow> w' = w1 \<and> engine_log B eng' = filter (\<lambda>x. we_ID x \<noteq> we_ID e) (engine_log B eng)
     | (False, w1) \<Rightarrow> w' = w1 \<and> engine_log B eng' =
         update_log (we_ID e) (set_retry (env_now env w1)) (engine_log B eng))"
proof -
  have eq: "set_retry t2 (set_status st t1 x) = set_retry t2 x" for t1 t2 st and x :: wal_entry
    by (simp add: set_retry_def set_status_def)
  have "we_ID e \<in> we_ID ` set (engine_log B eng)" using assms(5) by simp
  from wal_engine_reliable.deliver_spec [OF engine_wal_reliable [OF assms(1)] assms(2,3,4) this, of w]
  obtain eng' where d: "deliver (engine_api B) env e (eng, w) = (eng', deliver_world env e w)" "engine_inv B eng'"
    "engine_log B eng' = deliver_log env e w (engine_log B eng)" by blast
  show ?thesis
    by (rule exI [of _ eng'], rule exI [of _ "deliver_world env e w"])
      (use d in \<open>simp add: deliver_log_def deliver_world_def eq split: prod.split bool.split\<close>)
qed

theorem deliver_outcomes_witness:
  "\<exists>eng' w'. deliver (engine_api ref_ops) logging_env busy_entry (busy_engine, []) = (eng', w') \<and>
    engine_inv ref_ops eng' \<and>
    (if we_Retries busy_entry \<ge> MaxRetries then
       w' = [] \<and> engine_log ref_ops eng' =
         update_log (we_ID busy_entry) (set_retry (env_now logging_env [])) (engine_log ref_ops busy_engine)
     else case env_deliver logging_env (we_PeerID busy_entry) busy_entry [] of
       (True, w1) \<Rightarrow> w' = w1 \<and> engine_log ref_ops eng' =
         filter (\<lambda>x. we_ID x \<noteq> we_ID busy_entry) (engine_log ref_ops busy_engine)
     | (False, w1) \<Rightarrow> w' = w1 \<and> engine_log ref_ops eng' =
         update_log (we_ID busy_entry) (set_retry (env_now logging_env w1)) (engine_log ref_ops busy_engine))"
  by (rule deliver_outcomes [OF ref_wal.wal_bucket_reliable_axioms]) (simp_all add: logging_env busy_engine)

text \<open>
  A poll leaves the entries of a peer that is not online exactly as they are, whatever happens
  to the deliveries to the others.
\<close>

theorem offline_peer_untouched:
  assumes "wal_bucket B" "env_ok env" "engine_inv B eng" "\<not> up p"
  shows "filter (\<lambda>e. we_PeerID e = p) (engine_log B (fst (snd (pollAndDeliver (engine_api B) env up (eng, w))))) =
    filter (\<lambda>e. we_PeerID e = p) (engine_log B eng)"
proof -
  note w = engine_wal [OF assms(1)]
  obtain es er where r: "api_all_pending (engine_api B) eng = (es, er)" by fastforce
  have "set es \<subseteq> set (engine_log B eng)" using wal_engine.all_pending [OF w assms(3) r] by auto
  then have "same_peer es (engine_log B eng)" by (rule wal_engine.same_peer_sub [OF w assms(3)])
  then show ?thesis
    using wal_engine.poll_loop_offline [OF w assms(2), where up = up and p = p and s = eng and es = es] assms(3,4) r
    by (cases er) (simp_all add: pollAndDeliver_def del: engine_api_simps)
qed

theorem offline_peer_untouched_witness:
  "filter (\<lambda>e. we_PeerID e = ''bob'')
      (engine_log ref_ops (fst (snd (pollAndDeliver (engine_api ref_ops) logging_env (\<lambda>q. q = ''eve'') (busy_engine, []))))) =
    filter (\<lambda>e. we_PeerID e = ''bob'') (engine_log ref_ops busy_engine)"
  by (rule offline_peer_untouched [OF wal_bucket_ref]) (simp_all add: logging_env busy_engine)

text \<open>
  An entry that is in flight when the process crashes stays in flight in every state reachable
  afterwards: nothing resets it, so it is neither delivered again nor reported.
\<close>

theorem crash_strands_inflight:
  assumes "wal_bucket B" "engine_inv B e0" "(cstep (engine_api B))\<^sup>*\<^sup>* (cstart (engine_log B e0) e0) c"
    and "e \<in> set (engine_log B (cs_engine c))" "we_Status e = WALStatusInFlight"
    and "(cstep (engine_api B))\<^sup>*\<^sup>* (c\<lparr>cs_online := Map.empty, cs_threads := []\<rparr>) c'"
  shows "(\<exists>e' \<in> set (engine_log B (cs_engine c')). we_Status e' = WALStatusInFlight \<and> entry_core e' = entry_core e) \<and>
    filter (\<lambda>pe. we_ID (snd pe) = we_ID e) (cs_sent c') = filter (\<lambda>pe. we_ID (snd pe) = we_ID e) (cs_sent c)"
  by (rule wal_engine.stranded [OF engine_wal [OF assms(1)] assms(3,2,4-6)])

text \<open>A process that has just started to send the queued operation: three steps of its goroutine.\<close>

definition sending :: "((string, bytes) rbt \<times> nat) engine cstate" where
  "sending = woken
     \<lparr>cs_engine := snd (api_inflight (engine_api ref_ops) 1700000000 busy_engine (we_ID busy_entry)),
      cs_threads := [Sending busy_entry False []], cs_sent := []\<rparr>"

lemma sending:
  "(cstep (engine_api ref_ops))\<^sup>*\<^sup>* (cstart (engine_log ref_ops busy_engine) busy_engine) sending"
  "set_status WALStatusInFlight 1700000000 busy_entry \<in> set (engine_log ref_ops (cs_engine sending))"
proof -
  let ?api = "engine_api ref_ops :: ((string, bytes) rbt \<times> nat) engine wal_api" and ?t = "1700000000 :: int"
  have now: "in_int64 ?t" by (simp add: in_int64_def int64_min_def int64_max_def)
  have i: "we_ID busy_entry \<in> we_ID ` set (engine_log ref_ops busy_engine)" by (simp add: busy_engine)
  obtain e1 where e1: "api_inflight ?api ?t busy_engine (we_ID busy_entry) = (Inr (), e1)"
    using ref_log.ready_inflight [OF busy_engine(3,1) now i] by blast
  have "fst (api_pending ?api busy_engine ''bob'') = [busy_entry]" "snd (api_pending ?api busy_engine ''bob'') = None"
    using ref_wal.eng.pending [OF busy_engine(1) prod.collapse [symmetric], of "''bob''"]
      ref_log.ready_pending [OF busy_engine(3,1)]
    by (simp_all add: busy_engine busy_entry_def del: engine_api_simps)
  then have p: "api_pending ?api busy_engine ''bob'' = ([busy_entry], None)" by (metis prod.collapse)
  have r: "\<not> MaxRetries \<le> we_Retries busy_entry" by (simp add: busy_entry_def MaxRetries_def)
  have w: "cs_engine woken = busy_engine" "cs_threads woken = [FetchPeer ''bob'']" "cs_sent woken = []"
    by (simp_all add: woken_def cstart_def)
  let ?c1 = "woken\<lparr>cs_engine := busy_engine, cs_threads := [Loop False [busy_entry]], cs_sent := []\<rparr>"
  let ?c2 = "woken\<lparr>cs_engine := busy_engine, cs_threads := [Begin busy_entry False []], cs_sent := []\<rparr>"
  have s1: "cstep ?api woken ?c1"
    using cstep.thread [of 0 woken ?t ?api False True] now w p by (simp del: engine_api_simps)
  have s2: "cstep ?api ?c1 ?c2"
    using cstep.thread [of 0 ?c1 ?t ?api False True] now w by (simp del: engine_api_simps)
  have s3: "cstep ?api ?c2 sending"
    using cstep.thread [of 0 ?c2 ?t ?api False True] now w e1 r by (simp add: sending_def del: engine_api_simps)
  show "(cstep ?api)\<^sup>*\<^sup>* (cstart (engine_log ref_ops busy_engine) busy_engine) sending"
    using woken s1 s2 s3 by (meson converse_rtranclp_into_rtranclp rtranclp.rtrancl_refl)
  have "engine_log ref_ops e1 = update_log (we_ID busy_entry) (set_status WALStatusInFlight ?t) [busy_entry]"
    using ref_wal.eng.inflight_Inr [OF e1 busy_engine(1) now] by (simp add: busy_engine)
  then show "set_status WALStatusInFlight 1700000000 busy_entry \<in> set (engine_log ref_ops (cs_engine sending))"
    by (simp add: sending_def e1 update_log_def del: engine_api_simps)
qed

theorem crash_strands_inflight_witness:
  "(\<exists>e' \<in> set (engine_log ref_ops (cs_engine (sending\<lparr>cs_online := Map.empty, cs_threads := []\<rparr>))).
      we_Status e' = WALStatusInFlight \<and> entry_core e' = entry_core (set_status WALStatusInFlight 1700000000 busy_entry)) \<and>
    filter (\<lambda>pe. we_ID (snd pe) = we_ID (set_status WALStatusInFlight 1700000000 busy_entry))
        (cs_sent (sending\<lparr>cs_online := Map.empty, cs_threads := []\<rparr>)) =
      filter (\<lambda>pe. we_ID (snd pe) = we_ID (set_status WALStatusInFlight 1700000000 busy_entry)) (cs_sent sending)"
  by (rule crash_strands_inflight [OF wal_bucket_ref busy_engine(1) sending])
    (simp_all add: set_status_def)

text \<open>
  C33. Entries at the retry limit are never given up: a drain over them makes no delivery and leaves
  every one of them pending, with one more retry counted.
\<close>

theorem exhausted_entries_stay_pending:
  assumes "wal_bucket_reliable B" "env_ok env" "engine_ready eng" "engine_inv B eng"
    and "pend = filter (\<lambda>e. we_PeerID e = p \<and> we_Status e = WALStatusPending) (engine_log B eng)"
    and "\<forall>e \<in> set pend. MaxRetries \<le> we_Retries e"
  shows "\<exists>eng'. drainPeer (engine_api B) env p (eng, w) = (None, eng', w) \<and>
    engine_log B eng' = map (\<lambda>e. if e \<in> set pend then set_retry (env_now env w) e else e) (engine_log B eng) \<and>
    filter (\<lambda>e. we_PeerID e = p \<and> we_Status e = WALStatusPending) (engine_log B eng') =
      map (set_retry (env_now env w)) pend"
proof -
  let ?api = "engine_api B" and ?log = "engine_log B eng"
  note wr = engine_wal_reliable [OF assms(1)]
  then have w: "wal_engine ?api (engine_inv B) (engine_log B) (engine_used B)" by (rule wal_engine_reliable.axioms(1))
  have dis: "distinct (map we_ID ?log)" by (rule wal_engine.ids_distinct [OF w assms(4)])
  have api: "api_pending ?api eng p = (pend, None)"
    using wal_engine.pending [OF w assms(4), of p] wal_engine_reliable.ready_pending [OF wr assms(3,4), of p] assms(5)
    by (metis prod.collapse)
  have sub: "set pend \<subseteq> set ?log" and dp: "distinct (map we_ID pend)"
    using dis by (auto simp: assms(5) distinct_map_filter)
  from wal_engine_reliable.drain_loop_exhausted [OF wr assms(2-4) sub dp] assms(6)
  obtain eng' where eng': "drain_loop ?api env pend (eng, w) = (None, eng', w)"
    "engine_log B eng' = map (\<lambda>e. if we_ID e \<in> we_ID ` set pend then set_retry (env_now env w) e else e) ?log" by blast
  have inj: "inj_on we_ID (set ?log)" using dis by (simp add: distinct_map)
  have log': "engine_log B eng' = map (\<lambda>e. if e \<in> set pend then set_retry (env_now env w) e else e) ?log"
    unfolding eng'(2) using sub inj by (intro map_cong) (simp_all add: inj_on_image_mem_iff)
  have st: "we_Status (set_retry t e) = WALStatusPending" for t and e :: wal_entry by (simp add: set_retry_def)
  have flt: "filter (\<lambda>e. we_PeerID e = p \<and> we_Status e = WALStatusPending)
      (map (\<lambda>e. if we_PeerID e = p \<and> we_Status e = WALStatusPending then set_retry (env_now env w) e else e) es) =
    map (set_retry (env_now env w)) (filter (\<lambda>e. we_PeerID e = p \<and> we_Status e = WALStatusPending) es)" for es
    by (induction es) (simp_all add: st)
  have "engine_log B eng' = map (\<lambda>e. if we_PeerID e = p \<and> we_Status e = WALStatusPending
      then set_retry (env_now env w) e else e) ?log"
    unfolding log' by (rule map_cong) (simp_all add: assms(5))
  then have "filter (\<lambda>e. we_PeerID e = p \<and> we_Status e = WALStatusPending) (engine_log B eng') =
      map (set_retry (env_now env w)) pend"
    by (simp only: flt assms(5))
  then show ?thesis using eng'(1) log' by (simp add: drainPeer_def api del: engine_api_simps)
qed

text \<open>The queued operation after ten failed deliveries.\<close>

definition tired_engine :: "nat \<Rightarrow> ((string, bytes) rbt \<times> nat) engine" where
  "tired_engine n = ((\<lambda>e. snd (api_failed (engine_api ref_ops) 1700000000 e (we_ID busy_entry))) ^^ n) busy_engine"

definition tired_entry :: "nat \<Rightarrow> wal_entry" where
  "tired_entry n = (set_retry 1700000000 ^^ n) busy_entry"

lemma tired_entry: "we_ID (tired_entry n) = we_ID busy_entry" "we_PeerID (tired_entry n) = ''bob''"
  "we_Status (tired_entry n) = WALStatusPending" "n < 100 \<Longrightarrow> we_Retries (tired_entry n) = int n"
  by (induction n) (simp_all add: tired_entry_def busy_entry_def set_retry_def in_int64_def int64_min_def int64_max_def)

lemma tired_engine:
  "engine_inv ref_ops (tired_engine n) \<and> engine_ready (tired_engine n) \<and>
    engine_log ref_ops (tired_engine n) = [tired_entry n]"
proof (induction n)
  case 0
  show ?case by (simp add: tired_engine_def tired_entry_def busy_engine)
next
  case (Suc n)
  have now: "in_int64 1700000000" by (simp add: in_int64_def int64_min_def int64_max_def)
  have i: "we_ID busy_entry \<in> we_ID ` set (engine_log ref_ops (tired_engine n))" using Suc tired_entry(1) by simp
  obtain e1 where e1: "api_failed (engine_api ref_ops) 1700000000 (tired_engine n) (we_ID busy_entry) = (Inr (), e1)"
    "engine_ready e1"
    using ref_log.ready_failed [OF _ _ now i] Suc by blast
  have "tired_engine (Suc n) = e1" using e1(1) by (simp add: tired_engine_def del: engine_api_simps)
  then show ?case
    using ref_wal.eng.failed_Inr [OF e1(1) _ now] Suc e1(2) tired_entry(1) [of n]
    by (simp add: update_log_def) (simp add: tired_entry_def)
qed

theorem exhausted_entries_stay_pending_witness:
  "\<exists>eng'. drainPeer (engine_api ref_ops) logging_env ''bob'' (tired_engine 10, []) = (None, eng', []) \<and>
    engine_log ref_ops eng' =
      map (\<lambda>e. if e \<in> set [tired_entry 10] then set_retry (env_now logging_env []) e else e)
        (engine_log ref_ops (tired_engine 10)) \<and>
    filter (\<lambda>e. we_PeerID e = ''bob'' \<and> we_Status e = WALStatusPending) (engine_log ref_ops eng') =
      map (set_retry (env_now logging_env [])) [tired_entry 10]"
  by (rule exhausted_entries_stay_pending [OF ref_wal.wal_bucket_reliable_axioms])
    (simp_all add: logging_env tired_engine tired_entry MaxRetries_def)

text \<open>
  The functions of one goroutine are its runs: stepping a goroutine alone from its loop ends in
  \<open>Finished\<close> with the engine and the outside state that \<open>poll_loop\<close> or \<open>drain_loop\<close> computes.
\<close>

theorem loops_are_solo_runs:
  "(\<exists>n. solo_run api env up n (Loop True es, s, w) = (Finished, snd (poll_loop api env up es (s, w)))) \<and>
   (\<exists>n. solo_run api env up n (Loop False es, s, w) = (Finished, snd (drain_loop api env es (s, w))))"
  using solo_loop [of api env up True es s w] solo_loop [of api env up False es s w] by simp

end
