(* ===== verification/Utf8.thy ===== *)
theory Utf8
  imports Json
begin

text \<open>
  \<open>unicode/utf8\<close> as \<open>json.Marshal\<close> uses it: a string is read rune by rune (\<open>rune_len\<close> is the table of
  \<open>DecodeRune\<close>), and each byte at which no rune starts is replaced by U+FFFD. Lemmas: a valid string is kept, and
  what the program itself produces (base64, hexadecimal digits, printed JSON of these) is ASCII and so valid.
\<close>

text \<open>The length of a rune by its first byte, 0 for a byte that starts none; the bounds of its second byte.\<close>

definition rune_size :: "nat \<Rightarrow> nat" where
  "rune_size b = (if b < 128 then 1 else if 194 \<le> b \<and> b \<le> 223 then 2 else if 224 \<le> b \<and> b \<le> 239 then 3
     else if 240 \<le> b \<and> b \<le> 244 then 4 else 0)"

definition second_range :: "nat \<Rightarrow> nat \<times> nat" where
  "second_range b = (if b = 224 then (160, 191) else if b = 237 then (128, 159) else if b = 240 then (144, 191)
     else if b = 244 then (128, 143) else (128, 191))"

definition within :: "nat \<times> nat \<Rightarrow> char \<Rightarrow> bool" where
  "within r c \<longleftrightarrow> fst r \<le> byte_val c \<and> byte_val c \<le> snd r"

definition rune_len :: "string \<Rightarrow> nat" where
  "rune_len s = (case s of
     [] \<Rightarrow> 0
   | c # cs \<Rightarrow>
       (let n = rune_size (byte_val c) in
        if n \<le> 1 then n
        else case take (n - 1) cs of
            [] \<Rightarrow> 0
          | d # ds \<Rightarrow>
              if length ds = n - 2 \<and> within (second_range (byte_val c)) d \<and> list_all (within (128, 191)) ds then n else 0))"

definition rune_error :: string where "rune_error = [CHR 0xEF, CHR 0xBF, CHR 0xBD]"

fun to_utf8 :: "string \<Rightarrow> string" where
  "to_utf8 [] = []"
| "to_utf8 (c # cs) =
     (let n = rune_len (c # cs) in
      if n = 0 then rune_error @ to_utf8 cs else c # take (n - 1) cs @ to_utf8 (drop (n - 1) cs))"

fun utf8_valid :: "string \<Rightarrow> bool" where
  "utf8_valid [] = True"
| "utf8_valid (c # cs) = (let n = rune_len (c # cs) in n \<noteq> 0 \<and> utf8_valid (drop (n - 1) cs))"

lemma to_utf8_id: "utf8_valid s \<Longrightarrow> to_utf8 s = s"
  by (induction s rule: utf8_valid.induct) (simp_all add: Let_def)

text \<open>A string that is not valid changes, and each replaced byte makes it two bytes longer.\<close>

lemma to_utf8_longer: "length s \<le> length (to_utf8 s) \<and> (\<not> utf8_valid s \<longrightarrow> length s < length (to_utf8 s))"
proof (induction s rule: utf8_valid.induct)
  case (2 c cs)
  let ?n = "rune_len (c # cs)"
  have "length cs = length (take (?n - 1) cs) + length (drop (?n - 1) cs)" by simp
  then show ?case using 2 [OF refl] by (cases "?n = 0") (auto simp: Let_def rune_error_def)
qed simp

lemma to_utf8_iff: "to_utf8 s = s \<longleftrightarrow> utf8_valid s"
  using to_utf8_id to_utf8_longer [of s] by auto

section \<open>ASCII\<close>

definition ascii :: "string \<Rightarrow> bool" where
  "ascii s \<longleftrightarrow> list_all (\<lambda>c. byte_val c < 128) s"

lemma ascii_simps [simp]:
  "ascii []" "ascii (c # s) \<longleftrightarrow> byte_val c < 128 \<and> ascii s" "ascii (s @ t) \<longleftrightarrow> ascii s \<and> ascii t"
  by (simp_all add: ascii_def)

lemma ascii_utf8: "ascii s \<Longrightarrow> utf8_valid s"
  by (induction s rule: utf8_valid.induct) (auto simp: rune_len_def rune_size_def)

lemma ascii_concat: "(\<And>c. c \<in> set s \<Longrightarrow> ascii (f c)) \<Longrightarrow> ascii (concat (map f s))"
  by (induction s) auto

lemma ascii_hex_digit: "n < 16 \<Longrightarrow> byte_val (hex_digit n) < 128"
  by (simp add: hex_digit_def)

lemma ascii_hex: "ascii (hex_encode bs)"
  unfolding hex_encode_def by (rule ascii_concat) (simp add: ascii_hex_digit)

lemma ascii_b64: "ascii (b64_encode bs)"
  using b64_encode_plain [of bs] by (auto simp: ascii_def b64_plain_def list_all_iff)

lemma ascii_quote: "ascii s \<Longrightarrow> ascii (quote_str s)"
  unfolding quote_str_def by (auto simp: esc_def Let_def ascii_def list_all_iff ascii_hex_digit)

end
