(* ===== verification/Payload.thy ===== *)
theory Payload
  imports Engine Utf8
begin

text \<open>
  What \<open>internal/node\<close> and \<open>cmd/vault\<close> share: the payload of a queued transfer, a Go
  \<open>map[string]string\<close> that is written as JSON, and the identity that a process loads or makes when it
  starts (\<open>loadOrGenerateIdentity\<close>, of which each of the two packages has its own copy).

  Lemmas: a payload of valid UTF-8 comes back from the log as it was queued; the identity of a node is stable.
\<close>

section \<open>Payloads\<close>

type_synonym payload = "(string \<times> string) list"

text \<open>A missing key reads as the empty string.\<close>

definition payload_get :: "payload \<Rightarrow> string \<Rightarrow> string" where
  "payload_get p k = (case map_of p k of None \<Rightarrow> [] | Some v \<Rightarrow> v)"

text \<open>
  \<open>json.Marshal\<close> writes the keys of a map in order, and U+FFFD for each byte that is not part of a rune (it
  writes the JSON escape of that rune, here the rune itself stands: every reader takes them for the same string).
\<close>

definition payload_fields :: "payload \<Rightarrow> (string \<times> json) list" where
  "payload_fields p = map (\<lambda>kv. (to_utf8 (fst kv), JStr (to_utf8 (snd kv)))) (sort_key fst p)"

definition payload_utf8 :: "payload \<Rightarrow> bool" where
  "payload_utf8 p \<longleftrightarrow> list_all (\<lambda>kv. utf8_valid (fst kv) \<and> utf8_valid (snd kv)) p"

lemma payload_fields_utf8: "payload_utf8 p \<Longrightarrow> payload_fields p = map (\<lambda>kv. (fst kv, JStr (snd kv))) (sort_key fst p)"
  by (simp add: payload_fields_def payload_utf8_def list_all_iff to_utf8_id)

text \<open>\<open>json.Unmarshal\<close> into a map: \<open>null\<close> is the zero value, any other value that is no string an error.\<close>

fun conv_entry :: "json \<Rightarrow> string option" where
  "conv_entry JNull = Some []"
| "conv_entry v = conv_str v"

definition payload_of_fields :: "(string \<times> json) list \<Rightarrow> payload option" where
  "payload_of_fields kvs =
     (if list_all (\<lambda>kv. conv_entry (snd kv) \<noteq> None) kvs
      then Some (foldl (\<lambda>p kv. AList.update (fst kv) (the (conv_entry (snd kv))) p) [] kvs) else None)"

definition entry_payload :: "raw_message \<Rightarrow> payload option" where
  "entry_payload raw = Option.bind raw (unmarshal payload_of_fields)"

lemma foldl_update_new:
  "distinct (map fst kvs) \<Longrightarrow> fst ` set kvs \<inter> fst ` set p = {} \<Longrightarrow>
   foldl (\<lambda>p kv. AList.update (fst kv) (f (snd kv)) p) p kvs = p @ map (\<lambda>kv. (fst kv, f (snd kv))) kvs"
proof (induction kvs arbitrary: p)
  case (Cons kv kvs)
  have "AList.update (fst kv) (f (snd kv)) p = p @ [(fst kv, f (snd kv))]"
    using Cons.prems(2) by (intro update_new) auto
  moreover have "fst ` set kvs \<inter> fst ` set (p @ [(fst kv, f (snd kv))]) = {}"
    using Cons.prems by auto
  ultimately show ?case using Cons.IH Cons.prems(1) by simp
qed simp

lemma payload_sorted:
  assumes "distinct (map fst p)" and "payload_utf8 p"
  shows "payload_of_fields (payload_fields p) = Some (sort_key fst p)"
proof -
  note fields = payload_fields_utf8 [OF assms(2)]
  have d: "distinct (map fst (payload_fields p))"
    using assms(1) by (simp add: fields comp_def) (metis distinct_map mset_map mset_sort mset_eq_imp_distinct_iff)
  have ok: "list_all (\<lambda>kv. conv_entry (snd kv) \<noteq> None) (payload_fields p)" by (simp add: fields list_all_iff)
  have "map (\<lambda>kv. (fst kv, the (conv_entry (snd kv)))) (payload_fields p) = sort_key fst p"
    by (simp add: fields comp_def)
  then show ?thesis using foldl_update_new [OF d, of "[]" "\<lambda>v. the (conv_entry v)"] ok by (simp add: payload_of_fields_def)
qed

lemma payload_wf: "wf_members (payload_fields p)"
proof -
  have "wf_members (map (\<lambda>kv. (to_utf8 (fst kv), JStr (to_utf8 (snd kv)))) q)" for q :: payload by (induction q) auto
  then show ?thesis by (simp add: payload_fields_def)
qed

interpretation payload_json: json_struct payload_fields payload_of_fields
  "\<lambda>p. sorted (map fst p) \<and> distinct (map fst p) \<and> payload_utf8 p"
proof
  show "wf_members (payload_fields p)" for p by (rule payload_wf)
  show "payload_of_fields (payload_fields p) = Some p" if "sorted (map fst p) \<and> distinct (map fst p) \<and> payload_utf8 p" for p
    using that by (simp add: payload_sorted sort_key_id_if_sorted)
qed

lemma payload_sort_key:
  "distinct (map fst p) \<Longrightarrow> sorted (map fst (sort_key fst p)) \<and> distinct (map fst (sort_key fst p)) \<and> map_of (sort_key fst p) = map_of p"
proof -
  assume d: "distinct (map fst p)"
  have "mset (map fst (sort_key fst p)) = mset (map fst p)" by (metis mset_map mset_sort)
  then have d': "distinct (map fst (sort_key fst p))" using d by (metis mset_eq_imp_distinct_iff)
  then show ?thesis using d by (simp add: map_of_inject_set)
qed

text \<open>From the map through its JSON text and the log, which stores the text in compact form.\<close>

lemma payload_stored:
  assumes "distinct (map fst p)"
  shows "raw_valid (Some (marshal payload_fields p))"
    "payload_utf8 p \<Longrightarrow> entry_payload (we_Payload (canon_entry (e\<lparr>we_Payload := Some (marshal payload_fields p)\<rparr>))) = Some (sort_key fst p)"
    "payload_get (sort_key fst p) k = payload_get p k"
proof -
  note s = payload_sort_key [OF assms]
  have m: "marshal payload_fields p = marshal payload_fields (sort_key fst p)" using s by (simp add: marshal_def payload_fields_def sort_key_id_if_sorted)
  have r: "raw_valid (Some (marshal payload_fields p))" "raw_json (Some (marshal payload_fields p)) = JObj (payload_fields p)"
    using json_parse_print [of "JObj (payload_fields p)"] payload_wf by (simp_all add: raw_valid_def raw_json_def marshal_def)
  show "raw_valid (Some (marshal payload_fields p))" by (rule r)
  show "entry_payload (we_Payload (canon_entry (e\<lparr>we_Payload := Some (marshal payload_fields p)\<rparr>))) = Some (sort_key fst p)"
    if u: "payload_utf8 p"
  proof -
    have "payload_utf8 (sort_key fst p)" using u by (simp add: payload_utf8_def list_all_iff)
    then have "unmarshal payload_of_fields (marshal payload_fields p) = Some (sort_key fst p)"
      unfolding m using s by (intro payload_json.unmarshal_marshal) simp
    then show ?thesis by (simp add: canon_entry_def r(2) entry_payload_def) (simp add: marshal_def)
  qed
  show "payload_get (sort_key fst p) k = payload_get p k" using s by (simp add: payload_get_def)
qed

text \<open>The text of a token that \<open>IssueToken\<close> returns is ASCII.\<close>

lemma token_text_ascii:
  assumes "IssueToken C now i grantee sid perm ttl = Inr st"
  shows "ascii (MarshalToken st)"
proof -
  have "ascii (st_IssuerPubKey st)"
    using assms by (auto simp: IssueToken_def Let_def encodeKey_def ascii_hex rbind_Inr_iff)
  then show ?thesis by (simp add: MarshalToken_def marshal_def signed_fields_def ascii_quote ascii_b64)
qed

section \<open>The identity of a node\<close>

text \<open>\<open>ie_stat\<close> is whether the stat of an existing file succeeds.\<close>

record identity_env =
  ie_stat :: bool
  ie_mkdir :: bool
  ie_rnd :: "nat \<Rightarrow> bytes option"
  ie_writable :: "string \<Rightarrow> bool"

datatype identity_err = IdLoadErr crypto_err | IdDirErr | IdGenErr crypto_err | IdSaveErr

definition loadOrGenerateIdentity ::
  "crypto_ops \<Rightarrow> identity_env \<Rightarrow> string \<Rightarrow> files \<Rightarrow> (identity_err + identity) \<times> files" where
  "loadOrGenerateIdentity C env path fs =
     (if ie_stat env \<and> fs path \<noteq> None then
        (case LoadIdentity fs path of Inl e \<Rightarrow> (Inl (IdLoadErr e), fs) | Inr i \<Rightarrow> (Inr i, fs))
      else if \<not> ie_mkdir env then (Inl IdDirErr, fs)
      else case GenerateIdentity C (ie_rnd env) of
          Inl e \<Rightarrow> (Inl (IdGenErr e), fs)
        | Inr i \<Rightarrow>
            (case SaveIdentity (ie_writable env) path i fs of
               (saved, fs') \<Rightarrow> (if saved then Inr i else Inl IdSaveErr, fs')))"

text \<open>
  C29. The identity of a node is stable as long as \<open>os.Stat\<close> succeeds on its file: once \<open>loadOrGenerateIdentity\<close> has
  returned an identity, every later call for the same path whose stat succeeds returns the same one and writes
  nothing, and a call that finds a file does not change it. A call that finds none, and just so one whose stat of an
  existing file reports any error, makes a new identity and writes it over what is there; a generated identity has
  the public key that belongs to its private key.
\<close>

theorem identity_is_stable:
  assumes "ed_laws C" and "\<And>b. ie_rnd env 32 = Some b \<Longrightarrow> length b = 32"
    and "loadOrGenerateIdentity C env path fs = (Inr i, fs')"
  shows "(\<forall>env'. ie_stat env' \<longrightarrow> loadOrGenerateIdentity C env' path fs' = (Inr i, fs')) \<and>
    (if ie_stat env \<and> fs path \<noteq> None then fs' = fs else identity_ok C i \<and> fs' = fs(path \<mapsto> PrivateKey i))"
proof (cases "ie_stat env \<and> fs path \<noteq> None")
  case True
  then show ?thesis
    using assms(3) by (auto simp: loadOrGenerateIdentity_def LoadIdentity_def split: if_splits sum.splits option.splits)
next
  case False
  obtain seed where seed: "ie_rnd env 32 = Some seed" "i = \<lparr>PublicKey = ed_public C seed, PrivateKey = seed @ ed_public C seed\<rparr>"
    "fs' = fs(path \<mapsto> PrivateKey i)"
    using assms(3) False
    by (auto simp: loadOrGenerateIdentity_def GenerateIdentity_def SaveIdentity_def split: if_splits option.splits)
  have l: "length seed = 32" "length (ed_public C seed) = 32" using assms(1,2) seed(1) by (auto simp: ed_laws_def)
  have "loadOrGenerateIdentity C env' path fs' = (Inr i, fs')" if "ie_stat env'" for env'
    using that l by (simp add: loadOrGenerateIdentity_def LoadIdentity_def seed(2,3))
  moreover have "identity_ok C i" using l by (simp add: identity_ok_def seed(2))
  ultimately show ?thesis using False seed(3) by auto
qed

definition demo_identity_env :: identity_env where
  "demo_identity_env = \<lparr>ie_stat = True, ie_mkdir = True, ie_rnd = (\<lambda>n. Some (replicate n (CHR ''r''))), ie_writable = (\<lambda>_. True)\<rparr>"

theorem identity_is_stable_witness:
  "\<exists>i fs'. loadOrGenerateIdentity demo_crypto demo_identity_env ''id.key'' Map.empty = (Inr i, fs') \<and>
     loadOrGenerateIdentity demo_crypto demo_identity_env ''id.key'' fs' = (Inr i, fs') \<and> identity_ok demo_crypto i"
proof -
  obtain i fs' where g: "loadOrGenerateIdentity demo_crypto demo_identity_env ''id.key'' Map.empty = (Inr i, fs')"
    by (simp add: loadOrGenerateIdentity_def demo_identity_env_def GenerateIdentity_def SaveIdentity_def)
  have r: "length b = 32" if "ie_rnd demo_identity_env 32 = Some b" for b using that by (auto simp: demo_identity_env_def)
  show ?thesis using identity_is_stable [OF demo_laws(1) r g] g by (auto simp: demo_identity_env_def)
qed

end
