(* ===== verification/Relay.thy ===== *)
theory Relay
  imports Bolt Json "HOL-Library.AList" "HOL-Library.Monad_Syntax"
begin

text \<open>
  \<open>internal/relay\<close>: the store-and-forward relay (\<open>relay.go\<close>) and its client (\<open>client.go\<close>).

  The database is a list of named buckets, one per recipient, each a bbolt bucket given by the
  operations \<open>B\<close>. A connection is the byte stream the client writes; \<open>bufio.Scanner\<close> cuts it into
  lines of at most 65535 bytes and stops for good at a longer one. The record \<open>relay_lib\<close> holds
  what comes from the library: the JSON text of a \<open>time.Time\<close> and its reading, Go's \<open>%q\<close>, the text
  of a bbolt error, and what \<open>Bucket.Stats().KeyN\<close> reports within a transaction, given the bucket
  at its start and now. Whether a transaction commits is the argument \<open>commit\<close>.

  Lemmas: an inbox is a queue (push appends, pull empties), other inboxes are untouched, eviction
  removes exactly what expired; pushes and a pull over the wire deliver the data in order when it
  fits the line limit, and what happens when it does not.
\<close>

record 'm relay_lib =
  time_text :: "int \<Rightarrow> string"
  time_parse :: "string \<Rightarrow> int option"
  go_quote :: "string \<Rightarrow> string"
  bolt_msg :: string
  keyN :: "'m \<Rightarrow> 'm \<Rightarrow> nat"

definition MaxRelayChunk :: nat where "MaxRelayChunk = 8 * 1024 * 1024"

record relayed_chunk =
  rc_ChunkHash :: string
  rc_Data :: bytes
  rc_PushedAt :: int

text \<open>The zero \<open>time.Time\<close>, the first of January of year one.\<close>

definition zero_time :: int where "zero_time = - 62135596800000000000"

fun conv_time :: "'m relay_lib \<Rightarrow> json \<Rightarrow> int option" where
  "conv_time L (JStr s) = time_parse L s"
| "conv_time L _ = None"

definition chunk_fields :: "'m relay_lib \<Rightarrow> relayed_chunk \<Rightarrow> (string \<times> json) list" where
  "chunk_fields L c =
     [(''chunk_hash'', JStr (rc_ChunkHash c)), (''data'', JStr (b64_encode (rc_Data c))),
      (''pushed_at'', JStr (time_text L (rc_PushedAt c)))]"

definition chunk_of_fields :: "'m relay_lib \<Rightarrow> (string \<times> json) list \<Rightarrow> relayed_chunk option" where
  "chunk_of_fields L kvs = do {
     h \<leftarrow> str_field ''chunk_hash'' kvs;
     d \<leftarrow> bytes_field ''data'' kvs;
     t \<leftarrow> field_of (conv_time L) zero_time ''pushed_at'' kvs;
     Some \<lparr>rc_ChunkHash = h, rc_Data = d, rc_PushedAt = t\<rparr>
   }"

definition time_ok :: "'m relay_lib \<Rightarrow> int \<Rightarrow> bool" where
  "time_ok L t \<longleftrightarrow> time_parse L (time_text L t) = Some t"

interpretation chunk_json: json_struct "chunk_fields L" "chunk_of_fields L" "\<lambda>c. time_ok L (rc_PushedAt c)" for L
  by unfold_locales
    (simp_all add: chunk_fields_def chunk_of_fields_def time_ok_def field_simps_json b64_decode_encode)

section \<open>The server's inboxes\<close>

record 'm relay_server =
  rs_addr :: string
  rs_dbPath :: string
  rs_db :: "(string \<times> 'm) list option"
  rs_maxAge :: int

definition NewRelayServer :: "string \<Rightarrow> string \<Rightarrow> int \<Rightarrow> 'm relay_server" where
  "NewRelayServer addr path age = \<lparr>rs_addr = addr, rs_dbPath = path, rs_db = None, rs_maxAge = age\<rparr>"

datatype relay_err = RelayMkdirErr | RelayOpenErr | RelayBucketErr | RelayTooLarge nat | RelayBolt | RelayPanic

text \<open>\<open>Init\<close>: \<open>disk\<close> is the content of the database file when it opens.\<close>

definition relay_Init ::
  "bool \<Rightarrow> (string \<times> 'm) list option \<Rightarrow> bool \<Rightarrow> 'm relay_server \<Rightarrow> relay_err option \<times> 'm relay_server" where
  "relay_Init mkdir disk commit s =
     (if rs_db s \<noteq> None then (None, s)
      else if \<not> mkdir then (Some RelayMkdirErr, s)
      else case disk of
        None \<Rightarrow> (Some RelayOpenErr, s)
      | Some d \<Rightarrow> (if commit then None else Some RelayBucketErr, s\<lparr>rs_db := Some d\<rparr>))"

definition push_tx ::
  "('m, bytes) bucket_ops \<Rightarrow> 'm relay_lib \<Rightarrow> int \<Rightarrow> string \<Rightarrow> string \<Rightarrow> bytes \<Rightarrow> (string \<times> 'm) list
     \<Rightarrow> (string \<times> 'm) list option" where
  "push_tx B L now recipientID chunkHash data d =
     (if recipientID = [] then None
      else
        let m = (case map_of d recipientID of None \<Rightarrow> b_empty B | Some m \<Rightarrow> m);
            (seq, m1) = (case b_next B m of None \<Rightarrow> (0, m) | Some m1 \<Rightarrow> (b_seq B m1, m1));
            encoded = marshal (chunk_fields L) \<lparr>rc_ChunkHash = chunkHash, rc_Data = data, rc_PushedAt = now\<rparr>
        in (case b_put B m1 (pad10 seq) encoded of
              None \<Rightarrow> None
            | Some m2 \<Rightarrow> Some (AList.update recipientID m2 d)))"

definition Push ::
  "('m, bytes) bucket_ops \<Rightarrow> 'm relay_lib \<Rightarrow> bool \<Rightarrow> int \<Rightarrow> 'm relay_server \<Rightarrow> string \<Rightarrow> string \<Rightarrow> bytes
     \<Rightarrow> relay_err option \<times> 'm relay_server" where
  "Push B L commit now s recipientID chunkHash data =
     (if length data > MaxRelayChunk then (Some (RelayTooLarge (length data)), s)
      else case rs_db s of
        None \<Rightarrow> (Some RelayPanic, s)
      | Some d \<Rightarrow>
          (case push_tx B L now recipientID chunkHash data d of
             None \<Rightarrow> (Some RelayBolt, s)
           | Some d' \<Rightarrow> if commit then (None, s\<lparr>rs_db := Some d'\<rparr>) else (Some RelayBolt, s)))"

text \<open>The decodable values of a bucket, in key order.\<close>

definition bucket_chunks :: "('m, bytes) bucket_ops \<Rightarrow> 'm relay_lib \<Rightarrow> 'm \<Rightarrow> relayed_chunk list" where
  "bucket_chunks B L m = List.map_filter (\<lambda>kv. unmarshal (chunk_of_fields L) (snd kv)) (b_entries B m)"

text \<open>\<open>Pull\<close> ignores the outcome of the transaction: the chunks are returned in any case.\<close>

definition Pull ::
  "('m, bytes) bucket_ops \<Rightarrow> 'm relay_lib \<Rightarrow> bool \<Rightarrow> 'm relay_server \<Rightarrow> string
     \<Rightarrow> relayed_chunk list option \<times> 'm relay_server" where
  "Pull B L commit s peerID = (case rs_db s of
     None \<Rightarrow> (None, s)
   | Some d \<Rightarrow>
       (case map_of d peerID of
          None \<Rightarrow> (Some [], s)
        | Some m \<Rightarrow>
            (Some (bucket_chunks B L m), if commit then s\<lparr>rs_db := Some (AList.delete peerID d)\<rparr> else s)))"

definition InboxSize :: "'m relay_lib \<Rightarrow> 'm relay_server \<Rightarrow> string \<Rightarrow> nat option" where
  "InboxSize L s peerID = (case rs_db s of
     None \<Rightarrow> None
   | Some d \<Rightarrow> (case map_of d peerID of None \<Rightarrow> Some 0 | Some m \<Rightarrow> Some (keyN L m m)))"

section \<open>Eviction\<close>

definition expired_keys :: "('m, bytes) bucket_ops \<Rightarrow> 'm relay_lib \<Rightarrow> int \<Rightarrow> 'm \<Rightarrow> string list" where
  "expired_keys B L cutoff m =
     map fst (filter (\<lambda>kv. case unmarshal (chunk_of_fields L) (snd kv) of
         None \<Rightarrow> False | Some c \<Rightarrow> rc_PushedAt c < cutoff) (b_entries B m))"

definition del_all :: "('m, 'v) bucket_ops \<Rightarrow> string list \<Rightarrow> 'm \<Rightarrow> 'm" where
  "del_all B ks m = fold (\<lambda>k m. case b_del B m k of None \<Rightarrow> m | Some m' \<Rightarrow> m') ks m"

definition evict_tx ::
  "('m, bytes) bucket_ops \<Rightarrow> 'm relay_lib \<Rightarrow> int \<Rightarrow> (string \<times> 'm) list \<Rightarrow> (string \<times> 'm) list" where
  "evict_tx B L cutoff d = List.map_filter (\<lambda>(peer, m).
     let m' = del_all B (expired_keys B L cutoff m) m
     in if keyN L m m' = 0 then None else Some (peer, m')) d"

definition evict :: "('m, bytes) bucket_ops \<Rightarrow> 'm relay_lib \<Rightarrow> bool \<Rightarrow> int \<Rightarrow> 'm relay_server \<Rightarrow> 'm relay_server" where
  "evict B L commit now s = (case rs_db s of
     None \<Rightarrow> s
   | Some d \<Rightarrow> if commit then s\<lparr>rs_db := Some (evict_tx B L (now - rs_maxAge s) d)\<rparr> else s)"

section \<open>The wire protocol\<close>

record request =
  rq_Op :: string
  rq_PeerID :: string
  rq_ChunkHash :: string
  rq_Data :: string

record wire_chunk =
  wc_ChunkHash :: string
  wc_Data :: string

record response =
  rp_OK :: bool
  rp_Error :: string
  rp_Chunks :: "wire_chunk list"

definition omit_str :: "string \<Rightarrow> string \<Rightarrow> (string \<times> json) list" where
  "omit_str k s = (if s = [] then [] else [(k, JStr s)])"

definition request_fields :: "request \<Rightarrow> (string \<times> json) list" where
  "request_fields r =
     [(''op'', JStr (rq_Op r)), (''peer_id'', JStr (rq_PeerID r))]
     @ omit_str ''chunk_hash'' (rq_ChunkHash r) @ omit_str ''data'' (rq_Data r)"

definition request_of_fields :: "(string \<times> json) list \<Rightarrow> request option" where
  "request_of_fields kvs = do {
     p \<leftarrow> str_field ''op'' kvs;
     i \<leftarrow> str_field ''peer_id'' kvs;
     h \<leftarrow> str_field ''chunk_hash'' kvs;
     d \<leftarrow> str_field ''data'' kvs;
     Some \<lparr>rq_Op = p, rq_PeerID = i, rq_ChunkHash = h, rq_Data = d\<rparr>
   }"

definition wire_fields :: "wire_chunk \<Rightarrow> (string \<times> json) list" where
  "wire_fields w = [(''chunk_hash'', JStr (wc_ChunkHash w)), (''data'', JStr (wc_Data w))]"

definition wire_of_fields :: "(string \<times> json) list \<Rightarrow> wire_chunk option" where
  "wire_of_fields kvs = do {
     h \<leftarrow> str_field ''chunk_hash'' kvs;
     d \<leftarrow> str_field ''data'' kvs;
     Some \<lparr>wc_ChunkHash = h, wc_Data = d\<rparr>
   }"

fun conv_wire :: "json \<Rightarrow> wire_chunk option" where
  "conv_wire JNull = wire_of_fields []"
| "conv_wire (JObj kvs) = wire_of_fields kvs"
| "conv_wire _ = None"

fun conv_wires :: "json \<Rightarrow> wire_chunk list option" where
  "conv_wires (JArr vs) =
     (if list_all (\<lambda>v. conv_wire v \<noteq> None) vs then Some (map (\<lambda>v. the (conv_wire v)) vs) else None)"
| "conv_wires _ = None"

definition response_fields :: "response \<Rightarrow> (string \<times> json) list" where
  "response_fields r =
     [(''ok'', JBool (rp_OK r))] @ omit_str ''error'' (rp_Error r)
     @ (if rp_Chunks r = [] then [] else [(''chunks'', JArr (map (\<lambda>w. JObj (wire_fields w)) (rp_Chunks r)))])"

definition response_of_fields :: "(string \<times> json) list \<Rightarrow> response option" where
  "response_of_fields kvs = do {
     b \<leftarrow> bool_field ''ok'' kvs;
     e \<leftarrow> str_field ''error'' kvs;
     cs \<leftarrow> field_of conv_wires [] ''chunks'' kvs;
     Some \<lparr>rp_OK = b, rp_Error = e, rp_Chunks = cs\<rparr>
   }"

lemma wire_of_fields_fields [simp]: "wire_of_fields (wire_fields w) = Some w"
  by (simp add: wire_of_fields_def wire_fields_def field_simps_json)

lemma wf_wires [simp]: "wf_elems (map (\<lambda>w. JObj (wire_fields w)) ws)"
  by (induction ws) (simp_all add: wire_fields_def)

interpretation request_json: json_struct request_fields request_of_fields "\<lambda>_. True"
  by unfold_locales (simp_all add: request_fields_def request_of_fields_def omit_str_def field_simps_json)

interpretation response_json: json_struct response_fields response_of_fields "\<lambda>_. True"
  by unfold_locales
    (simp_all add: response_fields_def response_of_fields_def omit_str_def field_simps_json wf_wires
      list_all_iff comp_def)

text \<open>
  \<open>bufio.Scanner\<close> with its default 64 KiB buffer: the next line without its end-of-line marker and
  the rest, or nothing at the end of the input or at a line that does not fit the buffer.
\<close>

definition max_token :: nat where "max_token = 65536"

definition drop_cr :: "bytes \<Rightarrow> bytes" where
  "drop_cr l = (if l \<noteq> [] \<and> last l = CHR 0x0D then butlast l else l)"

definition scan_line :: "bytes \<Rightarrow> (bytes \<times> bytes) option" where
  "scan_line inp =
     (let l = takeWhile (\<lambda>c. c \<noteq> CHR 0x0A) inp in
      if inp = [] \<or> max_token \<le> length l then None
      else Some (drop_cr l, drop (Suc (length l)) inp))"

definition err_text :: "'m relay_lib \<Rightarrow> relay_err \<Rightarrow> string" where
  "err_text L e = (case e of
     RelayTooLarge n \<Rightarrow> ''chunk too large: '' @ fmt_int (int n) @ '' bytes''
   | _ \<Rightarrow> bolt_msg L)"

definition ok_response :: response where
  "ok_response = \<lparr>rp_OK = True, rp_Error = [], rp_Chunks = []\<rparr>"

definition fail_response :: "string \<Rightarrow> response" where
  "fail_response e = \<lparr>rp_OK = False, rp_Error = e, rp_Chunks = []\<rparr>"

definition wire_of_chunk :: "relayed_chunk \<Rightarrow> wire_chunk" where
  "wire_of_chunk c = \<lparr>wc_ChunkHash = rc_ChunkHash c, wc_Data = b64_encode (rc_Data c)\<rparr>"

definition handle_request ::
  "('m, bytes) bucket_ops \<Rightarrow> 'm relay_lib \<Rightarrow> bool \<Rightarrow> int \<Rightarrow> 'm relay_server \<Rightarrow> request \<Rightarrow> response \<times> 'm relay_server" where
  "handle_request B L commit now s req =
     (if rq_Op req = ''ping'' then (ok_response, s)
      else if rq_Op req = ''push'' then
        if rq_PeerID req = [] \<or> rq_ChunkHash req = [] \<or> rq_Data req = []
        then (fail_response ''push requires peer_id, chunk_hash, data'', s)
        else (case b64_decode (rq_Data req) of
            None \<Rightarrow> (fail_response ''invalid base64 data'', s)
          | Some data \<Rightarrow>
              (case Push B L commit now s (rq_PeerID req) (rq_ChunkHash req) data of
                 (Some e, s') \<Rightarrow> (fail_response (err_text L e), s')
               | (None, s') \<Rightarrow> (ok_response, s')))
      else if rq_Op req = ''pull'' then
        if rq_PeerID req = [] then (fail_response ''pull requires peer_id'', s)
        else (case Pull B L commit s (rq_PeerID req) of
            (None, s') \<Rightarrow> (fail_response (bolt_msg L), s')
          | (Some chunks, s') \<Rightarrow> (ok_response\<lparr>rp_Chunks := map wire_of_chunk chunks\<rparr>, s'))
      else (fail_response (''unknown op '' @ go_quote L (rq_Op req)), s))"

definition reply_line :: "response \<Rightarrow> bytes" where
  "reply_line r = marshal response_fields r @ [CHR 0x0A]"

text \<open>
  \<open>handleConn\<close> on the bytes \<open>inp\<close>: what it writes and the server afterwards. \<open>room\<close> is the number
  of responses the connection takes before writing fails, which ends the loop after the request has
  been carried out; the reply to invalid JSON is written without looking at the outcome.
\<close>

function handle_conn ::
  "('m, bytes) bucket_ops \<Rightarrow> 'm relay_lib \<Rightarrow> bool \<Rightarrow> int \<Rightarrow> nat \<Rightarrow> bytes \<Rightarrow> 'm relay_server \<Rightarrow> bytes \<times> 'm relay_server" where
  "handle_conn B L commit now room inp s =
     (case scan_line inp of
        None \<Rightarrow> ([], s)
      | Some (l, inp') \<Rightarrow>
          (case unmarshal request_of_fields l of
             None \<Rightarrow>
               (let (out, s') = handle_conn B L commit now (room - 1) inp' s
                in ((if room = 0 then [] else reply_line (fail_response ''invalid JSON'')) @ out, s'))
           | Some req \<Rightarrow>
               (let (resp, s1) = handle_request B L commit now s req in
                if room = 0 then ([], s1)
                else let (out, s2) = handle_conn B L commit now (room - 1) inp' s1
                     in (reply_line resp @ out, s2))))"
  by pat_completeness auto
termination
  by (relation "measure (\<lambda>(B, L, commit, now, room, inp, s). length inp)")
    (auto simp: scan_line_def Let_def split: if_splits)

declare handle_conn.simps [simp del]

section \<open>The client\<close>

datatype client_err = DialErr | WriteReqErr | NoResponse | DecodeErr | RelayError string | ChunkDecodeErr string

text \<open>\<open>doRequest\<close> and \<open>PullChunks\<close>, split at the network: the line they write, and how they read the answer.\<close>

definition request_line :: "request \<Rightarrow> bytes" where
  "request_line r = marshal request_fields r @ [CHR 0x0A]"

definition read_reply :: "bytes \<Rightarrow> client_err option" where
  "read_reply inp = (case scan_line inp of
     None \<Rightarrow> Some NoResponse
   | Some (l, _) \<Rightarrow>
       (case unmarshal response_of_fields l of
          None \<Rightarrow> Some DecodeErr
        | Some resp \<Rightarrow> if rp_OK resp then None else Some (RelayError (rp_Error resp))))"

fun decode_chunks :: "int \<Rightarrow> wire_chunk list \<Rightarrow> client_err + relayed_chunk list" where
  "decode_chunks now [] = Inr []"
| "decode_chunks now (w # ws) = (case b64_decode (wc_Data w) of
     None \<Rightarrow> Inl (ChunkDecodeErr (wc_ChunkHash w))
   | Some d \<Rightarrow> rbind (decode_chunks now ws) (\<lambda>cs.
       Inr (\<lparr>rc_ChunkHash = wc_ChunkHash w, rc_Data = d, rc_PushedAt = now\<rparr> # cs)))"

definition read_pull :: "int \<Rightarrow> bytes \<Rightarrow> client_err + relayed_chunk list" where
  "read_pull now inp = (case scan_line inp of
     None \<Rightarrow> Inl NoResponse
   | Some (l, _) \<Rightarrow>
       (case unmarshal response_of_fields l of
          None \<Rightarrow> Inl DecodeErr
        | Some resp \<Rightarrow>
            if rp_OK resp then decode_chunks now (rp_Chunks resp) else Inl (RelayError (rp_Error resp))))"

definition ping_request :: request where
  "ping_request = \<lparr>rq_Op = ''ping'', rq_PeerID = [], rq_ChunkHash = [], rq_Data = []\<rparr>"

definition push_request :: "string \<Rightarrow> string \<Rightarrow> bytes \<Rightarrow> request" where
  "push_request recipientID chunkHash data =
     \<lparr>rq_Op = ''push'', rq_PeerID = recipientID, rq_ChunkHash = chunkHash, rq_Data = b64_encode data\<rparr>"

definition pull_request :: "string \<Rightarrow> request" where
  "pull_request myPeerID = \<lparr>rq_Op = ''pull'', rq_PeerID = myPeerID, rq_ChunkHash = [], rq_Data = []\<rparr>"

text \<open>
  A client talking to this server. The network may refuse the connection or the write, or take any
  number of responses; the client closes the connection after the first answer.
\<close>

record link =
  ln_dial :: bool
  ln_write :: bool
  ln_room :: nat

definition exchange ::
  "('m, bytes) bucket_ops \<Rightarrow> 'm relay_lib \<Rightarrow> bool \<Rightarrow> int \<Rightarrow> link \<Rightarrow> request \<Rightarrow> (bytes \<Rightarrow> client_err + 'a)
     \<Rightarrow> 'm relay_server \<Rightarrow> (client_err + 'a) \<times> 'm relay_server" where
  "exchange B L commit now ln req rd s =
     (if \<not> ln_dial ln then (Inl DialErr, s)
      else if \<not> ln_write ln then (Inl WriteReqErr, s)
      else let (out, s') = handle_conn B L commit now (ln_room ln) (request_line req) s in (rd out, s'))"

definition as_sum :: "client_err option \<Rightarrow> client_err + unit" where
  "as_sum r = (case r of None \<Rightarrow> Inr () | Some e \<Rightarrow> Inl e)"

definition Ping ::
  "('m, bytes) bucket_ops \<Rightarrow> 'm relay_lib \<Rightarrow> bool \<Rightarrow> int \<Rightarrow> link \<Rightarrow> 'm relay_server \<Rightarrow> (client_err + unit) \<times> 'm relay_server" where
  "Ping B L commit now ln s = exchange B L commit now ln ping_request (\<lambda>out. as_sum (read_reply out)) s"

definition PushChunk ::
  "('m, bytes) bucket_ops \<Rightarrow> 'm relay_lib \<Rightarrow> bool \<Rightarrow> int \<Rightarrow> link \<Rightarrow> string \<Rightarrow> string \<Rightarrow> bytes \<Rightarrow> 'm relay_server
     \<Rightarrow> (client_err + unit) \<times> 'm relay_server" where
  "PushChunk B L commit now ln recipientID chunkHash data s =
     exchange B L commit now ln (push_request recipientID chunkHash data) (\<lambda>out. as_sum (read_reply out)) s"

definition PullChunks ::
  "('m, bytes) bucket_ops \<Rightarrow> 'm relay_lib \<Rightarrow> bool \<Rightarrow> int \<Rightarrow> link \<Rightarrow> string \<Rightarrow> 'm relay_server
     \<Rightarrow> (client_err + relayed_chunk list) \<times> 'm relay_server" where
  "PullChunks B L commit now ln myPeerID s =
     exchange B L commit now ln (pull_request myPeerID) (read_pull now) s"

section \<open>Lines\<close>

lemma scan_line_marshal:
  assumes "CHR 0x0A \<notin> set (marshal flds a)"
  shows "scan_line (marshal flds a @ CHR 0x0A # r) =
    (if length (marshal flds a) < max_token then Some (marshal flds a, r) else None)"
proof -
  have tw: "takeWhile (\<lambda>c. c \<noteq> CHR 0x0A) (marshal flds a @ CHR 0x0A # r) = marshal flds a"
    using assms by (subst takeWhile_append2) auto
  have "drop_cr (marshal flds a) = marshal flds a" using last_marshal [of flds a] by (simp add: drop_cr_def)
  then show ?thesis by (simp add: scan_line_def tw Let_def)
qed

lemma scan_request:
  "scan_line (request_line r) = (if length (marshal request_fields r) < max_token then Some (marshal request_fields r, []) else None)"
  unfolding request_line_def by (rule scan_line_marshal) (simp add: request_json.marshal_no_newline)

lemma scan_reply:
  "scan_line (reply_line r) = (if length (marshal response_fields r) < max_token then Some (marshal response_fields r, []) else None)"
  unfolding reply_line_def by (rule scan_line_marshal) (simp add: response_json.marshal_no_newline)

lemma handle_conn_end [simp]: "handle_conn B L commit now room [] s = ([], s)"
  by (simp add: handle_conn.simps scan_line_def)

lemma handle_one:
  "handle_conn B L commit now (Suc room) (request_line r) s =
     (if length (marshal request_fields r) < max_token
      then let (resp, s') = handle_request B L commit now s r in (reply_line resp, s')
      else ([], s))"
  by (subst handle_conn.simps) (simp add: scan_request request_json.unmarshal_marshal split: prod.split)

lemma read_reply_line:
  "read_reply (reply_line r) = (if length (marshal response_fields r) < max_token
     then if rp_OK r then None else Some (RelayError (rp_Error r)) else Some NoResponse)"
  by (simp add: read_reply_def scan_reply response_json.unmarshal_marshal)

lemma read_pull_line:
  "read_pull now (reply_line r) = (if length (marshal response_fields r) < max_token
     then if rp_OK r then decode_chunks now (rp_Chunks r) else Inl (RelayError (rp_Error r)) else Inl NoResponse)"
  by (simp add: read_pull_def scan_reply response_json.unmarshal_marshal)

lemma no_reply: "read_reply [] = Some NoResponse" "read_pull now [] = Inl NoResponse"
  by (simp_all add: read_reply_def read_pull_def scan_line_def)

lemma decode_wire:
  "decode_chunks now (map wire_of_chunk cs) = Inr (map (\<lambda>c. c\<lparr>rc_PushedAt := now\<rparr>) cs)"
  by (induction cs) (simp_all add: wire_of_chunk_def b64_decode_encode)

lemma ok_fits: "length (marshal response_fields ok_response) < max_token"
proof -
  have "length (marshal response_fields ok_response) = 11" by code_simp
  then show ?thesis by (simp add: max_token_def)
qed

text \<open>A request that fits a line carries less data than the server accepts.\<close>

lemma request_encodes: "length (b64_encode data) + 2 \<le> length (marshal request_fields (push_request p h data))"
  if "data \<noteq> []"
proof -
  have "length (b64_encode data) + 2 \<le> length (json_print (JStr (b64_encode data)))" by (simp add: quote_b64)
  also have "\<dots> < length (marshal request_fields (push_request p h data))"
    using that by (intro length_marshal [where k = "''data''"]) (simp add: request_fields_def push_request_def omit_str_def)
  finally show ?thesis by simp
qed

lemma request_carries: "length data + 2 \<le> length (marshal request_fields (push_request p h data))" if "data \<noteq> []"
proof -
  have "length data \<le> length (b64_encode data)" by (simp add: length_b64_encode)
  then show ?thesis using request_encodes [OF that, of p h] by simp
qed

lemma Push_maxAge: "rs_maxAge (snd (Push B L commit now s p h data)) = rs_maxAge s"
  by (simp add: Push_def split: option.split)

section \<open>Inboxes as queues\<close>

lemma map_of_map_filter:
  "distinct (map fst d) \<Longrightarrow>
     map_of (List.map_filter (\<lambda>(k, v). map_option (Pair k) (f k v)) d) q = Option.bind (map_of d q) (f q)"
proof (induction d)
  case (Cons kv d)
  then show ?case
    by (cases kv) (auto simp: List.map_filter_simps dom_map_of_conv_image_fst [symmetric] domIff split: option.split)
qed (simp add: List.map_filter_simps)

lemma fst_map_filter: "set (map fst (List.map_filter (\<lambda>(k, v). map_option (Pair k) (f k v)) d)) \<subseteq> set (map fst d)"
  by (induction d) (auto simp: List.map_filter_simps split: option.splits)

lemma distinct_map_filter:
  "distinct (map fst d) \<Longrightarrow> distinct (map fst (List.map_filter (\<lambda>(k, v). map_option (Pair k) (f k v)) d))"
proof (induction d)
  case (Cons kv d)
  then show ?case
    using fst_map_filter [of f d] by (cases kv) (auto simp: List.map_filter_simps split: option.split)
qed (simp add: List.map_filter_simps)

definition inbox :: "('m, bytes) bucket_ops \<Rightarrow> 'm relay_lib \<Rightarrow> 'm relay_server \<Rightarrow> string \<Rightarrow> relayed_chunk list" where
  "inbox B L s p = (case rs_db s of
     None \<Rightarrow> [] | Some d \<Rightarrow> (case map_of d p of None \<Rightarrow> [] | Some m \<Rightarrow> bucket_chunks B L m))"

definition inbox_seq :: "('m, bytes) bucket_ops \<Rightarrow> 'm relay_server \<Rightarrow> string \<Rightarrow> nat" where
  "inbox_seq B s p = (case rs_db s of
     None \<Rightarrow> 0 | Some d \<Rightarrow> (case map_of d p of None \<Rightarrow> 0 | Some m \<Rightarrow> b_seq B m))"

text \<open>An open server whose bucket names are distinct and whose buckets are numbered logs.\<close>

definition relay_ok :: "('m, bytes) bucket_ops \<Rightarrow> 'm relay_server \<Rightarrow> bool" where
  "relay_ok B s \<longleftrightarrow> (\<exists>d. rs_db s = Some d \<and> distinct (map fst d) \<and>
     (\<forall>(p, m) \<in> set d. \<forall>k \<in> dom (b_get B m). \<exists>n. k = pad10 n \<and> n \<le> b_seq B m))"

locale relay_store = kv_reliable B for B :: "('m, bytes) bucket_ops"
begin

lemma relay_ok_iff:
  "relay_ok B s \<longleftrightarrow> (\<exists>d. rs_db s = Some d \<and> distinct (map fst d) \<and> (\<forall>p m. (p, m) \<in> set d \<longrightarrow> seq_keys m))"
  unfolding relay_ok_def seq_keys_def by (simp add: Ball_def)

lemma relay_okD:
  assumes "relay_ok B s"
  shows "\<exists>d. rs_db s = Some d \<and> distinct (map fst d) \<and> (\<forall>p m. map_of d p = Some m \<longrightarrow> seq_keys m)"
  using assms unfolding relay_ok_iff by (blast dest: map_of_SomeD)

lemma relay_okI:
  assumes "rs_db s = Some d" "distinct (map fst d)" "\<And>p m. (p, m) \<in> set d \<Longrightarrow> seq_keys m"
  shows "relay_ok B s"
  using assms unfolding relay_ok_iff by blast

lemma push_ok:
  assumes ok: "relay_ok B s" and time: "time_ok L now" and p: "p \<noteq> []" and size: "length data \<le> MaxRelayChunk"
    and small: "inbox_seq B s p < 10 ^ 10 - 1"
  shows "\<exists>s'. Push B L True now s p h data = (None, s') \<and> relay_ok B s' \<and>
    inbox B L s' = (inbox B L s)(p := inbox B L s p @ [\<lparr>rc_ChunkHash = h, rc_Data = data, rc_PushedAt = now\<rparr>]) \<and>
    inbox_seq B s' p = Suc (inbox_seq B s p)"
proof -
  obtain d where d: "rs_db s = Some d" "distinct (map fst d)" "\<And>p m. map_of d p = Some m \<Longrightarrow> seq_keys m"
    using relay_okD [OF ok] by blast
  let ?c = "\<lparr>rc_ChunkHash = h, rc_Data = data, rc_PushedAt = now\<rparr>" and ?t = "marshal (chunk_fields L)"
  define m where "m = (case map_of d p of None \<Rightarrow> b_empty B | Some m \<Rightarrow> m)"
  have sk: "seq_keys m" using d(3) by (auto simp: m_def seq_keys_empty split: option.split)
  have seq: "inbox_seq B s p = b_seq B m" by (simp add: inbox_seq_def d m_def seq_empty split: option.split)
  have old: "inbox B L s p = bucket_chunks B L m"
    by (simp add: inbox_def d m_def bucket_chunks_def entries_empty List.map_filter_def split: option.split)
  obtain m1 where nx: "b_next B m = Some m1" using next_ok [of m] by blast
  obtain m2 where m2: "b_put B m1 (pad10 (b_seq B m1)) (?t ?c) = Some m2"
    using put_ok [of "pad10 (b_seq B m1)" m1 "?t ?c"] by auto
  let ?d = "AList.update p m2 d" and ?s = "s\<lparr>rs_db := Some (AList.update p m2 d)\<rparr>"
  have push: "Push B L True now s p h data = (None, ?s)"
    using size p d(1) nx m2 unfolding Push_def push_tx_def m_def by (simp add: Let_def)
  have ents: "b_entries B m2 = b_entries B m @ [(pad10 (b_seq B m1), ?t ?c)]"
    using put_next_last [OF sk nx m2] small seq seq_next [OF nx] by simp
  have "unmarshal (chunk_of_fields L) (?t ?c) = Some ?c" using time by (intro chunk_json.unmarshal_marshal) simp
  then have bc: "bucket_chunks B L m2 = bucket_chunks B L m @ [?c]"
    by (simp add: bucket_chunks_def ents List.map_filter_def)
  have "relay_ok B ?s"
  proof (rule relay_okI)
    show "distinct (map fst ?d)" using d(2) by (rule AList.distinct_update)
    show "seq_keys m'" if "(q, m') \<in> set ?d" for q m'
    proof -
      have "map_of ?d q = Some m'" using that \<open>distinct (map fst ?d)\<close> by simp
      then show ?thesis using d(3) put_next_seq [OF sk nx m2] by (auto simp: update_conv' split: if_splits)
    qed
  qed simp
  moreover have "inbox B L ?s = (inbox B L s)(p := inbox B L s p @ [?c])"
    by (rule ext) (simp add: inbox_def d update_conv' bc old [symmetric] inbox_def)
  moreover have "inbox_seq B ?s p = Suc (inbox_seq B s p)"
    unfolding seq by (simp add: inbox_seq_def update_conv' seq_put [OF m2] seq_next [OF nx])
  ultimately show ?thesis using push by blast
qed

lemma pull_ok:
  assumes ok: "relay_ok B s"
  shows "\<exists>s'. Pull B L True s p = (Some (inbox B L s p), s') \<and> relay_ok B s' \<and>
    inbox B L s' = (inbox B L s)(p := []) \<and> inbox_seq B s' p = 0"
proof -
  obtain d where d: "rs_db s = Some d" "distinct (map fst d)" "\<And>p m. map_of d p = Some m \<Longrightarrow> seq_keys m"
    using relay_okD [OF ok] by blast
  show ?thesis
  proof (cases "map_of d p")
    case None
    then show ?thesis using ok d by (auto simp: Pull_def inbox_def inbox_seq_def)
  next
    case (Some m)
    let ?s = "s\<lparr>rs_db := Some (AList.delete p d)\<rparr>"
    have dis: "distinct (map fst (AList.delete p d))" using d(2) by (rule distinct_delete)
    have "relay_ok B ?s"
    proof (rule relay_okI)
      show "seq_keys m'" if "(q, m') \<in> set (AList.delete p d)" for q m'
        using d(3) [of q m'] that dis by (auto simp: delete_conv' dest: map_of_is_SomeI split: if_splits)
    qed (use dis in simp_all)
    moreover have "inbox B L ?s = (inbox B L s)(p := [])"
      by (rule ext) (simp add: inbox_def d delete_conv')
    ultimately show ?thesis using Some d by (simp add: Pull_def inbox_def inbox_seq_def delete_conv')
  qed
qed

text \<open>Eviction: what is left of a bucket is its unexpired part, in the same order.\<close>

lemma entries_del_all: "b_entries B (del_all B ks m) = filter (\<lambda>kv. fst kv \<notin> set ks) (b_entries B m)"
proof (induction ks arbitrary: m)
  case (Cons k ks)
  obtain m' where m': "b_del B m k = Some m'" using del_ok [of m k] by blast
  have "b_entries B (del_all B (k # ks) m) = b_entries B (del_all B ks m')" by (simp add: del_all_def m')
  then show ?case
    unfolding Cons.IH entries_del [OF m'] filter_filter by (auto intro: filter_cong)
qed (simp add: del_all_def)

lemma seq_keys_del_all: "seq_keys m \<Longrightarrow> seq_keys (del_all B ks m)"
proof (induction ks arbitrary: m)
  case (Cons k ks)
  obtain m' where m': "b_del B m k = Some m'" using del_ok [of m k] by blast
  then show ?case using Cons.IH [OF seq_keys_del [OF Cons.prems m']] by (simp add: del_all_def)
qed (simp add: del_all_def)

lemma bucket_chunks_evicted:
  "bucket_chunks B L (del_all B (expired_keys B L cutoff m) m) =
     filter (\<lambda>c. \<not> rc_PushedAt c < cutoff) (bucket_chunks B L m)"
proof -
  let ?u = "\<lambda>kv. unmarshal (chunk_of_fields L) (snd kv)"
  let ?old = "\<lambda>kv. case ?u kv of None \<Rightarrow> False | Some c \<Rightarrow> rc_PushedAt c < cutoff"
  have one: "kv = kv'" if "kv \<in> set (b_entries B m)" "kv' \<in> set (b_entries B m)" "fst kv = fst kv'" for kv kv'
    using that distinct_keys [of m] by (metis eq_key_imp_eq_value prod.collapse)
  have "fst kv \<notin> set (expired_keys B L cutoff m) \<longleftrightarrow> \<not> ?old kv" if "kv \<in> set (b_entries B m)" for kv
    unfolding expired_keys_def set_map set_filter using one [OF that] that by blast
  then have "b_entries B (del_all B (expired_keys B L cutoff m) m) = filter (\<lambda>kv. \<not> ?old kv) (b_entries B m)"
    unfolding entries_del_all by (intro filter_cong) auto
  moreover have "List.map_filter ?u (filter (\<lambda>kv. \<not> ?old kv) xs) =
      filter (\<lambda>c. \<not> rc_PushedAt c < cutoff) (List.map_filter ?u xs)" for xs :: "(string \<times> bytes) list"
    by (induction xs) (simp_all add: List.map_filter_simps split: option.split)
  ultimately show ?thesis by (simp add: bucket_chunks_def)
qed

lemma evict_ok:
  assumes ok: "relay_ok B s"
    and keyN: "\<And>m m'. keyN L m m' = length (b_entries B m) \<or> keyN L m m' = length (b_entries B m')"
  shows "relay_ok B (evict B L True now s) \<and>
    inbox B L (evict B L True now s) p = filter (\<lambda>c. \<not> rc_PushedAt c < now - rs_maxAge s) (inbox B L s p)"
proof -
  obtain d where d: "rs_db s = Some d" "distinct (map fst d)" "\<And>p m. map_of d p = Some m \<Longrightarrow> seq_keys m"
    using relay_okD [OF ok] by blast
  let ?cut = "now - rs_maxAge s"
  let ?del = "\<lambda>m. del_all B (expired_keys B L ?cut m) m"
  let ?f = "\<lambda>m. if keyN L m (?del m) = 0 then None else Some (?del m)"
  have ev: "evict_tx B L ?cut d = List.map_filter (\<lambda>(q, m). map_option (Pair q) (?f m)) d"
    unfolding evict_tx_def by (intro arg_cong2 [where f = List.map_filter]) (auto simp: Let_def)
  have look: "map_of (evict_tx B L ?cut d) q = Option.bind (map_of d q) ?f" for q
    unfolding ev using map_of_map_filter [OF d(2), of "\<lambda>_. ?f" q] by simp
  have dis: "distinct (map fst (evict_tx B L ?cut d))"
    unfolding ev using distinct_map_filter [OF d(2), of "\<lambda>_. ?f"] by simp
  have new: "evict B L True now s = s\<lparr>rs_db := Some (evict_tx B L ?cut d)\<rparr>" by (simp add: evict_def d)
  have "relay_ok B (evict B L True now s)"
  proof (rule relay_okI)
    show "seq_keys m" if "(q, m) \<in> set (evict_tx B L ?cut d)" for q m
    proof -
      have "map_of (evict_tx B L ?cut d) q = Some m" using that dis by simp
      then obtain m0 where "map_of d q = Some m0" "m = ?del m0"
        unfolding look by (auto simp: Option.bind_eq_Some_conv split: if_splits)
      then show ?thesis using seq_keys_del_all d(3) by blast
    qed
  qed (use new dis in simp_all)
  moreover have "inbox B L (evict B L True now s) p = filter (\<lambda>c. \<not> rc_PushedAt c < ?cut) (inbox B L s p)"
  proof (cases "map_of d p")
    case (Some m)
    have "bucket_chunks B L (?del m) = []" if "keyN L m (?del m) = 0"
    proof -
      have "b_entries B (?del m) = []"
        using that keyN [of m "?del m"] by (auto simp: entries_del_all)
      then show ?thesis by (simp add: bucket_chunks_def List.map_filter_def)
    qed
    then show ?thesis
      using Some by (auto simp: new inbox_def look d bucket_chunks_evicted [symmetric])
  qed (simp add: new inbox_def look d)
  ultimately show ?thesis by blast
qed

end

interpretation ref_relay: relay_store ref_ops ..

section \<open>Properties\<close>

text \<open>An open server with an empty database, and clock readings that are printed as decimals.\<close>

definition demo_relay_lib :: "((string, bytes) rbt \<times> nat) relay_lib" where
  "demo_relay_lib = \<lparr>time_text = fmt_int, time_parse = parse_int64, go_quote = (\<lambda>s. s), bolt_msg = ''bolt'',
     keyN = (\<lambda>m m'. length (b_entries ref_ops m))\<rparr>"

definition demo_relay :: "((string, bytes) rbt \<times> nat) relay_server" where
  "demo_relay = \<lparr>rs_addr = '':9'', rs_dbPath = ''r.db'', rs_db = Some [], rs_maxAge = 10\<rparr>"

definition open_link :: link where
  "open_link = \<lparr>ln_dial = True, ln_write = True, ln_room = 1\<rparr>"

definition link_up :: "link \<Rightarrow> bool" where
  "link_up ln \<longleftrightarrow> ln_dial ln \<and> ln_write ln \<and> 0 < ln_room ln"

lemma demo_relay_facts:
  "link_up open_link" "relay_ok ref_ops demo_relay" "time_ok demo_relay_lib 5" "''bob'' \<noteq> []"
proof -
  show "time_ok demo_relay_lib 5" by code_simp
qed (simp_all add: link_up_def open_link_def relay_ok_def demo_relay_def)

lemma demo_pull_line: "length (marshal request_fields (pull_request ''bob'')) = 29" by code_simp

lemma demo_push:
  assumes "length data \<le> MaxRelayChunk"
  shows "\<exists>s. Push ref_ops demo_relay_lib True 5 demo_relay ''bob'' ''h'' data = (None, s) \<and> relay_ok ref_ops s \<and>
    inbox ref_ops demo_relay_lib s ''bob'' = [\<lparr>rc_ChunkHash = ''h'', rc_Data = data, rc_PushedAt = 5\<rparr>]"
proof -
  have seq: "inbox_seq ref_ops demo_relay ''bob'' < 10 ^ 10 - 1" by (simp add: inbox_seq_def demo_relay_def)
  have box: "inbox ref_ops demo_relay_lib demo_relay ''bob'' = []" by (simp add: inbox_def demo_relay_def)
  obtain s where "Push ref_ops demo_relay_lib True 5 demo_relay ''bob'' ''h'' data = (None, s)" "relay_ok ref_ops s"
    "inbox ref_ops demo_relay_lib s = (inbox ref_ops demo_relay_lib demo_relay)(''bob'' :=
       inbox ref_ops demo_relay_lib demo_relay ''bob'' @ [\<lparr>rc_ChunkHash = ''h'', rc_Data = data, rc_PushedAt = 5\<rparr>])"
    using ref_relay.push_ok [OF demo_relay_facts(2,3,4) assms seq] by blast
  then show ?thesis using box by auto
qed

text \<open>The line of a request, and of the answer to a pull of \<open>cs\<close>, fits the scanner's buffer.\<close>

definition fits_push :: "string \<Rightarrow> string \<Rightarrow> bytes \<Rightarrow> bool" where
  "fits_push p h data \<longleftrightarrow> length (marshal request_fields (push_request p h data)) < max_token"

definition fits_pull :: "string \<Rightarrow> relayed_chunk list \<Rightarrow> bool" where
  "fits_pull p cs \<longleftrightarrow> length (marshal request_fields (pull_request p)) < max_token \<and>
     length (marshal response_fields (ok_response\<lparr>rp_Chunks := map wire_of_chunk cs\<rparr>)) < max_token"

lemma exchange_one:
  assumes "link_up ln"
  shows "exchange B L commit now ln r rd s =
    (if length (marshal request_fields r) < max_token
     then let (resp, s') = handle_request B L commit now s r in (rd (reply_line resp), s')
     else (rd [], s))"
proof -
  obtain n where "ln_room ln = Suc n" using assms by (auto simp: link_up_def gr0_conv_Suc)
  then show ?thesis using assms by (simp add: exchange_def link_up_def handle_one split: prod.split)
qed

lemma PushChunk_appends:
  assumes B: "kv_reliable B" and up: "link_up ln" and ok: "relay_ok B s" and time: "time_ok L now"
    and ne: "p \<noteq> []" "h \<noteq> []" "data \<noteq> []" and fits: "fits_push p h data"
    and small: "inbox_seq B s p < 10 ^ 10 - 1"
  shows "\<exists>s'. PushChunk B L True now ln p h data s = (Inr (), s') \<and> relay_ok B s' \<and>
    inbox B L s' = (inbox B L s)(p := inbox B L s p @ [\<lparr>rc_ChunkHash = h, rc_Data = data, rc_PushedAt = now\<rparr>]) \<and>
    inbox_seq B s' p = Suc (inbox_seq B s p)"
proof -
  have len: "length (marshal request_fields (push_request p h data)) < max_token" using fits by (simp add: fits_push_def)
  have "length data \<le> MaxRelayChunk"
    using request_carries [OF ne(3), of p h] len by (simp add: MaxRelayChunk_def max_token_def)
  from relay_store.push_ok [OF relay_store.intro [OF B] ok time ne(1) this small]
  obtain s' where s': "Push B L True now s p h data = (None, s')" "relay_ok B s'"
    "inbox B L s' = (inbox B L s)(p := inbox B L s p @ [\<lparr>rc_ChunkHash = h, rc_Data = data, rc_PushedAt = now\<rparr>])"
    "inbox_seq B s' p = Suc (inbox_seq B s p)" by blast
  have "b64_encode data \<noteq> []" using ne(3) by (metis b64_decode_encode b64_encode.simps(1) option.inject)
  then have "handle_request B L True now s (push_request p h data) = (ok_response, s')"
    using ne s'(1) by (simp add: handle_request_def push_request_def b64_decode_encode)
  then have "PushChunk B L True now ln p h data s = (Inr (), s')"
    using ok_fits by (simp add: PushChunk_def exchange_one [OF up] len read_reply_line as_sum_def ok_response_def)
  then show ?thesis using s' by blast
qed

lemma PullChunks_drains:
  assumes B: "kv_reliable B" and up: "link_up ln" and ok: "relay_ok B s" and ne: "p \<noteq> []"
    and len: "length (marshal request_fields (pull_request p)) < max_token"
  shows "\<exists>s'. PullChunks B L True now ln p s =
      (if fits_pull p (inbox B L s p) then Inr (map (\<lambda>c. c\<lparr>rc_PushedAt := now\<rparr>) (inbox B L s p)) else Inl NoResponse, s') \<and>
    relay_ok B s' \<and> inbox B L s' = (inbox B L s)(p := []) \<and> inbox_seq B s' p = 0"
proof -
  from relay_store.pull_ok [OF relay_store.intro [OF B] ok]
  obtain s' where s': "Pull B L True s p = (Some (inbox B L s p), s')" "relay_ok B s'"
    "inbox B L s' = (inbox B L s)(p := [])" "inbox_seq B s' p = 0" by blast
  have "handle_request B L True now s (pull_request p) =
      (ok_response\<lparr>rp_Chunks := map wire_of_chunk (inbox B L s p)\<rparr>, s')"
    using ne s'(1) by (simp add: handle_request_def pull_request_def)
  then show ?thesis
    using s' by (simp add: PullChunks_def exchange_one [OF up] len read_pull_line fits_pull_def decode_wire ok_response_def)
qed

text \<open>A sender that pushes one chunk after the other, stopping at the first error.\<close>

fun push_each ::
  "('m, bytes) bucket_ops \<Rightarrow> 'm relay_lib \<Rightarrow> bool \<Rightarrow> int \<Rightarrow> link \<Rightarrow> string \<Rightarrow> (string \<times> bytes) list \<Rightarrow> 'm relay_server
     \<Rightarrow> (client_err + unit) \<times> 'm relay_server" where
  "push_each B L commit now ln p [] s = (Inr (), s)"
| "push_each B L commit now ln p ((h, data) # cs) s = (case PushChunk B L commit now ln p h data s of
     (Inl e, s') \<Rightarrow> (Inl e, s')
   | (Inr _, s') \<Rightarrow> push_each B L commit now ln p cs s')"

lemma push_each_appends:
  assumes "kv_reliable B" "link_up ln" "relay_ok B s" "time_ok L now" "p \<noteq> []"
    and "\<And>h data. (h, data) \<in> set cs \<Longrightarrow> h \<noteq> [] \<and> data \<noteq> [] \<and> fits_push p h data"
    and "inbox_seq B s p + length cs < 10 ^ 10"
  shows "\<exists>s'. push_each B L True now ln p cs s = (Inr (), s') \<and> relay_ok B s' \<and>
    inbox B L s' = (inbox B L s)(p := inbox B L s p @
      map (\<lambda>(h, data). \<lparr>rc_ChunkHash = h, rc_Data = data, rc_PushedAt = now\<rparr>) cs)"
  using assms(3,6,7)
proof (induction cs arbitrary: s)
  case (Cons hd cs)
  obtain h data where hd: "hd = (h, data)" by (cases hd)
  have prem: "h \<noteq> []" "data \<noteq> []" "fits_push p h data" using Cons.prems(2) [of h data] hd by auto
  have small: "inbox_seq B s p < 10 ^ 10 - 1" using Cons.prems(3) by simp
  obtain s1 where s1: "PushChunk B L True now ln p h data s = (Inr (), s1)" "relay_ok B s1"
    "inbox B L s1 = (inbox B L s)(p := inbox B L s p @ [\<lparr>rc_ChunkHash = h, rc_Data = data, rc_PushedAt = now\<rparr>])"
    "inbox_seq B s1 p = Suc (inbox_seq B s p)"
    using PushChunk_appends [OF assms(1,2) Cons.prems(1) assms(4,5) prem small] by blast
  have "\<exists>s'. push_each B L True now ln p cs s1 = (Inr (), s') \<and> relay_ok B s' \<and>
    inbox B L s' = (inbox B L s1)(p := inbox B L s1 p @
      map (\<lambda>(h, data). \<lparr>rc_ChunkHash = h, rc_Data = data, rc_PushedAt = now\<rparr>) cs)"
    using Cons.prems(2,3) s1(4) by (intro Cons.IH [OF s1(2)]) auto
  then show ?case using s1(1,3) hd by auto
qed auto

lemma length_print_elems: "sum_list (map (\<lambda>v. length (json_print v)) vs) \<le> length (print_elems vs)"
proof (induction vs)
  case (Cons v vs)
  then show ?case by (auto simp: print_elems_Cons)
qed simp

text \<open>Bounds for the line of a push.\<close>

lemma length_quote_le: "length (quote_str s) \<le> 6 * length s + 2"
proof -
  have "length (esc c) \<le> 6" for c by (simp add: esc_def Let_def)
  then have "length (concat (map esc s)) \<le> 6 * length s" by (induction s) (auto intro: add_mono)
  then show ?thesis by (simp add: quote_str_def)
qed

lemma key_lengths: "length (quote_str ''op'') = 4" "length (quote_str ''push'') = 6" "length (quote_str ''pull'') = 6"
  "length (quote_str ''peer_id'') = 9" "length (quote_str ''chunk_hash'') = 12" "length (quote_str ''data'') = 6"
  "length (quote_str ''ok'') = 4" "length (quote_str ''chunks'') = 8" "length (quote_str ''transfer_id'') = 13"
  "length (quote_str ''file_name'') = 11" "length (quote_str ''total_size'') = 12" "length (quote_str ''chunk_count'') = 13"
  "length (quote_str ''space_id'') = 10"
  by code_simp+

lemma push_line:
  "length (marshal request_fields (push_request p h data)) \<le>
     100 + length (quote_str p) + length (quote_str h) + length (b64_encode data)"
  by (simp add: marshal_def request_fields_def push_request_def omit_str_def print_members_Cons key_lengths quote_b64)

text \<open>The answer to a pull holds the base64 text of every chunk.\<close>

lemma response_carries:
  "sum_list (map (\<lambda>c. length (b64_encode (rc_Data c))) cs) \<le> length (marshal response_fields (ok_response\<lparr>rp_Chunks := map wire_of_chunk cs\<rparr>))"
proof (cases "cs = []")
  case False
  let ?w = "\<lambda>c. JObj (wire_fields (wire_of_chunk c))"
  have one: "length (b64_encode (rc_Data c)) \<le> length (json_print (?w c))" for c
  proof -
    have "length (b64_encode (rc_Data c)) \<le> length (json_print (JStr (b64_encode (rc_Data c))))" by (simp add: quote_b64)
    also have "\<dots> \<le> length (json_print (?w c))"
      using length_marshal [where fields = wire_fields and a = "wire_of_chunk c" and k = "''data''"]
      by (simp add: wire_fields_def wire_of_chunk_def marshal_def)
    finally show ?thesis .
  qed
  have "sum_list (map (\<lambda>c. length (b64_encode (rc_Data c))) cs) \<le> sum_list (map (\<lambda>v. length (json_print v)) (map ?w cs))"
    unfolding map_map comp_def by (rule sum_list_mono) (rule one)
  also have "\<dots> \<le> length (json_print (JArr (map ?w cs)))" using length_print_elems [of "map ?w cs"] by simp
  also have "\<dots> \<le> length (marshal response_fields (ok_response\<lparr>rp_Chunks := map wire_of_chunk cs\<rparr>))"
    using False by (intro less_imp_le length_marshal [where k = "''chunks''"]) (simp add: response_fields_def ok_response_def)
  finally show ?thesis .
qed simp

lemma base64_total: "4 * sum_list (map length ds) \<le> 3 * sum_list (map (\<lambda>d. length (b64_encode d)) ds)"
proof (induction ds)
  case (Cons d ds)
  have "4 * length d \<le> 3 * length (b64_encode d)" unfolding length_b64_encode by presburger
  then show ?case using Cons by simp
qed simp

text \<open>C18. A sender pushes chunks for an offline recipient one after the other; the recipient then
  pulls. As long as the request lines and the response line fit 64 KiB, the recipient gets what was
  waiting followed by exactly the pushed chunks in the order they were sent, its inbox is empty
  afterwards, and the inbox of every other peer is unchanged.\<close>

theorem relay_delivers:
  assumes B: "kv_reliable B" and up: "link_up ln" and ok: "relay_ok B s" and time: "time_ok L now" and ne: "p \<noteq> []"
    and fits: "\<And>h data. (h, data) \<in> set cs \<Longrightarrow> h \<noteq> [] \<and> data \<noteq> [] \<and> fits_push p h data"
    and small: "inbox_seq B s p + length cs < 10 ^ 10"
    and pull: "fits_pull p (inbox B L s p @ map (\<lambda>(h, data). \<lparr>rc_ChunkHash = h, rc_Data = data, rc_PushedAt = now\<rparr>) cs)"
  shows "\<exists>s1 s2 got. push_each B L True now ln p cs s = (Inr (), s1) \<and>
    PullChunks B L True later ln p s1 = (Inr got, s2) \<and>
    map (\<lambda>c. (rc_ChunkHash c, rc_Data c)) got = map (\<lambda>c. (rc_ChunkHash c, rc_Data c)) (inbox B L s p) @ cs \<and>
    inbox B L s2 = (inbox B L s)(p := []) \<and> relay_ok B s2"
proof -
  obtain s1 where s1: "push_each B L True now ln p cs s = (Inr (), s1)" "relay_ok B s1"
    "inbox B L s1 = (inbox B L s)(p := inbox B L s p @
      map (\<lambda>(h, data). \<lparr>rc_ChunkHash = h, rc_Data = data, rc_PushedAt = now\<rparr>) cs)"
    using push_each_appends [OF B up ok time ne fits small] by blast
  have len: "length (marshal request_fields (pull_request p)) < max_token" using pull by (simp add: fits_pull_def)
  have "map (\<lambda>c. (rc_ChunkHash c, rc_Data c))
      (map (\<lambda>(h, data). \<lparr>rc_ChunkHash = h, rc_Data = data, rc_PushedAt = now\<rparr>) cs) = cs"
    by (induction cs) auto
  then show ?thesis
    using s1 pull PullChunks_drains [OF B up s1(2) ne len, of L later] by (auto simp: comp_def)
qed

theorem relay_delivers_witness:
  "\<exists>s1 s2 got. push_each ref_ops demo_relay_lib True 5 open_link ''bob'' [(''h1'', ''abc''), (''h2'', ''d'')] demo_relay = (Inr (), s1) \<and>
    PullChunks ref_ops demo_relay_lib True 6 open_link ''bob'' s1 = (Inr got, s2) \<and>
    map (\<lambda>c. (rc_ChunkHash c, rc_Data c)) got = [(''h1'', ''abc''), (''h2'', ''d'')]"
proof -
  let ?cs = "[(''h1'', ''abc''), (''h2'', ''d'')]"
  have fits: "h \<noteq> [] \<and> data \<noteq> [] \<and> fits_push ''bob'' h data" if "(h, data) \<in> set ?cs" for h data
  proof -
    have "length (marshal request_fields (push_request ''bob'' ''h1'' ''abc'')) = 61" by code_simp
    moreover have "length (marshal request_fields (push_request ''bob'' ''h2'' ''d'')) = 61" by code_simp
    ultimately show ?thesis using that by (auto simp: fits_push_def max_token_def)
  qed
  have box: "inbox ref_ops demo_relay_lib demo_relay ''bob'' = []" by (simp add: inbox_def demo_relay_def)
  have "inbox_seq ref_ops demo_relay ''bob'' + length ?cs < 10 ^ 10" by (simp add: inbox_seq_def demo_relay_def)
  moreover have "fits_pull ''bob'' (inbox ref_ops demo_relay_lib demo_relay ''bob'' @
      map (\<lambda>(h, data). \<lparr>rc_ChunkHash = h, rc_Data = data, rc_PushedAt = 5\<rparr>) ?cs)"
  proof -
    have "length (marshal response_fields (ok_response\<lparr>rp_Chunks := map wire_of_chunk
        [\<lparr>rc_ChunkHash = ''h1'', rc_Data = ''abc'', rc_PushedAt = 5\<rparr>,
         \<lparr>rc_ChunkHash = ''h2'', rc_Data = ''d'', rc_PushedAt = 5\<rparr>]\<rparr>)) = 90" by code_simp
    then show ?thesis unfolding box fits_pull_def demo_pull_line by (simp add: max_token_def)
  qed
  ultimately obtain s1 s2 got where
    "push_each ref_ops demo_relay_lib True 5 open_link ''bob'' ?cs demo_relay = (Inr (), s1)"
    "PullChunks ref_ops demo_relay_lib True 6 open_link ''bob'' s1 = (Inr got, s2)"
    "map (\<lambda>c. (rc_ChunkHash c, rc_Data c)) got =
       map (\<lambda>c. (rc_ChunkHash c, rc_Data c)) (inbox ref_ops demo_relay_lib demo_relay ''bob'') @ ?cs"
    using relay_delivers [OF ref.kv_reliable_axioms demo_relay_facts fits, of ?cs 6] by blast
  then show ?thesis unfolding box by auto
qed

lemma long_push_line:
  assumes size: "49150 \<le> length data"
  shows "\<not> length (marshal request_fields (push_request p h data)) < max_token"
proof -
  have "data \<noteq> []" using size by auto
  have "(65536 :: nat) \<le> 4 * ((length data + 2) div 3)" using size by presburger
  also have "\<dots> = length (b64_encode data)" by (simp add: length_b64_encode)
  also have "\<dots> \<le> length (marshal request_fields (push_request p h data))"
    using request_encodes [OF \<open>data \<noteq> []\<close>, of p h] by simp
  finally show ?thesis by (simp add: max_token_def)
qed

text \<open>Over any link, such a push fails and the server never sees it.\<close>

lemma long_push_fails:
  assumes "49150 \<le> length data"
  shows "\<exists>e. PushChunk B L commit now ln p h data s = (Inl e, s)"
proof -
  have "handle_conn B L commit now room (request_line (push_request p h data)) s = ([], s)" for room
    using long_push_line [OF assms, of p h] by (subst handle_conn.simps) (simp add: scan_request)
  then show ?thesis by (simp add: PushChunk_def exchange_def no_reply as_sum_def)
qed

text \<open>A chunk of 49150 bytes or more cannot be pushed over the wire: its request line exceeds the
  64 KiB the server's line scanner accepts, so the server drops the connection without an answer and
  stores nothing, although the server's own limit on a chunk, \<open>MaxRelayChunk\<close>, is 8 MiB.\<close>

theorem push_too_long:
  assumes up: "link_up ln" and size: "49150 \<le> length data"
  shows "PushChunk B L commit now ln p h data s = (Inl NoResponse, s) \<and> 49150 < MaxRelayChunk"
  using long_push_line [OF size, of p h]
  by (simp add: PushChunk_def exchange_one [OF up] no_reply as_sum_def MaxRelayChunk_def)

theorem push_too_long_witness:
  "PushChunk ref_ops demo_relay_lib True 5 open_link ''bob'' ''h'' (replicate 49150 CHR ''x'') demo_relay =
     (Inl NoResponse, demo_relay)"
  by (rule push_too_long [OF demo_relay_facts(1), THEN conjunct1]) simp

text \<open>
  C34. Chunks that the relay has accepted over the wire, each in a line that fits, are lost by the pull when they are
  too many for one line: when what waits for a peer after the pushes amounts to 48 KiB, the client cannot read the
  answer and reports that there was none, and the server has emptied the inbox.
\<close>

theorem pull_too_long_loses:
  assumes B: "kv_reliable B" and up: "link_up ln" and ok: "relay_ok B s" and time: "time_ok L now" and ne: "p \<noteq> []"
    and fits: "\<And>h data. (h, data) \<in> set cs \<Longrightarrow> h \<noteq> [] \<and> data \<noteq> [] \<and> fits_push p h data"
    and small: "inbox_seq B s p + length cs < 10 ^ 10" and len: "length (marshal request_fields (pull_request p)) < max_token"
    and much: "49152 \<le> sum_list (map (\<lambda>c. length (rc_Data c)) (inbox B L s p)) + sum_list (map (\<lambda>c. length (snd c)) cs)"
  shows "\<exists>s1 s2. push_each B L True now ln p cs s = (Inr (), s1) \<and>
    PullChunks B L True later ln p s1 = (Inl NoResponse, s2) \<and> inbox B L s2 p = []"
proof -
  let ?box = "inbox B L s p @ map (\<lambda>(h, data). \<lparr>rc_ChunkHash = h, rc_Data = data, rc_PushedAt = now\<rparr>) cs"
  obtain s1 where s1: "push_each B L True now ln p cs s = (Inr (), s1)" "relay_ok B s1" "inbox B L s1 = (inbox B L s)(p := ?box)"
    using push_each_appends [OF B up ok time ne fits small] by blast
  have "sum_list (map length (map rc_Data ?box)) =
      sum_list (map (\<lambda>c. length (rc_Data c)) (inbox B L s p)) + sum_list (map (\<lambda>c. length (snd c)) cs)"
    by (simp add: comp_def case_prod_beta)
  then have "65536 \<le> sum_list (map (\<lambda>c. length (b64_encode (rc_Data c))) ?box)"
    using base64_total [of "map rc_Data ?box"] much unfolding map_map comp_def by linarith
  then have "\<not> fits_pull p ?box" using response_carries [of ?box] by (simp add: fits_pull_def max_token_def)
  then show ?thesis using s1 PullChunks_drains [OF B up s1(2) ne len, of L later] by auto
qed

theorem pull_too_long_loses_witness:
  "\<exists>s1 s2. push_each ref_ops demo_relay_lib True 5 open_link ''bob'' (replicate 2 (''h'', replicate 24576 (CHR ''x''))) demo_relay = (Inr (), s1) \<and>
     PullChunks ref_ops demo_relay_lib True 6 open_link ''bob'' s1 = (Inl NoResponse, s2) \<and>
     inbox ref_ops demo_relay_lib s2 ''bob'' = []"
proof -
  define data where "data = replicate 24576 CHR ''x''"
  have len: "length data = 24576" by (simp add: data_def)
  have "length (b64_encode data) = 32768" by (simp add: len length_b64_encode)
  then have "fits_push ''bob'' ''h'' data"
    using push_line [of "''bob''" "''h''" data] length_quote_le [of "''bob''"] length_quote_le [of "''h''"]
    by (simp add: fits_push_def max_token_def)
  then have fits: "h \<noteq> [] \<and> d \<noteq> [] \<and> fits_push ''bob'' h d" if "(h, d) \<in> set (replicate 2 (''h'', data))" for h d
    using that len by auto
  have req: "length (marshal request_fields (pull_request ''bob'')) < max_token" by (simp add: demo_pull_line max_token_def)
  have box: "inbox ref_ops demo_relay_lib demo_relay ''bob'' = []" "inbox_seq ref_ops demo_relay ''bob'' + length (replicate 2 (''h'', data)) < 10 ^ 10"
    by (simp_all add: inbox_def inbox_seq_def demo_relay_def)
  have "49152 \<le> sum_list (map (\<lambda>c. length (rc_Data c)) (inbox ref_ops demo_relay_lib demo_relay ''bob'')) +
      sum_list (map (\<lambda>c. length (snd c)) (replicate 2 (''h'', data)))"
    by (simp add: box len numeral_2_eq_2)
  from pull_too_long_loses [OF ref.kv_reliable_axioms demo_relay_facts fits box(2) req this]
  show ?thesis unfolding data_def by blast
qed

text \<open>Eviction keeps exactly the chunks that are not older than \<open>maxAge\<close>, in their order, in every
  inbox, whether the bucket's key count is taken before or after the deletions.\<close>

theorem evict_keeps_unexpired:
  assumes "kv_reliable B" and "relay_ok B s"
    and "\<And>m m'. keyN L m m' = length (b_entries B m) \<or> keyN L m m' = length (b_entries B m')"
  shows "relay_ok B (evict B L True now s) \<and>
    inbox B L (evict B L True now s) p = filter (\<lambda>c. now - rs_maxAge s \<le> rc_PushedAt c) (inbox B L s p)"
  using relay_store.evict_ok [OF relay_store.intro [OF assms(1)] assms(2,3)] by (simp add: not_less)

theorem evict_keeps_unexpired_witness:
  "\<exists>s. Push ref_ops demo_relay_lib True 5 demo_relay ''bob'' ''h'' ''abc'' = (None, s) \<and>
     inbox ref_ops demo_relay_lib (evict ref_ops demo_relay_lib True 16 s) ''bob'' = [] \<and>
     inbox ref_ops demo_relay_lib (evict ref_ops demo_relay_lib True 15 s) ''bob'' =
       [\<lparr>rc_ChunkHash = ''h'', rc_Data = ''abc'', rc_PushedAt = 5\<rparr>]"
proof -
  obtain s where s: "Push ref_ops demo_relay_lib True 5 demo_relay ''bob'' ''h'' ''abc'' = (None, s)" "relay_ok ref_ops s"
    "inbox ref_ops demo_relay_lib s ''bob'' = [\<lparr>rc_ChunkHash = ''h'', rc_Data = ''abc'', rc_PushedAt = 5\<rparr>]"
    using demo_push [of "''abc''"] by (auto simp: MaxRelayChunk_def)
  have age: "rs_maxAge s = 10" using s(1) Push_maxAge [of ref_ops demo_relay_lib True 5 demo_relay "''bob''" "''h''" "''abc''"]
    by (simp add: demo_relay_def)
  have keyN: "keyN demo_relay_lib m m' = length (b_entries ref_ops m) \<or> keyN demo_relay_lib m m' = length (b_entries ref_ops m')"
    for m m' by (simp add: demo_relay_lib_def)
  show ?thesis
    using s(1) evict_keeps_unexpired [OF ref.kv_reliable_axioms s(2), of demo_relay_lib _ "''bob''"] keyN
    by (intro exI [of _ s]) (simp add: s(3) age)
qed

end
