(* ===== verification/Session.thy ===== *)
theory Session
  imports Crypto
begin

text \<open>
  \<open>internal/network/auth.go\<close> and \<open>session.go\<close>: the token handshake that opens a transfer, the key
  derived for it and the encryption of chunks on the wire. The two gob streams are lists of packets:
  what a side reads is a list whose elements are decoded packets or a decoding error (\<open>None\<close>), its
  end the end of the stream; what it writes is returned as a list. \<open>wr\<close> says whether the peer can
  still be written to.
\<close>

record packet =
  pk_Type :: string
  pk_FileName :: string
  pk_Hash :: string
  pk_Data :: bytes
  pk_Size :: int
  pk_FileSize :: int
  pk_FileMTime :: int
  pk_Index :: int
  pk_ResumeIndex :: int

text \<open>A packet with a type and a payload, the other fields zero.\<close>

definition plain_packet :: "string \<Rightarrow> bytes \<Rightarrow> packet" where
  "plain_packet ty data = \<lparr>pk_Type = ty, pk_FileName = [], pk_Hash = [], pk_Data = data, pk_Size = 0,
     pk_FileSize = 0, pk_FileMTime = 0, pk_Index = 0, pk_ResumeIndex = 0\<rparr>"

type_synonym instream = "packet option list"

datatype net_err = SendErr | ReadErr | AuthRejected string | UnexpectedPacket string | ExpectedAuth string
  | NoIdentity | TokenErr crypto_err | SessKeyLen nat | SessPayload | SessDerive

text \<open>The first packet of a stream and the rest.\<close>

fun decode_packet :: "instream \<Rightarrow> (net_err + packet) \<times> instream" where
  "decode_packet [] = (Inl ReadErr, [])"
| "decode_packet (None # r) = (Inl ReadErr, r)"
| "decode_packet (Some p # r) = (Inr p, r)"

section \<open>The session key\<close>

definition transferSessionInfo :: string where
  "transferSessionInfo = ''vault-transfer-v1''"

definition DeriveTransferSessionKey :: "crypto_ops \<Rightarrow> bytes \<Rightarrow> signed_token \<Rightarrow> net_err + bytes" where
  "DeriveTransferSessionKey C spaceKey signed =
     (if length spaceKey \<noteq> SpaceKeySize then Inl (SessKeyLen (length spaceKey))
      else case unmarshal token_of_fields (st_Payload signed) of
        None \<Rightarrow> Inl SessPayload
      | Some tok \<Rightarrow>
          of_option SessDerive (hkdf C spaceKey transferSessionInfo
            (transferSessionInfo @ '':'' @ ct_SpaceID tok @ '':'' @ st_IssuerPubKey signed @ '':'' @ ct_PeerPubKey tok)
            SpaceKeySize))"

definition ProtectChunk :: "crypto_ops \<Rightarrow> (nat \<Rightarrow> bytes option) \<Rightarrow> bytes \<Rightarrow> bytes \<Rightarrow> net_err + bytes" where
  "ProtectChunk C rnd sessionKey plaintext =
     (if length sessionKey \<noteq> SpaceKeySize then Inl (SessKeyLen (length sessionKey))
      else case Encrypt C rnd plaintext sessionKey of Inl e \<Rightarrow> Inl (TokenErr e) | Inr c \<Rightarrow> Inr c)"

definition UnprotectChunk :: "crypto_ops \<Rightarrow> bytes \<Rightarrow> bytes \<Rightarrow> net_err + bytes" where
  "UnprotectChunk C sessionKey ciphertext =
     (if length sessionKey \<noteq> SpaceKeySize then Inl (SessKeyLen (length sessionKey))
      else case Decrypt C ciphertext sessionKey of Inl e \<Rightarrow> Inl (TokenErr e) | Inr p \<Rightarrow> Inr p)"

section \<open>The handshake\<close>

definition auth_packet :: "signed_token \<Rightarrow> packet" where
  "auth_packet st = plain_packet ''auth'' (MarshalToken st)"

text \<open>The client: the outcome, the packets written, the rest of what it reads.\<close>

definition runClientAuth ::
  "bool \<Rightarrow> signed_token option \<Rightarrow> instream \<Rightarrow> net_err option \<times> packet list \<times> instream" where
  "runClientAuth wr token inp = (case token of
     None \<Rightarrow> (None, [], inp)
   | Some st \<Rightarrow>
       if \<not> wr then (Some SendErr, [], inp)
       else case decode_packet inp of
           (Inl e, r) \<Rightarrow> (Some e, [auth_packet st], r)
         | (Inr ack, r) \<Rightarrow>
             ((if pk_Type ack = ''auth_ok'' then None
               else if pk_Type ack = ''auth_fail'' then Some (AuthRejected (pk_Data ack))
               else Some (UnexpectedPacket (pk_Type ack))), [auth_packet st], r))"

record handshake =
  hs_signed :: "signed_token option"
  hs_sessionKey :: bytes
  hs_pending :: "packet option"

text \<open>The server; \<open>txt\<close> is the text of an error, \<open>now\<close> the Unix time.\<close>

definition serverAuthHandshake ::
  "crypto_ops \<Rightarrow> (crypto_err \<Rightarrow> string) \<Rightarrow> int \<Rightarrow> bool \<Rightarrow> identity option \<Rightarrow> bool \<Rightarrow> bytes \<Rightarrow> instream
     \<Rightarrow> (net_err + handshake) \<times> packet list \<times> instream" where
  "serverAuthHandshake C txt now wr localIdentity requireAuth spaceKey inp =
     (let deny = (\<lambda>msg. if wr then [plain_packet ''auth_fail'' msg] else []) in
      case decode_packet inp of
        (Inl e, r) \<Rightarrow> (Inl e, [], r)
      | (Inr first, r) \<Rightarrow>
          if pk_Type first \<noteq> ''auth'' then
            (if requireAuth then (Inl (ExpectedAuth (pk_Type first)), [], r)
             else (Inr \<lparr>hs_signed = None, hs_sessionKey = [], hs_pending = Some first\<rparr>, [], r))
          else case localIdentity of
            None \<Rightarrow> (Inl NoIdentity, deny ''no local identity configured'', r)
          | Some me \<Rightarrow>
              (case UnmarshalToken (pk_Data first) of
                 Inl e \<Rightarrow> (Inl (TokenErr e), deny (txt e), r)
               | Inr st \<Rightarrow>
                   (case VerifyToken C now st (Some (PublicKey me)) of
                      Inl e \<Rightarrow> (Inl (TokenErr e), deny (txt e), r)
                    | Inr _ \<Rightarrow>
                        if \<not> wr then (Inl SendErr, [], r)
                        else
                          ((if spaceKey = [] then Inr \<lparr>hs_signed = Some st, hs_sessionKey = [], hs_pending = None\<rparr>
                            else rbind (DeriveTransferSessionKey C spaceKey st) (\<lambda>sk.
                              Inr \<lparr>hs_signed = Some st, hs_sessionKey = sk, hs_pending = None\<rparr>)),
                           [plain_packet ''auth_ok'' []], r))))"

text \<open>\<open>Transport.clientSessionKey\<close>.\<close>

definition clientSessionKey ::
  "crypto_ops \<Rightarrow> bool \<Rightarrow> signed_token option \<Rightarrow> bytes \<Rightarrow> instream \<Rightarrow> (net_err + bytes) \<times> packet list \<times> instream" where
  "clientSessionKey C wr token spaceKey inp =
     (case runClientAuth wr token inp of
        (Some e, out, r) \<Rightarrow> (Inl e, out, r)
      | (None, out, r) \<Rightarrow>
          ((case token of
              None \<Rightarrow> Inr []
            | Some st \<Rightarrow> if spaceKey = [] then Inr [] else DeriveTransferSessionKey C spaceKey st), out, r))"

section \<open>Properties\<close>

lemma protect_unprotect:
  assumes "aes_laws C" "rnd 12 = Some nonce" "length nonce = 12" "length key = SpaceKeySize"
  shows "\<exists>c. ProtectChunk C rnd key data = Inr c \<and> UnprotectChunk C key c = Inr data"
  using Encrypt_Decrypt [where C = C and nonce = nonce and key = key and data = data and rnd = rnd] assms
  by (simp add: ProtectChunk_def UnprotectChunk_def SpaceKeySize_def)

lemma ProtectChunk_Inr:
  assumes "aes_laws C" "ProtectChunk C rnd key data = Inr c" "\<forall>n. rnd 12 = Some n \<longrightarrow> length n = 12"
  shows "UnprotectChunk C key c = Inr data"
proof -
  have len: "length key = SpaceKeySize" using assms(2) by (auto simp: ProtectChunk_def split: if_splits)
  obtain nonce where "rnd 12 = Some nonce"
    using assms(2) len by (auto simp: ProtectChunk_def Encrypt_def SpaceKeySize_def split: option.splits)
  then show ?thesis using protect_unprotect [OF assms(1) _ _ len, of rnd nonce data] assms(2,3) by auto
qed

text \<open>
  C19. The handshake between two nodes that share a space key: a token issued to the server's key,
  by any issuer and for any permission, makes the server accept and answer \<open>auth_ok\<close>; the client
  accepts the answer, and both ends hold the same 32-byte session key.
\<close>

theorem handshake_agrees:
  assumes laws: "ed_laws C" "hkdf_laws C" and i: "identity_ok C issuer"
    and tok: "IssueToken C issued issuer (PublicKey me) sid perm ttl = Inr st"
    and range: "in_int64 (unix issued)" "in_int64 (unix (issued + ttl))" "unix (issued + ttl) \<noteq> 0"
    and valid: "ttl = 0 \<or> now \<le> unix (issued + ttl)" and key: "length spaceKey = SpaceKeySize"
  shows "\<exists>k. length k = SpaceKeySize \<and>
    clientSessionKey C True (Some st) spaceKey (Some (plain_packet ''auth_ok'' []) # rc) = (Inr k, [auth_packet st], rc) \<and>
    serverAuthHandshake C txt now True (Some me) req spaceKey (Some (auth_packet st) # rs) =
      (Inr \<lparr>hs_signed = Some st, hs_sessionKey = k, hs_pending = None\<rparr>, [plain_packet ''auth_ok'' []], rs)"
proof -
  have un: "UnmarshalToken (MarshalToken st) = Inr st"
    by (simp add: UnmarshalToken_def MarshalToken_def signed_json.unmarshal_marshal)
  obtain t where ver: "VerifyToken C now st (Some (PublicKey me)) = Inr t"
    using VerifyToken_issued [OF laws(1) i range tok, of now "Some (PublicKey me)"] valid by (auto simp: not_less)
  then have pl: "unmarshal token_of_fields (st_Payload st) = Some t"
    by (auto simp: VerifyToken_def rbind_Inr_iff split: if_splits option.splits)
  obtain k where k: "hkdf C spaceKey transferSessionInfo
      (transferSessionInfo @ '':'' @ ct_SpaceID t @ '':'' @ st_IssuerPubKey st @ '':'' @ ct_PeerPubKey t)
      SpaceKeySize = Some k" "length k = SpaceKeySize"
  proof -
    have "SpaceKeySize \<le> 255 * 32" by (simp add: SpaceKeySize_def)
    then show ?thesis using hkdfD [OF laws(2)] that by blast
  qed
  have "DeriveTransferSessionKey C spaceKey st = Inr k"
    using k(1) key pl by (simp add: DeriveTransferSessionKey_def)
  moreover have "spaceKey \<noteq> []" using key by (auto simp: SpaceKeySize_def)
  ultimately show ?thesis
    using k(2) un ver
    by (simp add: clientSessionKey_def runClientAuth_def serverAuthHandshake_def auth_packet_def plain_packet_def)
qed

theorem handshake_agrees_witness:
  "\<exists>st k. IssueToken demo_crypto 5000000000 (demo_identity (CHR ''a'')) (PublicKey (demo_identity (CHR ''b''))) ''s1'' PermRead 0 = Inr st \<and>
    clientSessionKey demo_crypto True (Some st) (replicate 32 (CHR ''k'')) [Some (plain_packet ''auth_ok'' [])] = (Inr k, [auth_packet st], []) \<and>
    serverAuthHandshake demo_crypto (\<lambda>_. []) 9 True (Some (demo_identity (CHR ''b''))) True (replicate 32 (CHR ''k'')) [Some (auth_packet st)] =
      (Inr \<lparr>hs_signed = Some st, hs_sessionKey = k, hs_pending = None\<rparr>, [plain_packet ''auth_ok'' []], [])"
proof -
  obtain st where st: "IssueToken demo_crypto 5000000000 (demo_identity (CHR ''a''))
      (PublicKey (demo_identity (CHR ''b''))) ''s1'' PermRead 0 = Inr st"
    using identity_sign(1) [OF demo_laws(1) demo_identity(1)] by (simp add: IssueToken_def Let_def)
  have r: "in_int64 (unix 5000000000)" "in_int64 (unix (5000000000 + 0))" "unix (5000000000 + 0) \<noteq> 0"
    by (simp_all add: unix_def in_int64_def int64_min_def int64_max_def)
  have k: "length (replicate 32 (CHR ''k'')) = SpaceKeySize" by (simp add: SpaceKeySize_def)
  show ?thesis
    using st handshake_agrees [OF demo_laws(1,3) demo_identity(1) st r disjI1 [OF refl] k, of "[]" "\<lambda>_. []" 9 True "[]"]
    by blast
qed

text \<open>
  C20. What a server that requires authentication lets through: the first packet carried a token
  whose signature verifies under the key it names, that has not expired and that names the server's
  own key as grantee; nothing of the first packet is left to process, and the session key, if the
  server has a space key, is the one derived from that token.
\<close>

theorem required_auth_is_checked:
  assumes "serverAuthHandshake C txt now wr me True spaceKey inp = (Inr hs, out, rest)"
  shows "\<exists>p st tok key i. inp = Some p # rest \<and> pk_Type p = ''auth'' \<and> me = Some i \<and>
    hs_signed hs = Some st \<and> UnmarshalToken (pk_Data p) = Inr st \<and>
    hex_decode (st_IssuerPubKey st) = Some key \<and> ed_verify C key (st_Payload st) (st_Signature st) \<and>
    unmarshal token_of_fields (st_Payload st) = Some tok \<and> ct_PeerPubKey tok = encodeKey (PublicKey i) \<and>
    (ct_Expiry tok = 0 \<or> now \<le> ct_Expiry tok) \<and> hs_pending hs = None \<and>
    (if spaceKey = [] then hs_sessionKey hs = [] else DeriveTransferSessionKey C spaceKey st = Inr (hs_sessionKey hs))"
proof -
  obtain p where inp: "inp = Some p # rest" "pk_Type p = ''auth''"
    using assms by (cases inp rule: decode_packet.cases) (auto simp: serverAuthHandshake_def Let_def split: if_splits
        option.splits sum.splits)
  obtain i where me: "me = Some i"
    using assms inp by (cases me) (auto simp: serverAuthHandshake_def Let_def)
  obtain st where st: "UnmarshalToken (pk_Data p) = Inr st"
    using assms inp me by (cases "UnmarshalToken (pk_Data p)") (auto simp: serverAuthHandshake_def Let_def)
  obtain tok where ver: "VerifyToken C now st (Some (PublicKey i)) = Inr tok"
    using assms inp me st
    by (cases "VerifyToken C now st (Some (PublicKey i))") (auto simp: serverAuthHandshake_def Let_def)
  obtain key where "hex_decode (st_IssuerPubKey st) = Some key" "ed_verify C key (st_Payload st) (st_Signature st)"
    "unmarshal token_of_fields (st_Payload st) = Some tok" "ct_PeerPubKey tok = encodeKey (PublicKey i)"
    "ct_Expiry tok = 0 \<or> now \<le> ct_Expiry tok"
    using VerifyToken_Inr [OF ver] by auto
  moreover have "hs_signed hs = Some st" "hs_pending hs = None"
    "if spaceKey = [] then hs_sessionKey hs = [] else DeriveTransferSessionKey C spaceKey st = Inr (hs_sessionKey hs)"
    using assms inp me st ver by (auto simp: serverAuthHandshake_def Let_def rbind_Inr_iff split: if_splits)
  ultimately show ?thesis using inp me st by blast
qed

theorem required_auth_is_checked_witness:
  "\<exists>st hs out p. serverAuthHandshake demo_crypto (\<lambda>_. []) 9 True (Some (demo_identity (CHR ''b''))) True []
      [Some (auth_packet st)] = (Inr hs, out, []) \<and> [Some (auth_packet st)] = [Some p] \<and> pk_Type p = ''auth'' \<and>
    UnmarshalToken (pk_Data p) = Inr st \<and> hs_signed hs = Some st \<and> hs_sessionKey hs = []"
proof -
  obtain st where st: "IssueToken demo_crypto 5000000000 (demo_identity (CHR ''a''))
      (PublicKey (demo_identity (CHR ''b''))) ''s1'' PermRead 0 = Inr st"
    using identity_sign(1) [OF demo_laws(1) demo_identity(1)] by (simp add: IssueToken_def Let_def)
  have r: "in_int64 (unix 5000000000)" "in_int64 (unix (5000000000 + 0))" "unix (5000000000 + 0) \<noteq> 0"
    by (simp_all add: unix_def in_int64_def int64_min_def int64_max_def)
  have un: "UnmarshalToken (MarshalToken st) = Inr st"
    by (simp add: UnmarshalToken_def MarshalToken_def signed_json.unmarshal_marshal)
  have "serverAuthHandshake demo_crypto (\<lambda>_. []) 9 True (Some (demo_identity (CHR ''b''))) True []
      [Some (auth_packet st)] = (Inr \<lparr>hs_signed = Some st, hs_sessionKey = [], hs_pending = None\<rparr>,
        [plain_packet ''auth_ok'' []], [])"
    using VerifyToken_issued [OF demo_laws(1) demo_identity(1) r st] un
    by (simp add: serverAuthHandshake_def auth_packet_def plain_packet_def Let_def)
  then show ?thesis using required_auth_is_checked un by (fastforce simp: auth_packet_def plain_packet_def)
qed

end
