(* ===== verification/GoPath.thy ===== *)
theory GoPath
  imports Prelude
begin

text \<open>
  \<open>path/filepath\<close> of the Go library on a system with \<open>/\<close> as separator: \<open>Base\<close>, \<open>Clean\<close> and \<open>Join\<close>
  as the program uses them, and the two facts the transfers rest on: a base name has no separator,
  and joining a plain name to a directory names a file directly inside it.
\<close>

abbreviation slash :: char where "slash \<equiv> CHR ''/''"

fun path_split :: "string \<Rightarrow> string list" where
  "path_split [] = [[]]"
| "path_split (c # s) = (if c = slash then [] # path_split s
     else case path_split s of [] \<Rightarrow> [[c]] | w # ws \<Rightarrow> (c # w) # ws)"

fun path_concat :: "string list \<Rightarrow> string" where
  "path_concat [] = []"
| "path_concat [w] = w"
| "path_concat (w # v # ws) = w @ slash # path_concat (v # ws)"

text \<open>The components that \<open>Clean\<close> keeps, on a stack.\<close>

fun clean_comps :: "bool \<Rightarrow> string list \<Rightarrow> string list \<Rightarrow> string list" where
  "clean_comps rooted acc [] = rev acc"
| "clean_comps rooted acc (w # ws) =
     (if w = [] \<or> w = ''.'' then clean_comps rooted acc ws
      else if w = ''..'' then
        (if acc \<noteq> [] \<and> hd acc \<noteq> ''..'' then clean_comps rooted (tl acc) ws
         else if rooted then clean_comps rooted acc ws
         else clean_comps rooted (w # acc) ws)
      else clean_comps rooted (w # acc) ws)"

definition rooted :: "string \<Rightarrow> bool" where
  "rooted p \<longleftrightarrow> p \<noteq> [] \<and> hd p = slash"

definition path_clean :: "string \<Rightarrow> string" where
  "path_clean p =
     (let body = path_concat (clean_comps (rooted p) [] (path_split p))
      in if rooted p then slash # body else if body = [] then ''.'' else body)"

definition path_join :: "string \<Rightarrow> string \<Rightarrow> string" where
  "path_join d n = (if d \<noteq> [] then path_clean (d @ slash # n) else if n \<noteq> [] then path_clean n else [])"

definition path_base :: "string \<Rightarrow> string" where
  "path_base p =
     (if p = [] then ''.''
      else
        let q = rev (dropWhile (\<lambda>c. c = slash) (rev p));
            b = rev (takeWhile (\<lambda>c. c \<noteq> slash) (rev q))
        in if b = [] then ''/'' else b)"

definition plain_name :: "string \<Rightarrow> bool" where
  "plain_name n \<longleftrightarrow> n \<noteq> [] \<and> slash \<notin> set n \<and> n \<noteq> ''.'' \<and> n \<noteq> ''..''"

text \<open>What \<open>Join\<close> puts before a plain name.\<close>

definition dir_prefix :: "string \<Rightarrow> string" where
  "dir_prefix d =
     (let cs = clean_comps (rooted d) [] (path_split d); body = path_concat cs
      in (if rooted d then [slash] else []) @ body @ (if cs = [] then [] else [slash]))"

lemma path_split_ne [simp]: "path_split s \<noteq> []"
  by (induction s) (auto split: list.split)

lemma path_split_plain: "slash \<notin> set n \<Longrightarrow> path_split n = [n]"
  by (induction n) auto

lemma path_split_snoc: "slash \<notin> set n \<Longrightarrow> path_split (d @ slash # n) = path_split d @ [n]"
  by (induction d) (auto simp: path_split_plain split: list.split)

lemma clean_comps_snoc:
  "plain_name n \<Longrightarrow> clean_comps r acc (ws @ [n]) = clean_comps r acc ws @ [n]"
  by (induction r acc ws rule: clean_comps.induct) (auto simp: plain_name_def)

lemma path_concat_snoc: "path_concat (ws @ [n]) = path_concat ws @ (if ws = [] then [] else [slash]) @ n"
  by (induction ws rule: path_concat.induct) auto

text \<open>A plain name joined to a directory is a file directly inside it.\<close>

lemma path_join_plain: "plain_name n \<Longrightarrow> path_join d n = dir_prefix d @ n"
proof -
  assume n: "plain_name n"
  then have ne: "n \<noteq> []" "slash \<notin> set n" by (auto simp: plain_name_def)
  show ?thesis
  proof (cases "d = []")
    case True
    have "\<not> rooted n" using ne by (cases n) (auto simp: rooted_def)
    moreover have "\<not> rooted []" by (simp add: rooted_def)
    ultimately show ?thesis
      using True n ne by (simp add: path_join_def path_clean_def dir_prefix_def Let_def path_split_plain plain_name_def)
  next
    case False
    have r: "rooted (d @ slash # n) = rooted d" using False by (simp add: rooted_def)
    show ?thesis
      using False ne n
      by (simp add: path_join_def path_clean_def dir_prefix_def r path_split_snoc clean_comps_snoc path_concat_snoc Let_def)
  qed
qed

lemma path_base_append:
  assumes "plain_name n" "p = [] \<or> last p = slash"
  shows "path_base (p @ n) = n"
proof -
  have n: "n \<noteq> []" "slash \<notin> set n" using assms(1) by (auto simp: plain_name_def)
  have "dropWhile (\<lambda>c. c = slash) (rev n @ rev p) = rev n @ rev p"
    using n by (cases "rev n") (auto simp: dropWhile_eq_self_iff dest: arg_cong [of _ _ set])
  moreover have "takeWhile (\<lambda>c. c \<noteq> slash) (rev n @ rev p) = rev n"
  proof (cases p rule: rev_cases)
    case (snoc q c)
    then show ?thesis using n assms(2) by (subst takeWhile_append2) auto
  qed (use n in auto)
  ultimately show ?thesis using n by (simp add: path_base_def Let_def)
qed

lemma dir_prefix_last: "dir_prefix d = [] \<or> last (dir_prefix d) = slash"
  by (auto simp: dir_prefix_def Let_def)

lemma path_base_join: "plain_name n \<Longrightarrow> path_base (path_join d n) = n"
  by (simp add: path_join_plain path_base_append dir_prefix_last)

text \<open>A base name is one of the three special ones or plain.\<close>

lemma path_base_cases: "path_base p = ''/'' \<or> path_base p = ''.'' \<or> path_base p = ''..'' \<or> plain_name (path_base p)"
  by (auto simp: path_base_def plain_name_def Let_def dest: set_takeWhileD)

lemma path_base_plain: "plain_name n \<Longrightarrow> path_base n = n"
  using path_base_append [of n "[]"] by simp

end
