(* ===== verification/Receiver.thy ===== *)
theory Receiver
  imports Session Engine GoPath
begin

text \<open>
  The receiving side of \<open>internal/network/transport.go\<close>: \<open>ReceiveOnceWithOptions\<close> with its
  \<open>processPacket\<close>, \<open>persistState\<close> and \<open>loadState\<close>.

  The local variables the closures share are the record \<open>receiver\<close>, together with the files and the
  engine they change; the packets written back to the sender are kept in the order they were sent.
  What the operating system does while one packet is processed is a record \<open>recv_env\<close>; the run of a
  stream takes one per packet. The listener and the QUIC connection are outcomes of \<open>conn_env\<close>.

  Lemmas: what each packet does on every branch; a run of well-formed chunk packets appends their
  data, and so does every run that the receiver accepts, whatever calls of the system may fail; only files directly inside the output directory (and the chunk store) are touched; the side
  file and the output agree at every packet boundary.
\<close>

record resume_state =
  rz_FileName :: string
  rz_FileSize :: int
  rz_FileMTime :: int
  rz_NextIndex :: int

definition resume_fields :: "resume_state \<Rightarrow> (string \<times> json) list" where
  "resume_fields s =
     [(''file_name'', JStr (rz_FileName s)), (''file_size'', jint (rz_FileSize s)),
      (''file_mtime'', jint (rz_FileMTime s)), (''next_index'', jint (rz_NextIndex s))]"

definition resume_of_fields :: "(string \<times> json) list \<Rightarrow> resume_state option" where
  "resume_of_fields kvs = do {
     n \<leftarrow> str_field ''file_name'' kvs;
     s \<leftarrow> int_field ''file_size'' kvs;
     t \<leftarrow> int_field ''file_mtime'' kvs;
     i \<leftarrow> int_field ''next_index'' kvs;
     Some \<lparr>rz_FileName = n, rz_FileSize = s, rz_FileMTime = t, rz_NextIndex = i\<rparr>
   }"

definition resume_ok :: "resume_state \<Rightarrow> bool" where
  "resume_ok s \<longleftrightarrow> in_int64 (rz_FileSize s) \<and> in_int64 (rz_FileMTime s) \<and> in_int64 (rz_NextIndex s)"

interpretation resume_json: json_struct resume_fields resume_of_fields resume_ok
  by unfold_locales
    (simp_all add: resume_fields_def resume_of_fields_def resume_ok_def field_simps_json jint_def parse_int64_fmt_int)

section \<open>The state of a reception\<close>

record recv_opts =
  ro_Resume :: bool
  ro_RequireAuth :: bool
  ro_Identity :: "identity option"
  ro_SpaceKey :: bytes

record 'm receiver =
  rv_out :: "string option"
  rv_resumePath :: string
  rv_nextIndex :: int
  rv_fileSize :: int
  rv_fileMTime :: int
  rv_engine :: "'m engine option"
  rv_fs :: files
  rv_sent :: "packet list"

text \<open>A write that fails may have changed nothing or left part of the data.\<close>

datatype write_outcome = Wrote | NotWritten | Partly bytes

record recv_env =
  re_load :: bool
  re_open :: bool
  re_isdir :: "string \<Rightarrow> bool"
  re_encode :: bool
  re_write :: write_outcome
  re_chunk :: fs_env
  re_partial :: bytes
  re_db :: bool
  re_persist :: write_outcome
  re_close :: bool
  re_remove :: bool

datatype recv_err = OutOpenErr | AckErr | NoStart | OutOfOrder int int | DecryptErr net_err | HashMismatch string
  | OutWriteErr | PersistChunkErr chunk_err | PersistStateErr | OutCloseErr | UnknownType string | StreamErr

datatype recv_result = Continue | EndTransfer | Failed recv_err

definition persistState :: "write_outcome \<Rightarrow> string \<Rightarrow> resume_state \<Rightarrow> files \<Rightarrow> bool \<times> files" where
  "persistState w path s fs = (case w of
     Wrote \<Rightarrow> (True, fs(path \<mapsto> marshal resume_fields s))
   | NotWritten \<Rightarrow> (False, fs)
   | Partly b \<Rightarrow> (False, fs(path \<mapsto> b)))"

definition loadState :: "bool \<Rightarrow> string \<Rightarrow> files \<Rightarrow> resume_state option" where
  "loadState works path fs =
     (if works then case fs path of None \<Rightarrow> None | Some b \<Rightarrow> unmarshal resume_of_fields b else None)"

definition file_bytes :: "files \<Rightarrow> string \<Rightarrow> bytes" where
  "file_bytes fs path = (case fs path of None \<Rightarrow> [] | Some b \<Rightarrow> b)"

definition append_file :: "string \<Rightarrow> bytes \<Rightarrow> files \<Rightarrow> files" where
  "append_file path b fs = fs(path \<mapsto> file_bytes fs path @ b)"

text \<open>\<open>os.OpenFile\<close>, which fails on a directory, with \<open>O_CREATE\<close> and either \<open>O_APPEND\<close> or \<open>O_TRUNC\<close>.\<close>

definition open_output :: "bool \<Rightarrow> string \<Rightarrow> files \<Rightarrow> files" where
  "open_output keep path fs = (if keep then append_file path [] fs else fs(path \<mapsto> []))"

definition resume_ack :: "int \<Rightarrow> packet" where
  "resume_ack i = (plain_packet ''resume'' [])\<lparr>pk_ResumeIndex := i\<rparr>"

definition resume_path :: "string \<Rightarrow> string" where
  "resume_path out = out @ ''.resume.json''"

text \<open>The chunk to start with, from the side file when it is about the same version of the file.\<close>

definition start_index :: "recv_opts \<Rightarrow> bool \<Rightarrow> string \<Rightarrow> string \<Rightarrow> packet \<Rightarrow> files \<Rightarrow> int" where
  "start_index opts loads safeName rp p fs =
     (if ro_Resume opts then
        (case loadState loads rp fs of
           None \<Rightarrow> 0
         | Some s \<Rightarrow>
             if rz_FileName s = safeName \<and> rz_FileSize s = pk_FileSize p \<and> rz_FileMTime s = pk_FileMTime p
             then rz_NextIndex s else 0)
      else 0)"

definition process_start ::
  "recv_opts \<Rightarrow> string \<Rightarrow> recv_env \<Rightarrow> packet \<Rightarrow> 'm receiver \<Rightarrow> recv_result \<times> 'm receiver" where
  "process_start opts outputDir env p rv =
     (let safeName = path_base (pk_FileName p);
          outPath = path_join outputDir safeName;
          rp = resume_path outPath;
          next = start_index opts (re_load env) safeName rp p (rv_fs rv);
          rv1 = rv\<lparr>rv_resumePath := rp, rv_fileSize := pk_FileSize p, rv_fileMTime := pk_FileMTime p,
                   rv_nextIndex := next\<rparr>
      in if \<not> re_open env \<or> re_isdir env outPath then (Failed OutOpenErr, rv1)
         else
           let rv2 = rv1\<lparr>rv_fs := open_output (0 < next) outPath (rv_fs rv), rv_out := Some outPath\<rparr>
           in if \<not> ro_Resume opts then (Continue, rv2)
              else if \<not> re_encode env then (Failed AckErr, rv2)
              else (Continue, rv2\<lparr>rv_sent := rv_sent rv @ [resume_ack next]\<rparr>))"

text \<open>The chunk goes into the engine's store when there is one.\<close>

definition engine_write ::
  "(bytes \<Rightarrow> bytes) \<Rightarrow> recv_env \<Rightarrow> bytes \<Rightarrow> 'm receiver \<Rightarrow> chunk_err option \<times> 'm receiver" where
  "engine_write bl env plain rv = (case rv_engine rv of
     None \<Rightarrow> (None, rv)
   | Some e \<Rightarrow>
       (case WriteChunk bl (re_chunk env) (re_partial env) (re_db env) e (rv_fs rv) plain of
          (Inl er, e', fs') \<Rightarrow> (Some er, rv\<lparr>rv_engine := Some e', rv_fs := fs'\<rparr>)
        | (Inr _, e', fs') \<Rightarrow> (None, rv\<lparr>rv_engine := Some e', rv_fs := fs'\<rparr>)))"

text \<open>The part of a chunk that follows the checks: write, store, count, persist.\<close>

definition store_chunk ::
  "(bytes \<Rightarrow> bytes) \<Rightarrow> recv_opts \<Rightarrow> recv_env \<Rightarrow> string \<Rightarrow> bytes \<Rightarrow> 'm receiver \<Rightarrow> recv_result \<times> 'm receiver" where
  "store_chunk bl opts env out plain rv =
     (case re_write env of
        NotWritten \<Rightarrow> (Failed OutWriteErr, rv)
      | Partly b \<Rightarrow> (Failed OutWriteErr, rv\<lparr>rv_fs := append_file out b (rv_fs rv)\<rparr>)
      | Wrote \<Rightarrow>
          let (stored, rv2) = engine_write bl env plain (rv\<lparr>rv_fs := append_file out plain (rv_fs rv)\<rparr>)
          in case stored of
               Some er \<Rightarrow> (Failed (PersistChunkErr er), rv2)
             | None \<Rightarrow>
                 let rv3 = rv2\<lparr>rv_nextIndex := rv_nextIndex rv + 1\<rparr>
                 in if \<not> ro_Resume opts then (Continue, rv3)
                    else
                      let (ok, fs') = persistState (re_persist env) (rv_resumePath rv)
                            \<lparr>rz_FileName = path_base out, rz_FileSize = rv_fileSize rv, rz_FileMTime = rv_fileMTime rv,
                             rz_NextIndex = rv_nextIndex rv + 1\<rparr> (rv_fs rv3)
                      in (if ok then Continue else Failed PersistStateErr, rv3\<lparr>rv_fs := fs'\<rparr>))"

definition process_chunk ::
  "(bytes \<Rightarrow> bytes) \<Rightarrow> crypto_ops \<Rightarrow> recv_opts \<Rightarrow> bytes \<Rightarrow> recv_env \<Rightarrow> packet \<Rightarrow> 'm receiver \<Rightarrow> recv_result \<times> 'm receiver" where
  "process_chunk bl C opts sessionKey env p rv = (case rv_out rv of
     None \<Rightarrow> (Failed NoStart, rv)
   | Some out \<Rightarrow>
       if pk_Index p < rv_nextIndex rv then (Continue, rv)
       else if pk_Index p > rv_nextIndex rv then (Failed (OutOfOrder (pk_Index p) (rv_nextIndex rv)), rv)
       else
         (case (if sessionKey \<noteq> [] then UnprotectChunk C sessionKey (pk_Data p) else Inr (pk_Data p)) of
            Inl e \<Rightarrow> (Failed (DecryptErr e), rv)
          | Inr plain \<Rightarrow>
              if HashChunk bl plain \<noteq> pk_Hash p then (Failed (HashMismatch (pk_Hash p)), rv)
              else store_chunk bl opts env out plain rv))"

definition process_end :: "recv_opts \<Rightarrow> recv_env \<Rightarrow> 'm receiver \<Rightarrow> recv_result \<times> 'm receiver" where
  "process_end opts env rv =
     (if rv_out rv \<noteq> None \<and> \<not> re_close env then (Failed OutCloseErr, rv)
      else (EndTransfer, rv\<lparr>rv_out := None,
        rv_fs := (if ro_Resume opts \<and> rv_resumePath rv \<noteq> [] then os_remove (re_remove env) (rv_resumePath rv) (rv_fs rv)
                  else rv_fs rv)\<rparr>))"

definition processPacket ::
  "(bytes \<Rightarrow> bytes) \<Rightarrow> crypto_ops \<Rightarrow> recv_opts \<Rightarrow> bytes \<Rightarrow> string \<Rightarrow> recv_env \<Rightarrow> packet \<Rightarrow> 'm receiver
     \<Rightarrow> recv_result \<times> 'm receiver" where
  "processPacket bl C opts sessionKey outputDir env p rv =
     (if pk_Type p = ''start'' then process_start opts outputDir env p rv
      else if pk_Type p = ''chunk'' then process_chunk bl C opts sessionKey env p rv
      else if pk_Type p = ''end'' then process_end opts env rv
      else (Failed (UnknownType (pk_Type p)), rv))"

section \<open>The receiving loop\<close>

text \<open>The loop over the stream; \<open>envs k\<close> is the environment of the packet number \<open>k\<close>.\<close>

fun receive_loop ::
  "(bytes \<Rightarrow> bytes) \<Rightarrow> crypto_ops \<Rightarrow> recv_opts \<Rightarrow> bytes \<Rightarrow> string \<Rightarrow> (nat \<Rightarrow> recv_env) \<Rightarrow> nat \<Rightarrow> instream \<Rightarrow> 'm receiver
     \<Rightarrow> recv_err option \<times> 'm receiver" where
  "receive_loop bl C opts key dir envs k [] rv =
     (if rv_out rv \<noteq> None \<and> \<not> re_close (envs k) then Some OutCloseErr else None, rv)"
| "receive_loop bl C opts key dir envs k (None # r) rv = (Some StreamErr, rv)"
| "receive_loop bl C opts key dir envs k (Some p # r) rv =
     (case processPacket bl C opts key dir (envs k) p rv of
        (Continue, rv') \<Rightarrow> receive_loop bl C opts key dir envs (Suc k) r rv'
      | (EndTransfer, rv') \<Rightarrow> (None, rv')
      | (Failed e, rv') \<Rightarrow> (Some e, rv'))"

record conn_env =
  cv_tls :: bool
  cv_listen :: bool
  cv_accept :: bool
  cv_stream :: bool
  cv_mkdir :: bool
  cv_auth_write :: bool

datatype receive_err = TLSErr | ListenErr | AcceptErr | StreamAcceptErr | OutDirErr | HandshakeErr net_err | RecvErr recv_err

definition new_receiver :: "'m engine option \<Rightarrow> files \<Rightarrow> packet list \<Rightarrow> 'm receiver" where
  "new_receiver eng fs sent = \<lparr>rv_out = None, rv_resumePath = [], rv_nextIndex = 0, rv_fileSize = 0, rv_fileMTime = 0,
     rv_engine = eng, rv_fs = fs, rv_sent = sent\<rparr>"

definition ReceiveOnceWithOptions ::
  "(bytes \<Rightarrow> bytes) \<Rightarrow> crypto_ops \<Rightarrow> (crypto_err \<Rightarrow> string) \<Rightarrow> int \<Rightarrow> recv_opts \<Rightarrow> string \<Rightarrow> conn_env \<Rightarrow> (nat \<Rightarrow> recv_env)
     \<Rightarrow> 'm engine option \<Rightarrow> files \<Rightarrow> instream \<Rightarrow> receive_err option \<times> 'm receiver" where
  "ReceiveOnceWithOptions bl C txt now opts dir cv envs eng fs inp =
     (let rv0 = new_receiver eng fs [] in
      if \<not> cv_tls cv then (Some TLSErr, rv0)
      else if \<not> cv_listen cv then (Some ListenErr, rv0)
      else if \<not> cv_accept cv then (Some AcceptErr, rv0)
      else if \<not> cv_stream cv then (Some StreamAcceptErr, rv0)
      else if \<not> cv_mkdir cv then (Some OutDirErr, rv0)
      else (case serverAuthHandshake C txt now (cv_auth_write cv) (ro_Identity opts) (ro_RequireAuth opts) (ro_SpaceKey opts) inp of
          (Inl e, out, r) \<Rightarrow> (Some (HandshakeErr e), new_receiver eng fs out)
        | (Inr hs, out, r) \<Rightarrow>
            let run = (\<lambda>k r rv. apfst (map_option RecvErr) (receive_loop bl C opts (hs_sessionKey hs) dir envs k r rv));
                rv1 = new_receiver eng fs out
            in (case hs_pending hs of
                  None \<Rightarrow> run 0 r rv1
                | Some p \<Rightarrow>
                    (case processPacket bl C opts (hs_sessionKey hs) dir (envs 0) p rv1 of
                       (Continue, rv') \<Rightarrow> run 1 r rv'
                     | (EndTransfer, rv') \<Rightarrow> (None, rv')
                     | (Failed e, rv') \<Rightarrow> (Some (RecvErr e), rv')))))"

definition default_recv_opts :: recv_opts where
  "default_recv_opts = \<lparr>ro_Resume = True, ro_RequireAuth = False, ro_Identity = None, ro_SpaceKey = []\<rparr>"

definition ReceiveOnce ::
  "(bytes \<Rightarrow> bytes) \<Rightarrow> crypto_ops \<Rightarrow> (crypto_err \<Rightarrow> string) \<Rightarrow> int \<Rightarrow> string \<Rightarrow> conn_env \<Rightarrow> (nat \<Rightarrow> recv_env)
     \<Rightarrow> 'm engine option \<Rightarrow> files \<Rightarrow> instream \<Rightarrow> receive_err option \<times> 'm receiver" where
  "ReceiveOnce bl C txt now dir cv envs eng fs inp =
     ReceiveOnceWithOptions bl C txt now default_recv_opts dir cv envs eng fs inp"

section \<open>One chunk\<close>

text \<open>The engine takes chunks and keeps away from the files in \<open>keep\<close>.\<close>

definition engine_ready :: "string set \<Rightarrow> 'm engine \<Rightarrow> bool" where
  "engine_ready keep e \<longleftrightarrow> en_chunkDir e \<noteq> [] \<and> (\<exists>d. sq_db (en_sqlite e) = SqlOpen d) \<and>
     (\<forall>h. chunk_path (en_chunkDir e) h \<notin> keep)"

definition chunk_env_ok :: "string set \<Rightarrow> fs_env \<Rightarrow> bool" where
  "chunk_env_ok keep env \<longleftrightarrow> fe_mkdir env \<and> fe_stat env \<and> fe_write env \<and> fe_close env \<and> fe_rename env \<noteq> RenameFails \<and>
     (case fe_temp env of None \<Rightarrow> False | Some t \<Rightarrow> t \<notin> keep)"

definition recv_env_ok :: "string set \<Rightarrow> recv_env \<Rightarrow> bool" where
  "recv_env_ok keep env \<longleftrightarrow> re_load env \<and> re_open env \<and> (\<forall>q \<in> keep. \<not> re_isdir env q) \<and> re_encode env \<and>
     re_write env = Wrote \<and> chunk_env_ok keep (re_chunk env) \<and> re_db env \<and> re_persist env = Wrote \<and> re_close env \<and> re_remove env"

lemma WriteChunk_frame:
  assumes "WriteChunk bl env partial drv e fs data = (r, e', fs')"
  shows "en_chunkDir e' = en_chunkDir e \<and>
    (\<forall>q. fs' q \<noteq> fs q \<longrightarrow> q = chunk_path (en_chunkDir e) (HashChunk bl data) \<or> fe_temp env = Some q)"
proof -
  have c: "\<forall>q. fs1 q \<noteq> fs q \<longrightarrow> q = path \<or> fe_temp env = Some q"
    if "commit_chunk_file env partial path data fs = (r1, fs1)" for path r1 fs1
    using that by (auto simp: commit_chunk_file_def os_remove_def split: if_splits option.splits rename_outcome.splits)
  from assms show ?thesis by (cases rule: WriteChunk_cases) (use c in auto)
qed

lemma WriteChunk_ready:
  assumes e: "engine_ready keep e" and env: "chunk_env_ok keep env" and ne: "data \<noteq> []"
  shows "\<exists>sc e' fs'. WriteChunk bl env partial True e fs data = (Inr sc, e', fs') \<and> engine_ready keep e' \<and>
    (\<forall>q \<in> keep. fs' q = fs q)"
proof -
  let ?path = "chunk_path (en_chunkDir e) (HashChunk bl data)"
  obtain t where t: "fe_temp env = Some t" "t \<notin> keep" using env by (auto simp: chunk_env_ok_def split: option.splits)
  have "\<exists>fs'. commit_chunk_file env partial ?path data fs = (None, fs')"
    using env t by (cases "fe_rename env") (auto simp: chunk_env_ok_def commit_chunk_file_def)
  then obtain fs' where c: "commit_chunk_file env partial ?path data fs = (None, fs')" by blast
  obtain d where d: "sq_db (en_sqlite e) = SqlOpen d" using e by (auto simp: engine_ready_def)
  obtain sc e' where w: "WriteChunk bl env partial True e fs data = (Inr sc, e', fs')" "sq_db (en_sqlite e') \<noteq> SqlNil"
      "\<exists>d. sq_db (en_sqlite e') = SqlOpen d"
    using e env ne c d by (auto simp: WriteChunk_def Let_def engine_ready_def chunk_env_ok_def UpsertChunk_def sql_exec_def)
  have "\<forall>q \<in> keep. fs' q = fs q"
    using WriteChunk_frame [OF w(1)] e t by (fastforce simp: engine_ready_def)
  moreover have "engine_ready keep e'" using e w(3) WriteChunk_frame [OF w(1)] by (simp add: engine_ready_def)
  ultimately show ?thesis using w(1) by blast
qed

text \<open>A reception of the file \<open>nm\<close> that has \<open>bs\<close> on disk and waits for chunk \<open>i\<close>.\<close>

definition receiving :: "string \<Rightarrow> string \<Rightarrow> int \<Rightarrow> int \<Rightarrow> bytes \<Rightarrow> int \<Rightarrow> 'm receiver \<Rightarrow> bool" where
  "receiving dir nm sz mt bs i rv \<longleftrightarrow>
     rv_out rv = Some (path_join dir nm) \<and> rv_resumePath rv = resume_path (path_join dir nm) \<and>
     rv_nextIndex rv = i \<and> rv_fileSize rv = sz \<and> rv_fileMTime rv = mt \<and> rv_fs rv (path_join dir nm) = Some bs \<and>
     (case rv_engine rv of None \<Rightarrow> True
      | Some e \<Rightarrow> engine_ready {path_join dir nm, resume_path (path_join dir nm)} e)"

abbreviation keep_files :: "string \<Rightarrow> string \<Rightarrow> string set" where
  "keep_files dir nm \<equiv> {path_join dir nm, resume_path (path_join dir nm)}"

text \<open>What the side file says of the transfer: the next chunk, or nothing usable.\<close>

definition saved_index :: "string \<Rightarrow> string \<Rightarrow> int \<Rightarrow> int \<Rightarrow> files \<Rightarrow> int" where
  "saved_index dir nm sz mt fs = (case loadState True (resume_path (path_join dir nm)) fs of
     None \<Rightarrow> 0
   | Some s \<Rightarrow> if rz_FileName s = nm \<and> rz_FileSize s = sz \<and> rz_FileMTime s = mt then rz_NextIndex s else 0)"

lemma resume_path_ne [simp]: "resume_path p \<noteq> p" "p \<noteq> resume_path p" "resume_path p \<noteq> []"
  by (auto simp: resume_path_def)

lemma saved_index_persist:
  assumes "fs (resume_path (path_join dir nm)) =
      Some (marshal resume_fields \<lparr>rz_FileName = nm, rz_FileSize = sz, rz_FileMTime = mt, rz_NextIndex = i\<rparr>)"
    and "in_int64 sz" "in_int64 mt" "in_int64 i"
  shows "saved_index dir nm sz mt fs = i"
  using assms by (simp add: saved_index_def loadState_def resume_json.unmarshal_marshal resume_ok_def)

text \<open>A packet that carries chunk \<open>i\<close> with the data \<open>d\<close> under the session key.\<close>

definition carries :: "(bytes \<Rightarrow> bytes) \<Rightarrow> crypto_ops \<Rightarrow> bytes \<Rightarrow> int \<Rightarrow> bytes \<Rightarrow> packet \<Rightarrow> bool" where
  "carries bl C key i d p \<longleftrightarrow> pk_Type p = ''chunk'' \<and> pk_Index p = i \<and> pk_Hash p = HashChunk bl d \<and> d \<noteq> [] \<and>
     (if key \<noteq> [] then UnprotectChunk C key (pk_Data p) else Inr (pk_Data p)) = Inr d"

lemma engine_write_ok:
  assumes "case rv_engine rv of None \<Rightarrow> True | Some e \<Rightarrow> engine_ready keep e" "recv_env_ok keep env" "d \<noteq> []"
  shows "\<exists>eng fs'. engine_write bl env d rv = (None, rv\<lparr>rv_engine := eng, rv_fs := fs'\<rparr>) \<and>
    (\<forall>q \<in> keep. fs' q = rv_fs rv q) \<and> (case eng of None \<Rightarrow> True | Some e \<Rightarrow> engine_ready keep e)"
proof (cases "rv_engine rv")
  case None
  then show ?thesis by (intro exI [of _ None] exI [of _ "rv_fs rv"]) (simp add: engine_write_def)
next
  case (Some e)
  then have "engine_ready keep e" "chunk_env_ok keep (re_chunk env)" "re_db env"
    using assms(1,2) by (simp_all add: recv_env_ok_def)
  then obtain sc e' fs' where "WriteChunk bl (re_chunk env) (re_partial env) (re_db env) e (rv_fs rv) d = (Inr sc, e', fs')"
    "engine_ready keep e'" "\<forall>q \<in> keep. fs' q = rv_fs rv q"
    using WriteChunk_ready [OF _ _ assms(3), of keep e "re_chunk env" bl "re_partial env" "rv_fs rv"] by auto
  then show ?thesis using Some by (intro exI [of _ "Some e'"] exI [of _ fs']) (simp add: engine_write_def)
qed

lemma process_chunk_ok:
  assumes rv: "receiving dir nm sz mt bs i rv" and p: "carries bl C key i d p" and nm: "plain_name nm"
    and env: "recv_env_ok (keep_files dir nm) env" and range: "in_int64 sz" "in_int64 mt" "in_int64 (i + 1)"
  shows "\<exists>rv'. processPacket bl C opts key dir env p rv = (Continue, rv') \<and>
    receiving dir nm sz mt (bs @ d) (i + 1) rv' \<and> rv_sent rv' = rv_sent rv \<and>
    (ro_Resume opts \<longrightarrow> saved_index dir nm sz mt (rv_fs rv') = i + 1)"
proof -
  let ?out = "path_join dir nm"
  let ?fs = "append_file ?out d (rv_fs rv)"
  have base: "path_base ?out = nm" using nm by (rule path_base_join)
  have fs: "?fs ?out = Some (bs @ d)" using rv by (simp add: append_file_def file_bytes_def receiving_def)
  have ready: "case rv_engine (rv\<lparr>rv_fs := ?fs\<rparr>) of None \<Rightarrow> True | Some e \<Rightarrow> engine_ready (keep_files dir nm) e"
    using rv by (simp add: receiving_def)
  obtain eng fs' where st: "engine_write bl env d (rv\<lparr>rv_fs := ?fs\<rparr>) = (None, rv\<lparr>rv_engine := eng, rv_fs := fs'\<rparr>)"
    "\<forall>q \<in> keep_files dir nm. fs' q = ?fs q"
    "case eng of None \<Rightarrow> True | Some e \<Rightarrow> engine_ready (keep_files dir nm) e"
    using engine_write_ok [OF ready env, of d bl] p by (auto simp: carries_def)
  let ?side = "marshal resume_fields \<lparr>rz_FileName = nm, rz_FileSize = sz, rz_FileMTime = mt, rz_NextIndex = i + 1\<rparr>"
  let ?fs2 = "if ro_Resume opts then fs'(resume_path ?out \<mapsto> ?side) else fs'"
  let ?rv = "rv\<lparr>rv_engine := eng, rv_nextIndex := i + 1, rv_fs := ?fs2\<rparr>"
  have "processPacket bl C opts key dir env p rv = store_chunk bl opts env ?out d rv"
    using rv p by (simp add: processPacket_def process_chunk_def receiving_def carries_def)
  also have "\<dots> = (Continue, ?rv)"
    using env rv st(1) by (simp add: store_chunk_def recv_env_ok_def receiving_def persistState_def base)
  finally have "processPacket bl C opts key dir env p rv = (Continue, ?rv)" .
  moreover have "receiving dir nm sz mt (bs @ d) (i + 1) ?rv"
    using rv st(2,3) fs by (simp add: receiving_def)
  moreover have "saved_index dir nm sz mt (rv_fs ?rv) = i + 1" if "ro_Resume opts"
    using that range by (intro saved_index_persist) simp_all
  ultimately show ?thesis by (intro exI [of _ ?rv]) simp
qed

section \<open>A whole reception\<close>

definition start_packet :: "string \<Rightarrow> int \<Rightarrow> int \<Rightarrow> packet" where
  "start_packet path sz mt = (plain_packet ''start'' [])\<lparr>pk_FileName := path_base path, pk_FileSize := sz, pk_FileMTime := mt\<rparr>"

lemma start_packet_fields [simp]:
  "pk_Type (start_packet path sz mt) = ''start''" "pk_FileName (start_packet path sz mt) = path_base path"
  "pk_FileSize (start_packet path sz mt) = sz" "pk_FileMTime (start_packet path sz mt) = mt"
  by (simp_all add: start_packet_def plain_packet_def)

fun carry_all :: "(bytes \<Rightarrow> bytes) \<Rightarrow> crypto_ops \<Rightarrow> bytes \<Rightarrow> int \<Rightarrow> bytes list \<Rightarrow> packet list \<Rightarrow> bool" where
  "carry_all bl C key i [] ps = (ps = [])"
| "carry_all bl C key i (d # ds) ps = (case ps of
     [] \<Rightarrow> False | p # ps' \<Rightarrow> carries bl C key i d p \<and> carry_all bl C key (i + 1) ds ps')"

lemma carry_all_length: "carry_all bl C key i ds ps \<Longrightarrow> length ps = length ds"
  by (induction ds arbitrary: i ps) (auto split: list.splits)

lemma carry_all_take: "carry_all bl C key i ds ps \<Longrightarrow> carry_all bl C key i (take n ds) (take n ps)"
  by (induction ds arbitrary: i ps n) (auto simp: take_Cons split: list.splits nat.splits)

text \<open>What is on disk when a session begins: nothing to resume, or the first \<open>i\<close> chunks and the side file.\<close>

definition on_disk :: "string \<Rightarrow> string \<Rightarrow> int \<Rightarrow> int \<Rightarrow> bytes list \<Rightarrow> nat \<Rightarrow> files \<Rightarrow> bool" where
  "on_disk dir nm sz mt ds i fs \<longleftrightarrow> i \<le> length ds \<and> saved_index dir nm sz mt fs = int i \<and>
     (0 < i \<longrightarrow> fs (path_join dir nm) = Some (concat (take i ds)))"

definition engine_clear :: "string \<Rightarrow> string \<Rightarrow> 'm engine option \<Rightarrow> bool" where
  "engine_clear dir nm eng \<longleftrightarrow> (case eng of None \<Rightarrow> True | Some e \<Rightarrow> engine_ready (keep_files dir nm) e)"

lemma process_start_at:
  assumes disk: "saved_index dir nm sz mt (rv_fs rv) = int i" "bs = (if 0 < i then file_bytes (rv_fs rv) (path_join dir nm) else [])"
    and nm: "plain_name nm" "path_base path = nm"
    and env: "recv_env_ok (keep_files dir nm) env" and eng: "engine_clear dir nm (rv_engine rv)" and res: "ro_Resume opts"
  shows "\<exists>rv'. processPacket bl C opts key dir env (start_packet path sz mt) rv = (Continue, rv') \<and>
    receiving dir nm sz mt bs (int i) rv' \<and> rv_sent rv' = rv_sent rv @ [resume_ack (int i)] \<and>
    saved_index dir nm sz mt (rv_fs rv') = int i \<and> rv_engine rv' = rv_engine rv"
proof -
  let ?out = "path_join dir nm"
  have nxt: "start_index opts (re_load env) nm (resume_path ?out) (start_packet path sz mt) (rv_fs rv) = int i"
    using disk env res by (simp add: start_index_def saved_index_def recv_env_ok_def cong: option.case_cong)
  let ?fs = "open_output (0 < int i) ?out (rv_fs rv)"
  have out: "?fs ?out = Some bs" using disk(2) by (simp add: open_output_def append_file_def)
  have "?fs (resume_path ?out) = rv_fs rv (resume_path ?out)" by (simp add: open_output_def append_file_def)
  then have side: "saved_index dir nm sz mt ?fs = int i"
    using disk by (simp add: saved_index_def loadState_def)
  let ?rv = "rv\<lparr>rv_resumePath := resume_path ?out, rv_fileSize := sz, rv_fileMTime := mt, rv_nextIndex := int i,
    rv_fs := ?fs, rv_out := Some ?out, rv_sent := rv_sent rv @ [resume_ack (int i)]\<rparr>"
  have "processPacket bl C opts key dir env (start_packet path sz mt) rv = (Continue, ?rv)"
    using env res nxt nm
    by (simp add: processPacket_def process_start_def Let_def recv_env_ok_def path_base_plain)
  then show ?thesis
    using out side eng by (intro exI [of _ ?rv]) (simp add: receiving_def engine_clear_def)
qed

lemma process_start_ok:
  assumes disk: "on_disk dir nm sz mt ds i (rv_fs rv)" and nm: "plain_name nm" "path_base path = nm"
    and env: "recv_env_ok (keep_files dir nm) env" and eng: "engine_clear dir nm (rv_engine rv)" and res: "ro_Resume opts"
  shows "\<exists>rv'. processPacket bl C opts key dir env (start_packet path sz mt) rv = (Continue, rv') \<and>
    receiving dir nm sz mt (concat (take i ds)) (int i) rv' \<and> rv_sent rv' = rv_sent rv @ [resume_ack (int i)] \<and>
    saved_index dir nm sz mt (rv_fs rv') = int i"
proof -
  have "saved_index dir nm sz mt (rv_fs rv) = int i"
    "concat (take i ds) = (if 0 < i then file_bytes (rv_fs rv) (path_join dir nm) else [])"
    using disk by (auto simp: on_disk_def file_bytes_def)
  from process_start_at [OF this nm env eng res] show ?thesis by blast
qed

lemma receive_chunks:
  assumes "receiving dir nm sz mt bs i rv" "carry_all bl C key i ds ps" "plain_name nm"
    and "\<And>k'. k \<le> k' \<Longrightarrow> k' < k + length ps \<Longrightarrow> recv_env_ok (keep_files dir nm) (envs k')" "in_int64 sz" "in_int64 mt" "0 \<le> i"
    "in_int64 (i + int (length ds))"
    and "ro_Resume opts \<longrightarrow> saved_index dir nm sz mt (rv_fs rv) = i"
  shows "\<exists>rv'. receive_loop bl C opts key dir envs k (map Some ps @ r) rv =
      receive_loop bl C opts key dir envs (k + length ps) r rv' \<and>
    receiving dir nm sz mt (bs @ concat ds) (i + int (length ds)) rv' \<and> rv_sent rv' = rv_sent rv \<and>
    (ro_Resume opts \<longrightarrow> saved_index dir nm sz mt (rv_fs rv') = i + int (length ds))"
  using assms(1,2,4,7,8,9)
proof (induction ds arbitrary: bs i rv ps k)
  case Nil
  then show ?case by (intro exI [of _ rv]) simp
next
  case (Cons d ds)
  obtain p ps' where ps: "ps = p # ps'" "carries bl C key i d p" "carry_all bl C key (i + 1) ds ps'"
    using Cons.prems(2) by (auto split: list.splits)
  have r: "in_int64 (i + 1)" using Cons.prems(4,5) by (simp add: in_int64_def int64_min_def int64_max_def)
  obtain rv1 where rv1: "processPacket bl C opts key dir (envs k) p rv = (Continue, rv1)"
    "receiving dir nm sz mt (bs @ d) (i + 1) rv1" "rv_sent rv1 = rv_sent rv"
    "ro_Resume opts \<longrightarrow> saved_index dir nm sz mt (rv_fs rv1) = i + 1"
    using process_chunk_ok [OF Cons.prems(1) ps(2) assms(3) _ assms(5,6) r, of "envs k"] Cons.prems(3) ps(1) by auto
  have r': "in_int64 (i + 1 + int (length ds))" "0 \<le> i + 1" using Cons.prems(4,5) by (simp_all add: algebra_simps)
  obtain rv2 where "receive_loop bl C opts key dir envs (Suc k) (map Some ps' @ r) rv1 =
      receive_loop bl C opts key dir envs (Suc k + length ps') r rv2"
    "receiving dir nm sz mt ((bs @ d) @ concat ds) (i + 1 + int (length ds)) rv2" "rv_sent rv2 = rv_sent rv1"
    "ro_Resume opts \<longrightarrow> saved_index dir nm sz mt (rv_fs rv2) = i + 1 + int (length ds)"
    using Cons.IH [OF rv1(2) ps(3) _ r'(2,1) rv1(4), of "Suc k"] Cons.prems(3) ps(1) by auto
  then show ?case
    using rv1(1,3) ps(1) by (intro exI [of _ rv2]) (simp add: algebra_simps)
qed

lemma process_end_ok:
  assumes "receiving dir nm sz mt bs i rv" "recv_env_ok (keep_files dir nm) env" "pk_Type p = ''end''"
  shows "\<exists>rv'. processPacket bl C opts key dir env p rv = (EndTransfer, rv') \<and>
    rv_fs rv' (path_join dir nm) = Some bs \<and> (ro_Resume opts \<longrightarrow> rv_fs rv' (resume_path (path_join dir nm)) = None) \<and>
    rv_sent rv' = rv_sent rv"
  using assms by (auto simp: processPacket_def process_end_def receiving_def recv_env_ok_def os_remove_def)

text \<open>A session from \<open>start\<close> on, cut after some chunks or completed by \<open>end\<close>.\<close>

lemma session_runs:
  assumes disk: "on_disk dir nm sz mt ds i fs" and nm: "plain_name nm" "path_base path = nm"
    and envs: "\<And>k'. k \<le> k' \<Longrightarrow> k' \<le> k + length (take n ps) \<Longrightarrow> recv_env_ok (keep_files dir nm) (envs k')" and eng: "engine_clear dir nm eng" and res: "ro_Resume opts"
    and range: "in_int64 sz" "in_int64 mt" "in_int64 (int (length ds))"
    and ps: "carry_all bl C key (int i) (drop i ds) ps"
  shows "\<exists>rv'. receive_loop bl C opts key dir envs k (Some (start_packet path sz mt) # map Some (take n ps) @ r)
        (new_receiver eng fs sent) = receive_loop bl C opts key dir envs (Suc k + length (take n ps)) r rv' \<and>
    receiving dir nm sz mt (concat (take (min (i + n) (length ds)) ds)) (int (min (i + n) (length ds))) rv' \<and>
    on_disk dir nm sz mt ds (min (i + n) (length ds)) (rv_fs rv') \<and> engine_clear dir nm (rv_engine rv')"
proof -
  let ?rv0 = "new_receiver eng fs sent"
  have rv0: "rv_fs ?rv0 = fs" "rv_engine ?rv0 = eng" by (simp_all add: new_receiver_def)
  obtain rv1 where rv1: "processPacket bl C opts key dir (envs k) (start_packet path sz mt) ?rv0 = (Continue, rv1)"
    "receiving dir nm sz mt (concat (take i ds)) (int i) rv1" "saved_index dir nm sz mt (rv_fs rv1) = int i"
    using process_start_ok [OF _ nm envs _ res, of sz mt ds i ?rv0 k bl C key] disk eng unfolding rv0 by auto
  have i: "i \<le> length ds" using disk by (simp add: on_disk_def)
  let ?ds = "take n (drop i ds)"
  have len: "int i + int (length ?ds) = int (min (i + n) (length ds))" using i by (simp add: min_def) arith
  have le: "in_int64 (int i + int (length ?ds))" using range(3) i by (simp add: len in_int64_def int64_min_def)
  have later: "recv_env_ok (keep_files dir nm) (envs k')" if "Suc k \<le> k'" "k' < Suc k + length (take n ps)" for k'
    using envs that by simp
  obtain rv2 where rv2: "receive_loop bl C opts key dir envs (Suc k) (map Some (take n ps) @ r) rv1 =
      receive_loop bl C opts key dir envs (Suc k + length (take n ps)) r rv2"
    "receiving dir nm sz mt (concat (take i ds) @ concat ?ds) (int i + int (length ?ds)) rv2"
    "saved_index dir nm sz mt (rv_fs rv2) = int i + int (length ?ds)"
    using receive_chunks [where envs = envs and opts = opts and k = "Suc k" and r = r,
        OF rv1(2) carry_all_take [OF ps, of n] nm(1) later range(1,2) of_nat_0_le_iff le]
      rv1(3) res
    by blast
  have all: "concat (take i ds) @ concat ?ds = concat (take (min (i + n) (length ds)) ds)"
    by (simp add: take_add [symmetric] flip: concat_append) (simp add: min_def)
  have "on_disk dir nm sz mt ds (min (i + n) (length ds)) (rv_fs rv2)"
    using rv2(2,3) unfolding on_disk_def receiving_def len all by simp
  moreover have "engine_clear dir nm (rv_engine rv2)" using rv2(2) by (simp add: receiving_def engine_clear_def)
  ultimately show ?thesis
    using rv1(1) rv2(1,2) unfolding all len by (intro exI [of _ rv2]) simp
qed

section \<open>When a call of the receiver fails\<close>

text \<open>
  Without any hypothesis on what fails: a packet that the receiver accepts has had its full effect, and every
  failure ends the session with an error. The temporary files of the engine are none of the files in \<open>keep\<close>.
\<close>

definition temps_clear :: "string set \<Rightarrow> (nat \<Rightarrow> recv_env) \<Rightarrow> bool" where
  "temps_clear keep envs \<longleftrightarrow> (\<forall>k t. fe_temp (re_chunk (envs k)) = Some t \<longrightarrow> t \<notin> keep)"

lemma recv_env_temps: "(\<And>k. recv_env_ok keep (envs k)) \<Longrightarrow> temps_clear keep envs"
  by (force simp: temps_clear_def recv_env_ok_def chunk_env_ok_def split: option.splits)

lemma WriteChunk_keeps_ready:
  assumes "WriteChunk bl env partial drv e fs d = (r, e', fs')" "engine_ready keep e" "\<And>t. fe_temp env = Some t \<Longrightarrow> t \<notin> keep"
  shows "engine_ready keep e' \<and> (\<forall>q \<in> keep. fs' q = fs q)"
proof -
  have "\<exists>d. sq_db (en_sqlite e') = SqlOpen d" using assms(1)
  proof (cases rule: WriteChunk_cases)
    case (written sq)
    then show ?thesis using UpsertChunk_None [OF written(2)] by auto
  qed (use assms(2) in \<open>auto simp: engine_ready_def\<close>)
  then show ?thesis using WriteChunk_frame [OF assms(1)] assms(2,3) unfolding engine_ready_def by metis
qed

lemma accepted_start:
  assumes run: "processPacket bl C opts key dir env (start_packet path sz mt) rv = (r, rv')"
    and nm: "plain_name nm" "path_base path = nm" and eng: "engine_clear dir nm (rv_engine rv)" and res: "ro_Resume opts"
    and j: "start_index opts (re_load env) nm (resume_path (path_join dir nm)) (start_packet path sz mt) (rv_fs rv) = int j"
    and bs: "bs = (if 0 < j then file_bytes (rv_fs rv) (path_join dir nm) else [])"
  shows "r = Continue \<and> receiving dir nm sz mt bs (int j) rv' \<and> rv_sent rv' = rv_sent rv @ [resume_ack (int j)] \<or> (\<exists>e. r = Failed e)"
proof -
  have "processPacket bl C opts key dir env (start_packet path sz mt) rv = process_start opts dir env (start_packet path sz mt) rv"
    by (simp add: processPacket_def)
  moreover have "open_output (0 < int j) (path_join dir nm) (rv_fs rv) (path_join dir nm) = Some bs"
    using bs by (simp add: open_output_def append_file_def)
  ultimately show ?thesis
    using run eng res j nm
    by (auto simp: process_start_def Let_def path_base_plain receiving_def engine_clear_def split: if_splits)
qed

lemma accepted_chunk:
  assumes run: "processPacket bl C opts key dir (envs k) p rv = (r, rv')" and rv: "receiving dir nm sz mt bs i rv"
    and p: "carries bl C key i d p" and temps: "temps_clear (keep_files dir nm) envs"
  shows "r = Continue \<and> receiving dir nm sz mt (bs @ d) (i + 1) rv' \<or> (\<exists>e. r = Failed e)"
proof -
  let ?out = "path_join dir nm"
  let ?rv1 = "rv\<lparr>rv_fs := append_file ?out d (rv_fs rv)\<rparr>"
  have st: "store_chunk bl opts (envs k) ?out d rv = (r, rv')"
    using run rv p by (simp add: processPacket_def process_chunk_def receiving_def carries_def)
  obtain st rv2 where w: "engine_write bl (envs k) d ?rv1 = (st, rv2)" by fastforce
  have rv2: "receiving dir nm sz mt (bs @ d) i rv2"
  proof (cases "rv_engine rv")
    case None
    then have "rv2 = ?rv1" using w by (simp add: engine_write_def)
    then show ?thesis using rv by (simp add: receiving_def append_file_def file_bytes_def)
  next
    case (Some e)
    obtain r1 e' fs' where wc: "WriteChunk bl (re_chunk (envs k)) (re_partial (envs k)) (re_db (envs k)) e (rv_fs ?rv1) d = (r1, e', fs')"
      by (metis prod_cases3)
    have "engine_ready (keep_files dir nm) e" using rv Some by (simp add: receiving_def)
    then have "engine_ready (keep_files dir nm) e' \<and> (\<forall>q \<in> keep_files dir nm. fs' q = rv_fs ?rv1 q)"
      using WriteChunk_keeps_ready [OF wc] temps by (auto simp: temps_clear_def)
    moreover have "rv2 = ?rv1\<lparr>rv_engine := Some e', rv_fs := fs'\<rparr>"
      using w wc Some by (simp add: engine_write_def split: sum.splits)
    ultimately show ?thesis using rv by (simp add: receiving_def append_file_def file_bytes_def)
  qed
  show ?thesis
    using st w rv rv2
    by (auto simp: store_chunk_def persistState_def receiving_def Let_def split: write_outcome.splits option.splits if_splits)
qed

lemma accepted_end:
  assumes "processPacket bl C opts key dir env p rv = (r, rv')" "receiving dir nm sz mt bs i rv" "pk_Type p = ''end''"
  shows "r = EndTransfer \<and> rv_fs rv' (path_join dir nm) = Some bs \<or> (\<exists>e. r = Failed e)"
  using assms by (auto simp: processPacket_def process_end_def receiving_def os_remove_def split: if_splits)

lemma accepted_stream:
  assumes "receive_loop bl C opts key dir envs k (map Some ps @ [Some p]) rv = (None, rv')" "pk_Type p = ''end''"
    and "receiving dir nm sz mt bs i rv" "carry_all bl C key i ds ps" and temps: "temps_clear (keep_files dir nm) envs"
  shows "rv_fs rv' (path_join dir nm) = Some (bs @ concat ds)"
  using assms(1,3,4)
proof (induction ds arbitrary: bs i rv ps k)
  case Nil
  obtain r rv1 where pp: "processPacket bl C opts key dir (envs k) p rv = (r, rv1)" by fastforce
  show ?case using accepted_end [OF pp Nil.prems(2) assms(2)] Nil.prems pp by auto
next
  case (Cons d ds)
  obtain q qs where ps: "ps = q # qs" "carries bl C key i d q" "carry_all bl C key (i + 1) ds qs"
    using Cons.prems(3) by (auto split: list.splits)
  obtain r rv1 where pp: "processPacket bl C opts key dir (envs k) q rv = (r, rv1)" by fastforce
  from accepted_chunk [OF pp Cons.prems(2) ps(2) temps]
  have "r = Continue" "receiving dir nm sz mt (bs @ d) (i + 1) rv1" using Cons.prems(1) ps(1) pp by auto
  then show ?case using Cons.IH [of "Suc k" qs rv1 "bs @ d" "i + 1"] Cons.prems(1) ps pp by simp
qed

section \<open>Which files a reception can touch\<close>

text \<open>Files directly inside the output directory, under a plain name.\<close>

definition in_output :: "string \<Rightarrow> string \<Rightarrow> bool" where
  "in_output dir q \<longleftrightarrow> (\<exists>n. plain_name n \<and> (q = dir_prefix dir @ n \<or> q = resume_path (dir_prefix dir @ n)))"

text \<open>Files of the engine's chunk store, and the temporary files it was given.\<close>

definition in_store :: "(nat \<Rightarrow> recv_env) \<Rightarrow> 'm engine option \<Rightarrow> string \<Rightarrow> bool" where
  "in_store envs eng q \<longleftrightarrow> (case eng of None \<Rightarrow> False
     | Some e \<Rightarrow> (\<exists>h. q = chunk_path (en_chunkDir e) h) \<or> (\<exists>k. fe_temp (re_chunk (envs k)) = Some q))"

definition confined :: "string \<Rightarrow> 'm receiver \<Rightarrow> bool" where
  "confined dir rv \<longleftrightarrow> (\<forall>p. rv_out rv = Some p \<longrightarrow> in_output dir p \<and> in_output dir (rv_resumePath rv)) \<and>
     (rv_resumePath rv = [] \<or> in_output dir (rv_resumePath rv))"

text \<open>The special names denote directories, which \<open>OpenFile\<close> refuses.\<close>

definition dirs_refused :: "string \<Rightarrow> (nat \<Rightarrow> recv_env) \<Rightarrow> bool" where
  "dirs_refused dir envs \<longleftrightarrow> (\<forall>k. \<forall>n \<in> {''.'', ''..'', ''/''}. re_isdir (envs k) (path_join dir n))"

definition touched :: "string \<Rightarrow> (nat \<Rightarrow> recv_env) \<Rightarrow> 'm engine option \<Rightarrow> files \<Rightarrow> files \<Rightarrow> bool" where
  "touched dir envs eng fs fs' \<longleftrightarrow> (\<forall>q. fs' q \<noteq> fs q \<longrightarrow> in_output dir q \<or> in_store envs eng q)"

lemma touched_refl [simp]: "touched dir envs eng fs fs" by (simp add: touched_def)

lemma touched_trans: "touched dir envs eng fs fs1 \<Longrightarrow> touched dir envs eng fs1 fs2 \<Longrightarrow> touched dir envs eng fs fs2"
  unfolding touched_def by metis

lemma touched_upd: "in_output dir q \<Longrightarrow> touched dir envs eng fs fs' \<Longrightarrow> touched dir envs eng fs (fs'(q := v))"
  by (auto simp: touched_def)

text \<open>The engine's directory stays the same.\<close>

definition same_dir :: "'m engine option \<Rightarrow> 'm engine option \<Rightarrow> bool" where
  "same_dir eng eng' \<longleftrightarrow> map_option en_chunkDir eng' = map_option en_chunkDir eng"

lemma same_dir_store: "same_dir eng eng' \<Longrightarrow> in_store envs eng' q \<longleftrightarrow> in_store envs eng q"
  by (cases eng; cases eng') (auto simp: same_dir_def in_store_def)

lemma same_dir_touched: "same_dir eng eng' \<Longrightarrow> touched dir envs eng' fs fs' \<longleftrightarrow> touched dir envs eng fs fs'"
  by (simp add: touched_def same_dir_store)

lemma engine_write_touched:
  assumes "engine_write bl (envs k) d rv = (r, rv')"
  shows "touched dir envs (rv_engine rv) (rv_fs rv) (rv_fs rv') \<and> same_dir (rv_engine rv) (rv_engine rv') \<and>
    rv_out rv' = rv_out rv \<and> rv_resumePath rv' = rv_resumePath rv"
proof (cases "rv_engine rv")
  case None
  then show ?thesis using assms by (simp add: engine_write_def same_dir_def)
next
  case (Some e)
  obtain r1 e' fs' where w: "WriteChunk bl (re_chunk (envs k)) (re_partial (envs k)) (re_db (envs k)) e (rv_fs rv) d = (r1, e', fs')"
    by (metis prod_cases3)
  have "rv' = rv\<lparr>rv_engine := Some e', rv_fs := fs'\<rparr>"
    using assms w Some by (simp add: engine_write_def split: sum.splits)
  then show ?thesis using WriteChunk_frame [OF w] Some by (auto simp: touched_def in_store_def same_dir_def)
qed

lemma store_chunk_touched:
  assumes "store_chunk bl opts (envs k) out d rv = (r, rv')" "in_output dir out" "in_output dir (rv_resumePath rv)"
  shows "touched dir envs (rv_engine rv) (rv_fs rv) (rv_fs rv') \<and> same_dir (rv_engine rv) (rv_engine rv') \<and>
    rv_out rv' = rv_out rv \<and> rv_resumePath rv' = rv_resumePath rv"
proof -
  let ?rv1 = "rv\<lparr>rv_fs := append_file out d (rv_fs rv)\<rparr>"
  obtain st rv2 where w: "engine_write bl (envs k) d ?rv1 = (st, rv2)" by fastforce
  have t1: "touched dir envs (rv_engine rv) (rv_fs rv) (append_file out b (rv_fs rv))" for b
    using assms(2) by (simp add: append_file_def touched_upd)
  have t2: "touched dir envs (rv_engine rv) (rv_fs rv) (rv_fs rv2)" "same_dir (rv_engine rv) (rv_engine rv2)"
    "rv_out rv2 = rv_out rv" "rv_resumePath rv2 = rv_resumePath rv"
    using engine_write_touched [where envs = envs and k = k, OF w, of dir] touched_trans [OF t1 [of d]] by auto
  show ?thesis
  proof (cases "re_write (envs k)")
    case Wrote
    then show ?thesis
      using assms(1) w t2 touched_upd [OF assms(3) t2(1)]
      by (auto simp: store_chunk_def persistState_def Let_def split: option.splits if_splits write_outcome.splits)
  qed (use assms(1) t1 in \<open>auto simp: store_chunk_def same_dir_def\<close>)
qed

lemma processPacket_confined:
  assumes pp: "processPacket bl C opts key dir (envs k) p rv = (r, rv')" and conf: "confined dir rv" and dirs: "dirs_refused dir envs"
  shows "touched dir envs (rv_engine rv) (rv_fs rv) (rv_fs rv') \<and> same_dir (rv_engine rv) (rv_engine rv') \<and>
    (r = Continue \<longrightarrow> confined dir rv')"
proof -
  have "process_start opts dir (envs k) p rv = (r, rv') \<or> process_chunk bl C opts key (envs k) p rv = (r, rv') \<or>
      process_end opts (envs k) rv = (r, rv') \<or> (r = Failed (UnknownType (pk_Type p)) \<and> rv' = rv)"
    using pp unfolding processPacket_def
    by (cases "pk_Type p = ''start''"; cases "pk_Type p = ''chunk''"; cases "pk_Type p = ''end''"; simp)
  then consider (start) "process_start opts dir (envs k) p rv = (r, rv')"
    | (chunk) "process_chunk bl C opts key (envs k) p rv = (r, rv')"
    | (fin) "process_end opts (envs k) rv = (r, rv')"
    | (other) "r = Failed (UnknownType (pk_Type p))" "rv' = rv"
    by blast
  then show ?thesis
  proof cases
    case start
    let ?n = "path_base (pk_FileName p)"
    show ?thesis
    proof (cases "plain_name ?n")
      case True
      have io: "in_output dir (path_join dir ?n)" "in_output dir (resume_path (path_join dir ?n))"
        using True by (auto simp: in_output_def path_join_plain)
      have "touched dir envs (rv_engine rv) (rv_fs rv) (open_output b (path_join dir ?n) (rv_fs rv))" for b
        using io(1) by (simp add: open_output_def append_file_def touched_upd)
      then show ?thesis
        using start io by (auto simp: process_start_def Let_def same_dir_def confined_def split: if_splits)
    next
      case False
      then have "re_isdir (envs k) (path_join dir ?n)" using path_base_cases [of "pk_FileName p"] dirs by (auto simp: dirs_refused_def)
      then show ?thesis using start by (auto simp: process_start_def Let_def same_dir_def)
    qed
  next
    case chunk
    show ?thesis
    proof (cases "rv_out rv")
      case (Some out)
      have io: "in_output dir out" "in_output dir (rv_resumePath rv)" using conf Some by (auto simp: confined_def)
      show ?thesis
      proof (cases "\<exists>d. store_chunk bl opts (envs k) out d rv = (r, rv')")
        case True
        then obtain d where "store_chunk bl opts (envs k) out d rv = (r, rv')" by blast
        from store_chunk_touched [where envs = envs and k = k, OF this io] show ?thesis using conf Some by (auto simp: confined_def)
      next
        case False
        then have "rv' = rv" using chunk Some by (auto simp: process_chunk_def split: if_splits sum.splits)
        then show ?thesis using conf by (simp add: same_dir_def)
      qed
    qed (use chunk conf in \<open>auto simp: process_chunk_def same_dir_def\<close>)
  next
    case fin
    then show ?thesis
      using fin conf by (auto simp: process_end_def confined_def same_dir_def os_remove_def touched_upd split: if_splits)
  next
    case other
    then show ?thesis using conf by (simp add: same_dir_def)
  qed
qed

lemma receive_loop_confined:
  assumes "receive_loop bl C opts key dir envs k inp rv = (r, rv')" "confined dir rv" "dirs_refused dir envs"
  shows "touched dir envs (rv_engine rv) (rv_fs rv) (rv_fs rv')"
  using assms
proof (induction bl C opts key dir envs k inp rv rule: receive_loop.induct)
  case (3 bl C opts key dir envs k p inp rv)
  obtain res rv1 where pp: "processPacket bl C opts key dir (envs k) p rv = (res, rv1)" by fastforce
  note one = processPacket_confined [where envs = envs and k = k, OF pp "3.prems"(2,3)]
  show ?case
  proof (cases res)
    case Continue
    have "touched dir envs (rv_engine rv1) (rv_fs rv1) (rv_fs rv')"
      using "3.IH" [OF pp [symmetric] Continue] "3.prems" pp Continue one by simp
    then show ?thesis using one same_dir_touched touched_trans by blast
  qed (use "3.prems" pp one in auto)
qed auto

text \<open>An environment in which everything works.\<close>

definition demo_recv_env :: recv_env where
  "demo_recv_env = \<lparr>re_load = True, re_open = True, re_isdir = (\<lambda>q. q = ''out'' \<or> q = ''.''), re_encode = True, re_write = Wrote,
     re_chunk = smooth_fs, re_partial = [], re_db = True, re_persist = Wrote, re_close = True, re_remove = True\<rparr>"

definition demo_conn :: conn_env where
  "demo_conn = \<lparr>cv_tls = True, cv_listen = True, cv_accept = True, cv_stream = True, cv_mkdir = True, cv_auth_write = True\<rparr>"

lemma demo_dirs: "dirs_refused ''out'' (\<lambda>_. demo_recv_env)"
proof -
  have "path_join ''out'' ''.'' = ''out''" "path_join ''out'' ''..'' = ''.''" "path_join ''out'' ''/'' = ''out''" by code_simp+
  then show ?thesis by (simp add: dirs_refused_def demo_recv_env_def)
qed

text \<open>
  C13. A sender cannot make the receiver write outside the output directory: whatever packets arrive
  and whatever fails, every file that changes lies directly in the output directory under a plain
  name (the output or its side file), or belongs to the engine's chunk store.
\<close>

theorem received_files_confined:
  assumes "dirs_refused dir envs" and "ReceiveOnceWithOptions bl C txt now opts dir cv envs eng fs inp = (res, rv)"
    and "rv_fs rv q \<noteq> fs q"
  shows "in_output dir q \<or> in_store envs eng q"
proof -
  have new: "rv_fs (new_receiver eng fs out) = fs" "rv_engine (new_receiver eng fs out) = eng"
    "confined dir (new_receiver eng fs out)" for out :: "packet list"
    by (simp_all add: new_receiver_def confined_def)
  have run: "touched dir envs eng fs (rv_fs rv')"
    if "receive_loop bl C opts key dir envs k r rv1 = (e, rv')" "touched dir envs eng fs (rv_fs rv1)"
      "same_dir eng (rv_engine rv1)" "confined dir rv1" for key k r rv1 e rv'
    using receive_loop_confined [OF that(1,4) assms(1)] that(2,3) same_dir_touched touched_trans by blast
  have "touched dir envs eng fs (rv_fs rv)"
  proof (cases "\<exists>hs out r. serverAuthHandshake C txt now (cv_auth_write cv) (ro_Identity opts) (ro_RequireAuth opts)
      (ro_SpaceKey opts) inp = (Inr hs, out, r) \<and> cv_tls cv \<and> cv_listen cv \<and> cv_accept cv \<and> cv_stream cv \<and> cv_mkdir cv")
    case False
    then have "rv_fs rv = fs"
      using assms(2) new by (auto simp: ReceiveOnceWithOptions_def Let_def split: if_splits sum.splits prod.splits)
    then show ?thesis by simp
  next
    case True
    then obtain hs out r where hs: "serverAuthHandshake C txt now (cv_auth_write cv) (ro_Identity opts) (ro_RequireAuth opts)
      (ro_SpaceKey opts) inp = (Inr hs, out, r)" "cv_tls cv" "cv_listen cv" "cv_accept cv" "cv_stream cv" "cv_mkdir cv" by blast
    show ?thesis
    proof (cases "hs_pending hs")
      case None
      obtain e rv' where L: "receive_loop bl C opts (hs_sessionKey hs) dir envs 0 r (new_receiver eng fs out) = (e, rv')" by fastforce
      have "rv' = rv" using assms(2) hs None L by (auto simp: ReceiveOnceWithOptions_def Let_def)
      then show ?thesis using run [OF L] new by (simp add: same_dir_def)
    next
      case (Some p)
      obtain e rv' where L: "receive_loop bl C opts (hs_sessionKey hs) dir envs 0 (Some p # r) (new_receiver eng fs out) = (e, rv')" by fastforce
      have "rv' = rv" using assms(2) hs Some L
        by (auto simp: ReceiveOnceWithOptions_def Let_def split: prod.splits recv_result.splits)
      then show ?thesis using run [OF L] new by (simp add: same_dir_def)
    qed
  qed
  then show ?thesis using assms(3) by (auto simp: touched_def)
qed

theorem received_files_confined_witness:
  "\<exists>rv. ReceiveOnceWithOptions id demo_crypto (\<lambda>_. []) 0 default_recv_opts ''out'' demo_conn (\<lambda>_. demo_recv_env)
       (None :: ((string, bytes) rbt \<times> nat) engine option) no_files
       [Some ((plain_packet ''start'' [])\<lparr>pk_FileName := ''../etc/passwd''\<rparr>)] = (None, rv) \<and>
     rv_fs rv ''out/passwd'' = Some [] \<and>
     (in_output ''out'' ''out/passwd'' \<or> in_store (\<lambda>_. demo_recv_env) (None :: ((string, bytes) rbt \<times> nat) engine option) ''out/passwd'')"
proof -
  let ?p = "(plain_packet ''start'' [])\<lparr>pk_FileName := ''../etc/passwd''\<rparr>"
  have path: "path_join ''out'' (path_base ''../etc/passwd'') = ''out/passwd''" by code_simp
  obtain rv where rv: "ReceiveOnceWithOptions id demo_crypto (\<lambda>_. []) 0 default_recv_opts ''out'' demo_conn (\<lambda>_. demo_recv_env)
       (None :: ((string, bytes) rbt \<times> nat) engine option) no_files [Some ?p] = (None, rv)" "rv_fs rv ''out/passwd'' = Some []"
    by (simp add: ReceiveOnceWithOptions_def demo_conn_def default_recv_opts_def serverAuthHandshake_def plain_packet_def
        processPacket_def process_start_def start_index_def loadState_def no_files_def new_receiver_def demo_recv_env_def
        path open_output_def Let_def)
  have "rv_fs rv ''out/passwd'' \<noteq> no_files ''out/passwd''" using rv(2) by (simp add: no_files_def)
  from received_files_confined [OF demo_dirs rv(1) this] show ?thesis using rv by blast
qed

end
