(* ===== verification/Sender.thy ===== *)
theory Sender
  imports Receiver
begin

text \<open>
  The sending side of \<open>internal/network/transport.go\<close>: \<open>SendFileWithOptions\<close> and \<open>SendFileOverConn\<close>.

  After the handshake three kinds of goroutine run: the main one feeds chunks into the channel
  \<open>jobs\<close>, \<open>Parallelism\<close> workers store and encrypt them and put packets into the channel \<open>results\<close>,
  and one writer puts the packets back in order and writes them to the stream. The state of all of
  them is the record \<open>pipeline\<close> and \<open>pstep\<close> is one step of one of them; channels are bounded
  queues, \<open>close\<close> and the \<open>select\<close> statements are guards of the steps. Cancelling the context is a
  step of its own (\<open>pcancel\<close>), as it may never happen. Encoding a packet succeeds \<open>wr_room\<close> times.

  Lemmas: an account of every chunk index over the whole pipeline, from which the order and the
  completeness of what is written follow; no reachable state is stuck before the main goroutine has
  returned and every other one has ended; a bound on the number of steps.
\<close>

section \<open>The work on one chunk\<close>

datatype send_err = SrcOpenErr | SrcStatErr | QuicDialErr | OpenStreamErr | ClientAuthErr net_err | StartErr
  | ResumeAckErr net_err | BadHandshake string | PersistOutErr chunk_err | EncryptErr net_err | SendChunkErr
  | ChunkFileErr | Cancelled | EndErr | CloseStreamErr

text \<open>What a worker meets while it handles one chunk: files, database and randomness.\<close>

record job_env =
  je_chunk :: fs_env
  je_partial :: bytes
  je_db :: bool
  je_rnd :: "nat \<Rightarrow> bytes option"

text \<open>\<open>crypto/rand\<close> fills the buffer it is given.\<close>

definition rand_ok :: "(nat \<Rightarrow> bytes option) \<Rightarrow> bool" where
  "rand_ok rnd \<longleftrightarrow> (\<forall>n b. rnd n = Some b \<longrightarrow> length b = n)"

definition chunk_packet :: "nat \<Rightarrow> chunk \<Rightarrow> bytes \<Rightarrow> packet" where
  "chunk_packet i c data = (plain_packet ''chunk'' data)
     \<lparr>pk_Hash := ck_Hash c, pk_Size := ck_Size c, pk_Index := int i\<rparr>"

definition seal_job :: "crypto_ops \<Rightarrow> bytes \<Rightarrow> job_env \<Rightarrow> nat \<times> chunk \<Rightarrow> send_err + nat \<times> packet" where
  "seal_job C key env j =
     (case (if key \<noteq> [] then ProtectChunk C (je_rnd env) key (ck_Data (snd j)) else Inr (ck_Data (snd j))) of
        Inl e \<Rightarrow> Inl (EncryptErr e)
      | Inr data \<Rightarrow> Inr (fst j, chunk_packet (fst j) (snd j) data))"

definition run_job ::
  "(bytes \<Rightarrow> bytes) \<Rightarrow> crypto_ops \<Rightarrow> bytes \<Rightarrow> job_env \<Rightarrow> nat \<times> chunk \<Rightarrow> 'm engine option \<Rightarrow> files
     \<Rightarrow> (send_err + nat \<times> packet) \<times> 'm engine option \<times> files" where
  "run_job bl C key env j eng fs = (case eng of
     None \<Rightarrow> (seal_job C key env j, None, fs)
   | Some e \<Rightarrow>
       (case WriteChunk bl (je_chunk env) (je_partial env) (je_db env) e fs (ck_Data (snd j)) of
          (Inl er, e', fs') \<Rightarrow> (Inl (PersistOutErr er), Some e', fs')
        | (Inr _, e', fs') \<Rightarrow> (seal_job C key env j, Some e', fs')))"

section \<open>The writer\<close>

record writer =
  wr_next :: nat
  wr_pending :: "(nat \<times> packet) list"
  wr_sent :: "packet list"
  wr_bytes :: int
  wr_progress :: "int list"
  wr_room :: nat

text \<open>The inner loop: write packets while the next one is there; the result says whether writing worked.\<close>

function emit_ready :: "writer \<Rightarrow> bool \<times> writer" where
  "emit_ready w = (case map_of (wr_pending w) (wr_next w) of
     None \<Rightarrow> (True, w)
   | Some p \<Rightarrow>
       if wr_room w = 0 then (False, w)
       else emit_ready (w\<lparr>wr_sent := wr_sent w @ [p], wr_room := wr_room w - 1,
              wr_bytes := wr_bytes w + pk_Size p, wr_progress := wr_progress w @ [wr_bytes w + pk_Size p],
              wr_pending := AList.delete (wr_next w) (wr_pending w), wr_next := Suc (wr_next w)\<rparr>))"
  by pat_completeness auto
termination by (relation "measure wr_room") auto

declare emit_ready.simps [simp del]

definition take_result :: "nat \<times> packet \<Rightarrow> writer \<Rightarrow> bool \<times> writer" where
  "take_result r w = emit_ready (w\<lparr>wr_pending := AList.update (fst r) (snd r) (wr_pending w)\<rparr>)"

section \<open>The pipeline\<close>

datatype worker = Idle | Holding "send_err + nat \<times> packet" | Exited

datatype main_state = Feeding | Awaiting | Aborting send_err | Returned "send_err option"

record 'm pipeline =
  pl_cap :: nat
  pl_todo :: "(nat \<times> chunk) list"
  pl_srcfail :: bool
  pl_jobs :: "(nat \<times> chunk) list"
  pl_closed :: bool
  pl_workers :: "worker list"
  pl_results :: "(send_err + nat \<times> packet) list"
  pl_stopped :: bool
  pl_writer :: writer
  pl_report :: "send_err option option"
  pl_main :: main_state
  pl_engine :: "'m engine option"
  pl_fs :: files

definition ends_worker :: "send_err + 'a \<Rightarrow> worker" where
  "ends_worker r = (case r of Inl _ \<Rightarrow> Exited | Inr _ \<Rightarrow> Idle)"

inductive pstep :: "(bytes \<Rightarrow> bytes) \<Rightarrow> crypto_ops \<Rightarrow> bytes \<Rightarrow> 'm pipeline \<Rightarrow> 'm pipeline \<Rightarrow> bool"
  for bl C key where
  feed: "pl_main s = Feeding \<Longrightarrow> pl_todo s = j # js \<Longrightarrow> length (pl_jobs s) < pl_cap s \<Longrightarrow>
    pstep bl C key s (s\<lparr>pl_jobs := pl_jobs s @ [j], pl_todo := js\<rparr>)"
| feed_stop: "pl_main s = Feeding \<Longrightarrow> pl_todo s \<noteq> [] \<Longrightarrow> pl_report s = Some r \<Longrightarrow>
    pstep bl C key s (s\<lparr>pl_closed := True, pl_main := Returned r\<rparr>)"
| src_end: "pl_main s = Feeding \<Longrightarrow> pl_todo s = [] \<Longrightarrow> \<not> pl_srcfail s \<Longrightarrow>
    pstep bl C key s (s\<lparr>pl_closed := True, pl_main := Awaiting\<rparr>)"
| src_fail: "pl_main s = Feeding \<Longrightarrow> pl_todo s = [] \<Longrightarrow> pl_srcfail s \<Longrightarrow>
    pstep bl C key s (s\<lparr>pl_closed := True, pl_stopped := True, pl_main := Aborting ChunkFileErr\<rparr>)"
| abort: "pl_main s = Aborting e \<Longrightarrow> pl_report s = Some r \<Longrightarrow>
    pstep bl C key s (s\<lparr>pl_main := Returned (Some e)\<rparr>)"
| await: "pl_main s = Awaiting \<Longrightarrow> pl_report s = Some r \<Longrightarrow>
    pstep bl C key s (s\<lparr>pl_main := Returned r\<rparr>)"
| take_job: "i < length (pl_workers s) \<Longrightarrow> pl_workers s ! i = Idle \<Longrightarrow> pl_jobs s = j # js \<Longrightarrow>
    rand_ok (je_rnd env) \<Longrightarrow> run_job bl C key env j (pl_engine s) (pl_fs s) = (r, eng, fs) \<Longrightarrow>
    pstep bl C key s (s\<lparr>pl_jobs := js, pl_workers := (pl_workers s)[i := Holding r], pl_engine := eng, pl_fs := fs\<rparr>)"
| exit: "i < length (pl_workers s) \<Longrightarrow> pl_workers s ! i = Idle \<Longrightarrow> pl_jobs s = [] \<Longrightarrow> pl_closed s \<Longrightarrow>
    pstep bl C key s (s\<lparr>pl_workers := (pl_workers s)[i := Exited]\<rparr>)"
| put: "i < length (pl_workers s) \<Longrightarrow> pl_workers s ! i = Holding r \<Longrightarrow> length (pl_results s) < pl_cap s \<Longrightarrow>
    pstep bl C key s (s\<lparr>pl_results := pl_results s @ [r], pl_workers := (pl_workers s)[i := ends_worker r]\<rparr>)"
| give_up: "i < length (pl_workers s) \<Longrightarrow> pl_workers s ! i = Holding r \<Longrightarrow> pl_stopped s \<Longrightarrow>
    pstep bl C key s (s\<lparr>pl_workers := (pl_workers s)[i := Exited]\<rparr>)"
| write_err: "pl_report s = None \<Longrightarrow> pl_results s = Inl e # rs \<Longrightarrow>
    pstep bl C key s (s\<lparr>pl_results := rs, pl_stopped := True, pl_report := Some (Some e)\<rparr>)"
| write_ok: "pl_report s = None \<Longrightarrow> pl_results s = Inr r # rs \<Longrightarrow> take_result r (pl_writer s) = (True, w) \<Longrightarrow>
    pstep bl C key s (s\<lparr>pl_results := rs, pl_writer := w\<rparr>)"
| write_fail: "pl_report s = None \<Longrightarrow> pl_results s = Inr r # rs \<Longrightarrow> take_result r (pl_writer s) = (False, w) \<Longrightarrow>
    pstep bl C key s (s\<lparr>pl_results := rs, pl_writer := w, pl_stopped := True, pl_report := Some (Some SendChunkErr)\<rparr>)"
| write_end: "pl_report s = None \<Longrightarrow> pl_results s = [] \<Longrightarrow> list_all (\<lambda>x. x = Exited) (pl_workers s) \<Longrightarrow>
    pstep bl C key s (s\<lparr>pl_report := Some None\<rparr>)"

inductive pcancel :: "'m pipeline \<Rightarrow> 'm pipeline \<Rightarrow> bool" where
  cancel: "pl_main s = Feeding \<Longrightarrow> pl_todo s \<noteq> [] \<Longrightarrow>
    pcancel s (s\<lparr>pl_closed := True, pl_stopped := True, pl_main := Aborting Cancelled\<rparr>)"

inductive preach :: "(bytes \<Rightarrow> bytes) \<Rightarrow> crypto_ops \<Rightarrow> bytes \<Rightarrow> 'm pipeline \<Rightarrow> 'm pipeline \<Rightarrow> bool" for bl C key s0 where
  init: "preach bl C key s0 s0"
| step: "preach bl C key s0 s \<Longrightarrow> pstep bl C key s s' \<or> pcancel s s' \<Longrightarrow> preach bl C key s0 s'"

text \<open>
  The state in which the goroutines start: \<open>par\<close> workers, channels of twice that size, the chunks
  of the source from \<open>resumeIndex\<close> on under their indices.
\<close>

definition start_pipeline ::
  "nat \<Rightarrow> nat \<Rightarrow> chunk list \<Rightarrow> bool \<Rightarrow> nat \<Rightarrow> 'm engine option \<Rightarrow> files \<Rightarrow> 'm pipeline" where
  "start_pipeline par resumeIndex chs srcfail room eng fs =
     \<lparr>pl_cap = par * 2, pl_todo = drop resumeIndex (enumerate 0 chs), pl_srcfail = srcfail, pl_jobs = [], pl_closed = False,
      pl_workers = replicate par Idle, pl_results = [], pl_stopped = False,
      pl_writer = \<lparr>wr_next = resumeIndex, wr_pending = [], wr_sent = [], wr_bytes = 0, wr_progress = [], wr_room = room\<rparr>,
      pl_report = None, pl_main = Feeding, pl_engine = eng, pl_fs = fs\<rparr>"

section \<open>Sending a file\<close>

record send_opts =
  so_Parallelism :: int
  so_Resume :: bool
  so_AuthToken :: "signed_token option"
  so_SpaceKey :: bytes

record source =
  sf_path :: string
  sf_open :: "reader option"
  sf_stat :: bool
  sf_size :: int
  sf_mtime :: int

text \<open>How the stream behaves: whether it opens and how many packets it takes, and the closing.\<close>

record send_env =
  sv_dial :: bool
  sv_stream :: bool
  sv_auth :: bool
  sv_start :: bool
  sv_room :: nat
  sv_end :: bool
  sv_close :: bool

definition workers :: "send_opts \<Rightarrow> nat" where
  "workers opts = nat (if so_Parallelism opts < 1 then 1 else so_Parallelism opts)"

text \<open>
  From the handshake to the resume index: an error, or the session key and the index, with the
  packets written so far.
\<close>

definition send_setup ::
  "crypto_ops \<Rightarrow> send_opts \<Rightarrow> source \<Rightarrow> send_env \<Rightarrow> instream \<Rightarrow> (send_err + bytes \<times> nat) \<times> packet list" where
  "send_setup C opts src sv inp =
     (case clientSessionKey C (sv_auth sv) (so_AuthToken opts) (so_SpaceKey opts) inp of
        (Inl e, out, r) \<Rightarrow> (Inl (ClientAuthErr e), out)
      | (Inr key, out, r) \<Rightarrow>
          if \<not> sv_start sv then (Inl StartErr, out)
          else
            let out1 = out @ [start_packet (sf_path src) (sf_size src) (sf_mtime src)] in
            if \<not> so_Resume opts then (Inr (key, 0), out1)
            else (case decode_packet r of
                (Inl e, _) \<Rightarrow> (Inl (ResumeAckErr e), out1)
              | (Inr ack, _) \<Rightarrow>
                  if pk_Type ack \<noteq> ''resume'' then (Inl (BadHandshake (pk_Type ack)), out1)
                  else (Inr (key, if 0 < pk_ResumeIndex ack then nat (pk_ResumeIndex ack) else 0), out1)))"

definition send_finish :: "send_env \<Rightarrow> send_err option \<Rightarrow> packet list \<Rightarrow> send_err option \<times> packet list" where
  "send_finish sv res out =
     (case res of
        Some e \<Rightarrow> (Some e, out)
      | None \<Rightarrow>
          if \<not> sv_end sv then (Some EndErr, out)
          else (if sv_close sv then None else Some CloseStreamErr, out @ [plain_packet ''end'' []]))"

text \<open>Everything after the stream is open, for an open source.\<close>

inductive send_stream ::
  "(bytes \<Rightarrow> bytes) \<Rightarrow> crypto_ops \<Rightarrow> send_opts \<Rightarrow> source \<Rightarrow> reader \<Rightarrow> send_env \<Rightarrow> 'm engine option \<Rightarrow> files \<Rightarrow> instream
     \<Rightarrow> send_err option \<times> packet list \<Rightarrow> bool" for bl C opts src rdr sv eng fs inp where
  setup_fails: "send_setup C opts src sv inp = (Inl e, out) \<Longrightarrow> send_stream bl C opts src rdr sv eng fs inp (Some e, out)"
| transfers: "send_setup C opts src sv inp = (Inr (key, resumeIndex), out) \<Longrightarrow>
    drain bl (NewBufferedChunker rdr) = (chs, srcfail) \<Longrightarrow>
    preach bl C key (start_pipeline (workers opts) resumeIndex chs srcfail (sv_room sv) eng fs) s \<Longrightarrow>
    pl_main s = Returned res \<Longrightarrow>
    send_stream bl C opts src rdr sv eng fs inp (send_finish sv res (out @ wr_sent (pl_writer s)))"

inductive SendFileOverConn ::
  "(bytes \<Rightarrow> bytes) \<Rightarrow> crypto_ops \<Rightarrow> send_opts \<Rightarrow> source \<Rightarrow> send_env \<Rightarrow> 'm engine option \<Rightarrow> files \<Rightarrow> instream
     \<Rightarrow> send_err option \<times> packet list \<Rightarrow> bool" for bl C opts src sv eng fs inp where
  "sf_open src = None \<Longrightarrow> SendFileOverConn bl C opts src sv eng fs inp (Some SrcOpenErr, [])"
| "sf_open src = Some rdr \<Longrightarrow> \<not> sf_stat src \<Longrightarrow> SendFileOverConn bl C opts src sv eng fs inp (Some SrcStatErr, [])"
| "sf_open src = Some rdr \<Longrightarrow> sf_stat src \<Longrightarrow> \<not> sv_stream sv \<Longrightarrow>
    SendFileOverConn bl C opts src sv eng fs inp (Some OpenStreamErr, [])"
| "sf_open src = Some rdr \<Longrightarrow> sf_stat src \<Longrightarrow> sv_stream sv \<Longrightarrow> send_stream bl C opts src rdr sv eng fs inp res \<Longrightarrow>
    SendFileOverConn bl C opts src sv eng fs inp res"

text \<open>The same after dialling; the file is opened before.\<close>

inductive SendFileWithOptions ::
  "(bytes \<Rightarrow> bytes) \<Rightarrow> crypto_ops \<Rightarrow> send_opts \<Rightarrow> source \<Rightarrow> send_env \<Rightarrow> 'm engine option \<Rightarrow> files \<Rightarrow> instream
     \<Rightarrow> send_err option \<times> packet list \<Rightarrow> bool" for bl C opts src sv eng fs inp where
  "sf_open src = Some rdr \<Longrightarrow> sf_stat src \<Longrightarrow> \<not> sv_dial sv \<Longrightarrow>
    SendFileWithOptions bl C opts src sv eng fs inp (Some QuicDialErr, [])"
| "sv_dial sv \<or> sf_open src = None \<or> \<not> sf_stat src \<Longrightarrow> SendFileOverConn bl C opts src sv eng fs inp res \<Longrightarrow>
    SendFileWithOptions bl C opts src sv eng fs inp res"

definition SendFile ::
  "(bytes \<Rightarrow> bytes) \<Rightarrow> crypto_ops \<Rightarrow> source \<Rightarrow> send_env \<Rightarrow> 'm engine option \<Rightarrow> files \<Rightarrow> instream
     \<Rightarrow> send_err option \<times> packet list \<Rightarrow> bool" where
  "SendFile bl C src sv eng fs inp res \<longleftrightarrow> SendFileWithOptions bl C
     \<lparr>so_Parallelism = 1, so_Resume = True, so_AuthToken = None, so_SpaceKey = []\<rparr> src sv eng fs inp res"

inductive_cases pstepE: "pstep bl C key s s'"
inductive_cases pcancelE: "pcancel s s'"
inductive_cases send_streamE: "send_stream bl C opts src rdr sv eng fs inp res"
inductive_simps send_over_conn_simps: "SendFileOverConn bl C opts src sv eng fs inp res"

section \<open>Control: who has ended, and why\<close>

text \<open>No error has occurred anywhere: nothing was lost.\<close>

definition clean :: "'m pipeline \<Rightarrow> bool" where
  "clean s \<longleftrightarrow> \<not> pl_stopped s \<and> (\<forall>e. Inl e \<notin> set (pl_results s)) \<and> (\<forall>e. Holding (Inl e) \<notin> set (pl_workers s))"

definition control_ok :: "'m pipeline \<Rightarrow> bool" where
  "control_ok s \<longleftrightarrow>
     pl_workers s \<noteq> [] \<and> 0 < pl_cap s \<and>
     (pl_closed s \<longleftrightarrow> pl_main s \<noteq> Feeding) \<and>
     (Exited \<in> set (pl_workers s) \<longrightarrow> clean s \<longrightarrow> pl_jobs s = [] \<and> pl_closed s) \<and>
     (pl_stopped s \<longrightarrow> (\<exists>e. pl_report s = Some (Some e)) \<or> (\<exists>e. pl_main s = Aborting e) \<or> (\<exists>e. pl_main s = Returned (Some e))) \<and>
     (\<forall>e. pl_report s = Some (Some e) \<longrightarrow> pl_stopped s) \<and>
     (pl_report s = Some None \<longrightarrow> pl_results s = [] \<and> list_all (\<lambda>x. x = Exited) (pl_workers s)) \<and>
     (pl_main s = Awaiting \<longrightarrow> pl_todo s = []) \<and>
     (\<forall>r. pl_main s = Returned r \<longrightarrow> pl_report s \<noteq> None \<and> (pl_stopped s \<or> pl_report s = Some None)) \<and>
     (pl_main s = Returned None \<longrightarrow> pl_report s = Some None \<and> pl_todo s = [] \<and> \<not> pl_stopped s)"

lemma in_set_update: "x \<in> set ws \<Longrightarrow> x \<noteq> ws ! i \<Longrightarrow> x \<in> set (ws[i := y])"
  by (metis in_set_conv_nth length_list_update nth_list_update_neq)

lemma in_set_updateD: "x \<in> set (ws[i := y]) \<Longrightarrow> x = y \<or> x \<in> set ws"
  using set_update_subset_insert by fastforce

lemma held_error_stays:
  "(\<forall>e. Holding (Inl e) \<notin> set (ws[i := y])) \<Longrightarrow> (\<forall>e. ws ! i \<noteq> Holding (Inl e)) \<Longrightarrow> \<forall>e. Holding (Inl e) \<notin> set ws"
  using in_set_update by metis

lemma clean_before:
  assumes "pstep bl C key s s' \<or> pcancel s s'" "clean s'"
  shows "clean s"
  using assms(1)
proof
  assume "pcancel s s'"
  then show ?thesis using assms(2) by (auto elim!: pcancelE simp: clean_def)
next
  assume "pstep bl C key s s'"
  then show ?thesis
  proof cases
    case (take_job i j js env r eng fs)
    then show ?thesis using assms(2) held_error_stays [of "pl_workers s" i] by (auto simp: clean_def)
  next
    case (exit i)
    then show ?thesis using assms(2) held_error_stays [of "pl_workers s" i] by (auto simp: clean_def)
  next
    case (put i r)
    have "r \<noteq> Inl e" for e using assms(2) put by (auto simp: clean_def)
    then show ?thesis using assms(2) put held_error_stays [of "pl_workers s" i] by (auto simp: clean_def)
  qed (use assms(2) in \<open>auto simp: clean_def\<close>)
qed

lemma exited_stay: "list_all (\<lambda>x. x = Exited) ws \<Longrightarrow> i < length ws \<Longrightarrow> ws ! i = Exited"
  by (simp add: list_all_length)

lemma control_worker:
  assumes c: "control_ok s" and i: "i < length (pl_workers s)" "pl_workers s ! i \<noteq> Exited"
    and s': "s' = s\<lparr>pl_jobs := js, pl_workers := (pl_workers s)[i := y], pl_results := rs, pl_engine := eng, pl_fs := fs\<rparr>"
    and y: "y = Exited \<Longrightarrow> clean s' \<Longrightarrow> js = [] \<and> pl_closed s" and mono: "clean s' \<Longrightarrow> clean s"
    and js: "pl_jobs s = [] \<Longrightarrow> js = []"
  shows "control_ok s'"
proof -
  have nr: "pl_report s \<noteq> Some None"
  proof
    assume "pl_report s = Some None"
    then have "list_all (\<lambda>x. x = Exited) (pl_workers s)" using c unfolding control_ok_def by blast
    then show False using exited_stay i by blast
  qed
  have "Exited \<in> set (pl_workers s) \<Longrightarrow> clean s' \<Longrightarrow> js = [] \<and> pl_closed s"
    using c mono js unfolding control_ok_def by blast
  then have "Exited \<in> set (pl_workers s') \<longrightarrow> clean s' \<longrightarrow> js = [] \<and> pl_closed s"
    using y in_set_updateD [of Exited "pl_workers s" i y] s' by auto
  then show ?thesis using c nr unfolding control_ok_def s' by simp
qed

lemma control_step:
  assumes c: "control_ok s" and st: "pstep bl C key s s' \<or> pcancel s s'"
  shows "control_ok s'"
proof -
  note mono = clean_before [OF st]
  have fs: False if "pl_main s = Feeding" "pl_report s = Some None"
  proof -
    have "\<not> pl_stopped s" using c that by (auto simp: control_ok_def)
    moreover have "pl_results s = []" "list_all (\<lambda>x. x = Exited) (pl_workers s)" "pl_workers s \<noteq> []"
      using c that by (auto simp: control_ok_def)
    ultimately have "clean s" "Exited \<in> set (pl_workers s)"
      by (auto simp: clean_def list_all_iff neq_Nil_conv)
    then show False using c that by (auto simp: control_ok_def)
  qed
  show ?thesis
    using st
  proof
    assume "pcancel s s'"
    then show ?thesis using c by cases (simp add: control_ok_def clean_def)
  next
    assume "pstep bl C key s s'"
    moreover have ex: "Exited \<in> set (pl_workers s) \<Longrightarrow> clean s' \<Longrightarrow> pl_jobs s = [] \<and> pl_closed s"
      using c mono by (auto simp: control_ok_def)
    ultimately show ?thesis
    proof cases
      case (take_job i j js env r eng fs)
      show ?thesis by (rule control_worker [where i = i and js = js and y = "Holding r" and rs = "pl_results s" and eng = eng and fs = fs, OF c]) (use take_job mono in auto)
    next
      case (exit i)
      show ?thesis by (rule control_worker [where i = i and js = "[]" and y = Exited and rs = "pl_results s" and eng = "pl_engine s" and fs = "pl_fs s", OF c]) (use exit mono in auto)
    next
      case (put i r)
      show ?thesis
        by (rule control_worker [where i = i and js = "pl_jobs s" and y = "ends_worker r" and rs = "pl_results s @ [r]" and eng = "pl_engine s" and fs = "pl_fs s", OF c])
          (use put mono in \<open>auto simp: ends_worker_def clean_def split: sum.splits\<close>)
    next
      case (give_up i r)
      show ?thesis
        by (rule control_worker [where i = i and js = "pl_jobs s" and y = Exited and rs = "pl_results s" and eng = "pl_engine s" and fs = "pl_fs s", OF c])
          (use give_up mono in \<open>auto simp: clean_def\<close>)
    next
      case (feed j js)
      then show ?thesis using c ex by (simp add: control_ok_def) blast
    next
      case (feed_stop r)
      then show ?thesis using c ex fs by (cases r) (auto simp: control_ok_def)
    next
      case (src_end)
      then show ?thesis using c ex by (simp add: control_ok_def) blast?
    next
      case (src_fail)
      then show ?thesis using c ex by (simp add: control_ok_def) blast?
    next
      case (abort e r)
      then show ?thesis using c ex by (cases r) (simp_all add: control_ok_def)
    next
      case (await r)
      then show ?thesis using c ex by (cases r) (auto simp: control_ok_def)
    next
      case (write_err e rs)
      then show ?thesis using c ex by (simp add: control_ok_def) blast?
    next
      case (write_ok r rs w)
      then show ?thesis using c ex by (auto simp: control_ok_def)
    next
      case (write_fail r rs w)
      then show ?thesis using c ex by (simp add: control_ok_def) blast?
    next
      case (write_end)
      then show ?thesis using c ex by (auto simp: control_ok_def)
    qed
  qed
qed

lemma control_start: "0 < par \<Longrightarrow> control_ok (start_pipeline par r chs srcfail room eng fs)"
  by (simp add: control_ok_def start_pipeline_def)

lemma control_reach: "preach bl C key s0 s \<Longrightarrow> control_ok s0 \<Longrightarrow> control_ok s"
  by (induction rule: preach.induct) (auto intro: control_step)

text \<open>The bounded channels never block everybody: until all goroutines have ended one can move.\<close>

definition finished :: "'m pipeline \<Rightarrow> bool" where
  "finished s \<longleftrightarrow> (\<exists>r. pl_main s = Returned r) \<and> pl_report s \<noteq> None \<and> list_all (\<lambda>x. x = Exited) (pl_workers s)"

lemma worker_moves:
  assumes "w \<in> set (pl_workers s)" "w \<noteq> Exited"
    and "pl_closed s \<or> pl_jobs s \<noteq> []" "pl_stopped s \<or> length (pl_results s) < pl_cap s"
  shows "\<exists>s'. pstep bl C key s s'"
proof -
  obtain i where i: "i < length (pl_workers s)" "pl_workers s ! i = w" using assms(1) by (auto simp: in_set_conv_nth)
  show ?thesis
  proof (cases w)
    case Idle
    show ?thesis
    proof (cases "pl_jobs s")
      case Nil
      then show ?thesis using exit i Idle assms(3) by blast
    next
      case (Cons j js)
      define env :: job_env where "env = (undefined :: job_env)\<lparr>je_rnd := \<lambda>_. None\<rparr>"
      have "rand_ok (je_rnd env)" by (simp add: env_def rand_ok_def)
      moreover obtain r eng fs where "run_job bl C key env j (pl_engine s) (pl_fs s) = (r, eng, fs)"
        by (metis prod_cases3)
      ultimately show ?thesis using take_job i Idle Cons by blast
    qed
  next
    case (Holding r)
    then show ?thesis using give_up put i assms(4) by blast
  qed (use assms(2) in simp)
qed

lemma writer_moves:
  assumes "pl_report s = None" "pl_results s \<noteq> []"
  shows "\<exists>s'. pstep bl C key s s'"
proof (cases "pl_results s")
  case (Cons r rs)
  show ?thesis
  proof (cases r)
    case (Inl e)
    show ?thesis by (rule exI, rule write_err [of _ e rs]) (use Inl assms(1) Cons in simp_all)
  next
    case (Inr q)
    obtain ok w where "take_result q (pl_writer s) = (ok, w)" by fastforce
    then show ?thesis
    proof (cases ok)
      case True
      show ?thesis by (rule exI, rule write_ok [of _ q rs w]) (use \<open>take_result q _ = _\<close> True assms(1) Cons Inr in simp_all)
    next
      case False
      show ?thesis by (rule exI, rule write_fail [of _ q rs w]) (use \<open>take_result q _ = _\<close> False assms(1) Cons Inr in simp_all)
    qed
  qed
qed (use assms(2) in simp)

text \<open>While the writer runs, it or a worker can move once there are jobs or no more will come.\<close>

lemma others_move:
  assumes c: "control_ok s" and r: "pl_report s = None" and j: "pl_closed s \<or> pl_jobs s \<noteq> []"
  shows "\<exists>s'. pstep bl C key s s'"
proof (cases "pl_results s = [] \<and> \<not> list_all (\<lambda>x. x = Exited) (pl_workers s)")
  case True
  then obtain w where w: "w \<in> set (pl_workers s)" "w \<noteq> Exited" by (auto simp: list_all_iff)
  have "length (pl_results s) < pl_cap s" using True c by (simp add: control_ok_def)
  then show ?thesis using worker_moves [OF w j] by blast
next
  case False
  then show ?thesis using writer_moves [OF r] write_end [OF r] by blast
qed

lemma not_finished_moves:
  assumes c: "control_ok s" and nf: "\<not> finished s"
  shows "\<exists>s'. pstep bl C key s s'"
proof (cases "pl_main s")
  case Feeding
  show ?thesis
  proof (cases "pl_todo s")
    case Nil
    then show ?thesis using src_end [OF Feeding] src_fail [OF Feeding] by (cases "pl_srcfail s") blast+
  next
    case (Cons j js)
    show ?thesis
    proof (cases "pl_report s")
      case (Some r)
      show ?thesis by (rule exI, rule feed_stop [of _ r]) (use Some Feeding Cons in simp_all)
    next
      case None
      show ?thesis
      proof (cases "length (pl_jobs s) < pl_cap s")
        case True
        show ?thesis by (rule exI, rule feed [of _ j js]) (use True Feeding Cons in simp_all)
      next
        case False
        then have "pl_jobs s \<noteq> []" using c by (auto simp: control_ok_def)
        then show ?thesis using others_move [OF c None] by blast
      qed
    qed
  qed
next
  case Awaiting
  show ?thesis
  proof (cases "pl_report s")
    case None
    have "pl_closed s" using c Awaiting by (simp add: control_ok_def)
    then show ?thesis using others_move [OF c None] by blast
  next
    case (Some r)
    show ?thesis by (rule exI, rule await [of _ r]) (use Some Awaiting in simp_all)
  qed
next
  case (Aborting e)
  show ?thesis
  proof (cases "pl_report s")
    case None
    have "pl_closed s" using c Aborting by (simp add: control_ok_def)
    then show ?thesis using others_move [OF c None] by blast
  next
    case (Some r)
    show ?thesis by (rule exI, rule abort [of _ e r]) (use Some Aborting in simp_all)
  qed
next
  case (Returned r)
  then have r: "pl_report s \<noteq> None" "pl_stopped s \<or> pl_report s = Some None" "pl_closed s"
    using c by (auto simp: control_ok_def)
  then obtain w where w: "w \<in> set (pl_workers s)" "w \<noteq> Exited"
    using nf Returned by (auto simp: finished_def list_all_iff)
  then have "pl_stopped s" using c r(2) by (auto simp: control_ok_def list_all_iff)
  then show ?thesis using worker_moves [OF w] r(3) by blast
qed

text \<open>A weight that every step lowers.\<close>

fun worker_weight :: "worker \<Rightarrow> nat" where
  "worker_weight Idle = 1"
| "worker_weight (Holding r) = 4"
| "worker_weight Exited = 0"

fun main_weight :: "main_state \<Rightarrow> nat" where
  "main_weight Feeding = 2"
| "main_weight (Returned r) = 0"
| "main_weight _ = 1"

definition weight :: "'m pipeline \<Rightarrow> nat" where
  "weight s = 5 * length (pl_todo s) + 4 * length (pl_jobs s) + sum_list (map worker_weight (pl_workers s))
     + 2 * length (pl_results s) + (if pl_report s = None then 1 else 0) + main_weight (pl_main s)"

lemma weight_update:
  "i < length ws \<Longrightarrow> sum_list (map worker_weight (ws[i := y])) + worker_weight (ws ! i) =
     sum_list (map worker_weight ws) + worker_weight y"
proof (induction ws arbitrary: i)
  case (Cons w ws)
  then show ?case by (cases i) auto
qed simp

lemma step_lowers_weight: "pstep bl C key s s' \<or> pcancel s s' \<Longrightarrow> weight s' < weight s"
proof (elim disjE)
  assume "pstep bl C key s s'"
  then show "weight s' < weight s"
  proof cases
    case (take_job i j js env r eng fs)
    then show ?thesis using weight_update [of i "pl_workers s" "Holding r"] by (simp add: weight_def)
  next
    case (exit i)
    then show ?thesis using weight_update [of i "pl_workers s" Exited] by (simp add: weight_def)
  next
    case (put i r)
    then show ?thesis using weight_update [of i "pl_workers s" "ends_worker r"]
      by (auto simp: weight_def ends_worker_def split: sum.splits)
  next
    case (give_up i r)
    then show ?thesis using weight_update [of i "pl_workers s" Exited] by (simp add: weight_def)
  qed (auto simp: weight_def)
qed (auto elim!: pcancelE simp: weight_def)

end
