(* ===== verification/RelayTransfer.thy ===== *)
theory RelayTransfer
  imports Relay Sender
begin

text \<open>
  \<open>internal/network/relay_transfer.go\<close>: a file sent through the relay's inboxes. The relay is the
  server of \<open>Relay\<close>, called through its client over a link; the file is cut by the chunker of
  \<open>Cdc\<close>. Every push has its own environment (cancellation of the context, randomness, link, clock),
  and so has the reception, whose file writes may fail at any chunk.

  Lemmas: chunk keys parse back; a file that fits one relay line arrives and a larger one cannot be
  sent; a reception writes at most one file, directly in the output directory, and empties the inbox.
\<close>

definition relayManifestPrefix :: string where "relayManifestPrefix = ''manifest:''"

record relay_manifest =
  rm_TransferID :: string
  rm_FileName :: string
  rm_TotalSize :: int
  rm_ChunkCount :: int
  rm_SpaceID :: string

definition manifest_fields :: "relay_manifest \<Rightarrow> (string \<times> json) list" where
  "manifest_fields m =
     [(''transfer_id'', JStr (rm_TransferID m)), (''file_name'', JStr (rm_FileName m)),
      (''total_size'', jint (rm_TotalSize m)), (''chunk_count'', jint (rm_ChunkCount m))]
     @ omit_str ''space_id'' (rm_SpaceID m)"

definition manifest_of_fields :: "(string \<times> json) list \<Rightarrow> relay_manifest option" where
  "manifest_of_fields kvs = do {
     t \<leftarrow> str_field ''transfer_id'' kvs;
     n \<leftarrow> str_field ''file_name'' kvs;
     s \<leftarrow> int_field ''total_size'' kvs;
     c \<leftarrow> int_field ''chunk_count'' kvs;
     sp \<leftarrow> str_field ''space_id'' kvs;
     Some \<lparr>rm_TransferID = t, rm_FileName = n, rm_TotalSize = s, rm_ChunkCount = c, rm_SpaceID = sp\<rparr>
   }"

definition manifest_ok :: "relay_manifest \<Rightarrow> bool" where
  "manifest_ok m \<longleftrightarrow> in_int64 (rm_TotalSize m) \<and> in_int64 (rm_ChunkCount m)"

interpretation manifest_json: json_struct manifest_fields manifest_of_fields manifest_ok
  by unfold_locales
    (auto simp: manifest_fields_def manifest_of_fields_def manifest_ok_def omit_str_def field_simps_json
      jint_def parse_int64_fmt_int)

section \<open>Chunk keys\<close>

definition relayChunkKey :: "string \<Rightarrow> int \<Rightarrow> string \<Rightarrow> string" where
  "relayChunkKey transferID i h = transferID @ '':'' @ fmt_int i @ '':'' @ h"

datatype chunk_key_err = KeyShape string | KeyIndex string

definition parseRelayChunkKey :: "string \<Rightarrow> chunk_key_err + (string \<times> int \<times> string)" where
  "parseRelayChunkKey key = (case split_n 3 (CHR '':'') key of
     [t, i, h] \<Rightarrow> (case parse_int64 i of None \<Rightarrow> Inl (KeyIndex i) | Some n \<Rightarrow> Inr (t, n, h))
   | _ \<Rightarrow> Inl (KeyShape key))"

definition randomTransferID :: "(nat \<Rightarrow> bytes option) \<Rightarrow> crypto_err + string" where
  "randomTransferID rnd = randomHex rnd 16"

section \<open>Sending\<close>

record relay_transfer =
  rt_Client :: "string option"
  rt_SessionKey :: bytes

record push_env =
  pe_cancelled :: bool
  pe_rnd :: "nat \<Rightarrow> bytes option"
  pe_commit :: bool
  pe_now :: int
  pe_link :: link

datatype relay_send_err = SendNoClient | RelaySrcOpenErr | RelaySrcStatErr | TransferIDErr crypto_err | SendCancelled
  | RelayChunkFileErr | RelayEncryptErr nat net_err | RelayPushErr nat client_err | ManifestEncryptErr net_err
  | ManifestPushErr client_err

text \<open>Encryption under the session key, when there is one.\<close>

definition protect_with :: "crypto_ops \<Rightarrow> (nat \<Rightarrow> bytes option) \<Rightarrow> bytes \<Rightarrow> bytes \<Rightarrow> net_err + bytes" where
  "protect_with C rnd key data = (if key \<noteq> [] then ProtectChunk C rnd key data else Inr data)"

definition unprotect_with :: "crypto_ops \<Rightarrow> bytes \<Rightarrow> bytes \<Rightarrow> net_err + bytes" where
  "unprotect_with C key data = (if key \<noteq> [] then UnprotectChunk C key data else Inr data)"

text \<open>The loop over the chunks; \<open>idx\<close> is the number of the chunk and of the environment it meets.\<close>

function push_file ::
  "('m, bytes) bucket_ops \<Rightarrow> 'm relay_lib \<Rightarrow> (bytes \<Rightarrow> bytes) \<Rightarrow> crypto_ops \<Rightarrow> bytes \<Rightarrow> (nat \<Rightarrow> push_env) \<Rightarrow> string \<Rightarrow> string
     \<Rightarrow> nat \<Rightarrow> chunker \<Rightarrow> 'm relay_server \<Rightarrow> (relay_send_err + nat) \<times> 'm relay_server" where
  "push_file B L bl C key envs to tid idx c s =
     (let env = envs idx in
      if pe_cancelled env then (Inl SendCancelled, s)
      else case Next bl c of
          (Inl NextEOF, c') \<Rightarrow> (Inr idx, s)
        | (Inl NextReadErr, c') \<Rightarrow> (Inl RelayChunkFileErr, s)
        | (Inr ch, c') \<Rightarrow>
            (case protect_with C (pe_rnd env) key (ck_Data ch) of
               Inl e \<Rightarrow> (Inl (RelayEncryptErr idx e), s)
             | Inr data \<Rightarrow>
                 (case PushChunk B L (pe_commit env) (pe_now env) (pe_link env) to (relayChunkKey tid (int idx) (ck_Hash ch)) data s of
                    (Inl e, s') \<Rightarrow> (Inl (RelayPushErr idx e), s')
                  | (Inr _, s') \<Rightarrow> push_file B L bl C key envs to tid (Suc idx) c' s')))"
  by pat_completeness auto
termination
  by (relation "measure (\<lambda>(B, L, bl, C, key, envs, to, tid, idx, c, s). all_bytes c)")
    (auto dest: Next_consumes [OF sym])

declare push_file.simps [simp del]

text \<open>\<open>SendFile\<close>; the transfer id is returned with every error that comes after it was drawn.\<close>

definition RelaySendFile ::
  "('m, bytes) bucket_ops \<Rightarrow> 'm relay_lib \<Rightarrow> (bytes \<Rightarrow> bytes) \<Rightarrow> crypto_ops \<Rightarrow> (nat \<Rightarrow> bytes option) \<Rightarrow> (nat \<Rightarrow> push_env) \<Rightarrow> push_env
     \<Rightarrow> relay_transfer \<Rightarrow> string \<Rightarrow> source \<Rightarrow> string \<Rightarrow> 'm relay_server \<Rightarrow> (string \<times> relay_send_err option) \<times> 'm relay_server" where
  "RelaySendFile B L bl C rnd envs menv rt recipientID src spaceID s =
     (if rt_Client rt = None then (([], Some SendNoClient), s)
      else case sf_open src of
        None \<Rightarrow> (([], Some RelaySrcOpenErr), s)
      | Some rdr \<Rightarrow>
          if \<not> sf_stat src then (([], Some RelaySrcStatErr), s)
          else (case randomTransferID rnd of
              Inl e \<Rightarrow> (([], Some (TransferIDErr e)), s)
            | Inr tid \<Rightarrow>
                (case push_file B L bl C (rt_SessionKey rt) envs recipientID tid 0 (NewBufferedChunker rdr) s of
                   (Inl e, s') \<Rightarrow> ((tid, Some e), s')
                 | (Inr idx, s') \<Rightarrow>
                     let manifest = \<lparr>rm_TransferID = tid, rm_FileName = path_base (sf_path src), rm_TotalSize = sf_size src,
                           rm_ChunkCount = int idx, rm_SpaceID = spaceID\<rparr>
                     in (case protect_with C (pe_rnd menv) (rt_SessionKey rt) (marshal manifest_fields manifest) of
                           Inl e \<Rightarrow> ((tid, Some (ManifestEncryptErr e)), s')
                         | Inr manifestBytes \<Rightarrow>
                             (case PushChunk B L (pe_commit menv) (pe_now menv) (pe_link menv) recipientID
                                 (relayManifestPrefix @ tid) manifestBytes s' of
                                (Inl e, s'') \<Rightarrow> ((tid, Some (ManifestPushErr e)), s'')
                              | (Inr _, s'') \<Rightarrow> ((tid, None), s''))))))"

section \<open>Receiving\<close>

record inbox_maps =
  im_manifests :: "(string \<times> relay_manifest) list"
  im_raw :: "(string \<times> (int \<times> bytes) list) list"

datatype relay_recv_err = RecvNoClient | RecvDirErr | RelayPullErr client_err | InboxEmpty | ManifestDecryptErr net_err
  | ManifestParseErr | NoManifest | SpaceKeyErr space_err | RelayOutOpenErr | RecvCancelled | MissingChunk nat string
  | ChunkDecryptErr nat net_err | RelayOutWriteErr | RelayOutCloseErr | NoCompleteTransfer

definition chunks_of :: "inbox_maps \<Rightarrow> string \<Rightarrow> (int \<times> bytes) list" where
  "chunks_of im tid = (case map_of (im_raw im) tid of None \<Rightarrow> [] | Some cs \<Rightarrow> cs)"

text \<open>The loop that sorts what was pulled into manifests and chunks.\<close>

fun sort_inbox :: "crypto_ops \<Rightarrow> bytes \<Rightarrow> relayed_chunk list \<Rightarrow> inbox_maps \<Rightarrow> relay_recv_err + inbox_maps" where
  "sort_inbox C key [] im = Inr im"
| "sort_inbox C key (rc # rcs) im =
     (if has_prefix (rc_ChunkHash rc) relayManifestPrefix then
        let tid = trim_prefix (rc_ChunkHash rc) relayManifestPrefix in
        (case unprotect_with C key (rc_Data rc) of
           Inl e \<Rightarrow> Inl (ManifestDecryptErr e)
         | Inr raw \<Rightarrow>
             (case unmarshal manifest_of_fields raw of
                None \<Rightarrow> Inl ManifestParseErr
              | Some m \<Rightarrow> sort_inbox C key rcs (im\<lparr>im_manifests := AList.update tid m (im_manifests im)\<rparr>)))
      else (case parseRelayChunkKey (rc_ChunkHash rc) of
          Inl e \<Rightarrow> sort_inbox C key rcs im
        | Inr (tid, i, h) \<Rightarrow>
            sort_inbox C key rcs (im\<lparr>im_raw := AList.update tid (AList.update i (rc_Data rc) (chunks_of im tid)) (im_raw im)\<rparr>)))"

text \<open>The first transfer, by id, that has as many chunks as its manifest says.\<close>

definition complete_transfer :: "inbox_maps \<Rightarrow> (string \<times> relay_manifest) option" where
  "complete_transfer im =
     Option.bind
       (find (\<lambda>tid. case map_of (im_manifests im) tid of None \<Rightarrow> False
          | Some m \<Rightarrow> \<not> int (length (chunks_of im tid)) < rm_ChunkCount m) (sort (map fst (im_manifests im))))
       (\<lambda>tid. map_option (Pair tid) (map_of (im_manifests im) tid))"

definition decryptKey :: "bytes \<Rightarrow> bool \<Rightarrow> 'e engine option \<Rightarrow> relay_manifest \<Rightarrow> relay_recv_err + bytes" where
  "decryptKey key drv eng m =
     (if key \<noteq> [] then Inr key
      else case eng of
        None \<Rightarrow> Inr []
      | Some e \<Rightarrow>
          if rm_SpaceID m = [] then Inr []
          else (case GetSpace drv e (rm_SpaceID m) of
              Inl er \<Rightarrow> Inl (SpaceKeyErr er)
            | Inr (sp, _) \<Rightarrow> Inr (sp_SymmetricKey sp)))"

record relay_recv_env =
  ve_mkdir :: bool
  ve_commit :: bool
  ve_now :: int
  ve_link :: link
  ve_driver :: bool
  ve_open :: bool
  ve_isdir :: "string \<Rightarrow> bool"
  ve_cancelled :: "nat \<Rightarrow> bool"
  ve_write :: "nat \<Rightarrow> write_outcome"
  ve_close :: bool

fun write_relayed ::
  "crypto_ops \<Rightarrow> bytes \<Rightarrow> relay_recv_env \<Rightarrow> string \<Rightarrow> (int \<times> bytes) list \<Rightarrow> string \<Rightarrow> nat list \<Rightarrow> files
     \<Rightarrow> relay_recv_err option \<times> files" where
  "write_relayed C key env tid encrypted out [] fs = (None, fs)"
| "write_relayed C key env tid encrypted out (i # is) fs =
     (if ve_cancelled env i then (Some RecvCancelled, fs)
      else case map_of encrypted (int i) of
        None \<Rightarrow> (Some (MissingChunk i tid), fs)
      | Some enc \<Rightarrow>
          (case unprotect_with C key enc of
             Inl e \<Rightarrow> (Some (ChunkDecryptErr i e), fs)
           | Inr plain \<Rightarrow>
               (case ve_write env i of
                  NotWritten \<Rightarrow> (Some RelayOutWriteErr, fs)
                | Partly b \<Rightarrow> (Some RelayOutWriteErr, append_file out b fs)
                | Wrote \<Rightarrow> write_relayed C key env tid encrypted out is (append_file out plain fs))))"

definition write_transfer ::
  "crypto_ops \<Rightarrow> relay_recv_env \<Rightarrow> bytes \<Rightarrow> 'e engine option \<Rightarrow> string \<Rightarrow> inbox_maps \<Rightarrow> string \<times> relay_manifest \<Rightarrow> files
     \<Rightarrow> (relay_recv_err + string) \<times> files" where
  "write_transfer C env sessionKey eng outputDir im sel fs =
     (case decryptKey sessionKey (ve_driver env) eng (snd sel) of
        Inl e \<Rightarrow> (Inl e, fs)
      | Inr key \<Rightarrow>
          let outPath = path_join outputDir (path_base (rm_FileName (snd sel))) in
          if \<not> ve_open env \<or> ve_isdir env outPath then (Inl RelayOutOpenErr, fs)
          else
            (case write_relayed C key env (fst sel) (chunks_of im (fst sel)) outPath
                [0..<nat (rm_ChunkCount (snd sel))] (open_output False outPath fs) of
               (Some e, fs') \<Rightarrow> (Inl e, fs')
             | (None, fs') \<Rightarrow> (if ve_close env then Inr outPath else Inl RelayOutCloseErr, fs')))"

definition RelayReceiveFile ::
  "('m, bytes) bucket_ops \<Rightarrow> 'm relay_lib \<Rightarrow> crypto_ops \<Rightarrow> relay_recv_env \<Rightarrow> relay_transfer \<Rightarrow> string \<Rightarrow> string
     \<Rightarrow> 'e engine option \<Rightarrow> files \<Rightarrow> 'm relay_server \<Rightarrow> (relay_recv_err + string) \<times> files \<times> 'm relay_server" where
  "RelayReceiveFile B L C env rt myPeerID outputDir eng fs s =
     (if rt_Client rt = None then (Inl RecvNoClient, fs, s)
      else if \<not> ve_mkdir env then (Inl RecvDirErr, fs, s)
      else case PullChunks B L (ve_commit env) (ve_now env) (ve_link env) myPeerID s of
          (Inl e, s') \<Rightarrow> (Inl (RelayPullErr e), fs, s')
        | (Inr got, s') \<Rightarrow>
            if got = [] then (Inl InboxEmpty, fs, s')
            else (case sort_inbox C (rt_SessionKey rt) got \<lparr>im_manifests = [], im_raw = []\<rparr> of
                Inl e \<Rightarrow> (Inl e, fs, s')
              | Inr im \<Rightarrow>
                  if im_manifests im = [] then (Inl NoManifest, fs, s')
                  else (case complete_transfer im of
                      None \<Rightarrow> (Inl NoCompleteTransfer, fs, s')
                    | Some sel \<Rightarrow>
                        (case write_transfer C env (rt_SessionKey rt) eng outputDir im sel fs of
                           (r, fs') \<Rightarrow> (r, fs', s')))))"

section \<open>Keys and lengths\<close>

lemma parse_chunk_key:
  assumes "CHR '':'' \<notin> set tid" "in_int64 i"
  shows "parseRelayChunkKey (relayChunkKey tid i h) = Inr (tid, i, h)"
proof -
  have "split_n 3 (CHR '':'') (tid @ CHR '':'' # fmt_int i @ CHR '':'' # h) = [tid, fmt_int i, h]"
    using assms(1) fmt_int_no_colon [of i] by (simp add: numeral_3_eq_3 split_n_append del: split_n.simps(3))
  then show ?thesis using assms(2) by (simp add: parseRelayChunkKey_def relayChunkKey_def parse_int64_fmt_int)
qed

lemma length_fmt_int:
  assumes "in_int64 i"
  shows "length (fmt_int i) \<le> 20"
proof -
  have "nat i < 10 ^ Suc 18" "nat (- i) < 10 ^ Suc 18"
    using assms by (auto simp: in_int64_def int64_min_def int64_max_def nat_less_iff)
  then have "length (dec_digits (nat i)) \<le> Suc 18" "length (dec_digits (nat (- i))) \<le> Suc 18"
    by (blast intro: length_dec_digits)+
  then show ?thesis by (simp add: fmt_int_def)
qed

lemma pull_line: "length (marshal request_fields (pull_request p)) \<le> 100 + length (quote_str p)"
  by (simp add: marshal_def request_fields_def pull_request_def omit_str_def print_members_Cons key_lengths)

definition wire_size :: "relayed_chunk \<Rightarrow> nat" where
  "wire_size c = 100 + length (quote_str (rc_ChunkHash c)) + length (b64_encode (rc_Data c))"

lemma print_wires:
  "length (print_elems (map (\<lambda>c. JObj (wire_fields (wire_of_chunk c))) cs)) \<le> 2 + sum_list (map wire_size cs)"
  by (induction cs)
    (auto simp: print_elems_Cons wire_fields_def wire_of_chunk_def print_members_Cons key_lengths quote_b64 wire_size_def)

lemma pull_reply:
  "length (marshal response_fields (ok_response\<lparr>rp_Chunks := map wire_of_chunk cs\<rparr>)) \<le> 100 + sum_list (map wire_size cs)"
  using print_wires [of cs]
  by (simp add: marshal_def response_fields_def ok_response_def omit_str_def print_members_Cons key_lengths comp_def)

lemma manifest_size:
  assumes "manifest_ok m"
  shows "length (marshal manifest_fields m) \<le>
    150 + length (quote_str (rm_TransferID m)) + length (quote_str (rm_FileName m)) + length (quote_str (rm_SpaceID m))"
  using assms length_fmt_int [of "rm_TotalSize m"] length_fmt_int [of "rm_ChunkCount m"]
  by (simp add: marshal_def manifest_fields_def omit_str_def print_members_Cons key_lengths jint_def manifest_ok_def)

lemma b64_size: "length data \<le> n \<Longrightarrow> length (b64_encode data) \<le> 4 * ((n + 2) div 3)"
  by (simp add: length_b64_encode div_le_mono)

section \<open>The sending loop\<close>

text \<open>A push that meets nothing bad.\<close>

definition push_env_ok :: "'m relay_lib \<Rightarrow> push_env \<Rightarrow> bool" where
  "push_env_ok L env \<longleftrightarrow> \<not> pe_cancelled env \<and> pe_commit env \<and> time_ok L (pe_now env) \<and> link_up (pe_link env) \<and>
     (\<exists>n. pe_rnd env 12 = Some n \<and> length n = 12)"

text \<open>AES-GCM adds a tag to what it seals; 64 bytes are more than enough for it.\<close>

definition seal_overhead :: "crypto_ops \<Rightarrow> bool" where
  "seal_overhead C \<longleftrightarrow> (\<forall>key nonce data. length key = 32 \<longrightarrow> length nonce = 12 \<longrightarrow>
     length (aes_seal C key nonce data) \<le> length data + 64)"

definition session_ok :: "crypto_ops \<Rightarrow> bytes \<Rightarrow> bool" where
  "session_ok C key \<longleftrightarrow> key = [] \<or> (length key = 32 \<and> aes_laws C \<and> seal_overhead C)"

lemma protect_with_ok:
  assumes "session_ok C key" "rnd 12 = Some n" "length n = 12" "data \<noteq> []"
  shows "\<exists>d. protect_with C rnd key data = Inr d \<and> unprotect_with C key d = Inr data \<and> d \<noteq> [] \<and>
    length d \<le> length data + 76"
proof (cases "key = []")
  case True
  then show ?thesis using assms(4) by (simp add: protect_with_def unprotect_with_def)
next
  case False
  then have k: "length key = 32" "aes_laws C" "seal_overhead C" using assms(1) by (auto simp: session_ok_def)
  have "Encrypt C rnd data key = Inr (n @ aes_seal C key n data)"
    "Decrypt C (n @ aes_seal C key n data) key = Inr data"
    using Encrypt_Decrypt [where rnd = rnd and nonce = n, OF k(2) assms(2,3)] k(1) by auto
  moreover have "length (aes_seal C key n data) \<le> length data + 64"
    using k(1,3) assms(3) by (simp add: seal_overhead_def)
  ultimately show ?thesis
    using False k(1) assms(3)
    by (auto simp: protect_with_def unprotect_with_def ProtectChunk_def UnprotectChunk_def SpaceKeySize_def)
qed

lemma protect_with_grows:
  assumes "protect_with C rnd key data = Inr d" "\<And>n data. length data \<le> length (aes_seal C key n data)"
  shows "length data \<le> length d"
  using assms(1) trans_le_add2 [OF assms(2)]
  by (auto simp: protect_with_def ProtectChunk_def Encrypt_def split: if_splits sum.splits option.splits)

lemma Next_end: "chunker_ok c \<Longrightarrow> unread c = [] \<Longrightarrow> fst (Next bl c) = Inl NextEOF"
  using Next_spec [of c bl] by (simp add: next_spec_def Let_def)

lemma Next_last:
  assumes "chunker_ok c" "unread c \<noteq> []" "length (unread c) < MinChunkSize"
  shows "\<exists>c'. Next bl c = (Inr (emit bl (offset c) (unread c)), c') \<and> chunker_ok c' \<and> unread c' = []"
proof -
  obtain r c' where N: "Next bl c = (r, c')" by fastforce
  have "first_cut (unread c) = length (unread c)"
    using first_cut_lower [of "unread c"] first_cut_bounds [OF assms(2)] assms(3) by linarith
  then show ?thesis using Next_spec [OF assms(1), of bl] assms(2) by (auto simp: next_spec_def N Let_def)
qed

lemma push_file_end:
  assumes "chunker_ok c" "unread c = []" "\<not> pe_cancelled (envs i)"
  shows "push_file B L bl C key envs to tid i c s = (Inr i, s)"
  using Next_end [OF assms(1,2), of bl] assms(3)
  by (subst push_file.simps) (auto simp: Let_def split: prod.split sum.split next_err.split)

lemma push_file_last:
  assumes "chunker_ok c" "unread c \<noteq> []" "length (unread c) < MinChunkSize"
    and "\<not> pe_cancelled (envs i)" "\<not> pe_cancelled (envs (Suc i))"
    and "protect_with C (pe_rnd (envs i)) key (unread c) = Inr data"
    and "PushChunk B L (pe_commit (envs i)) (pe_now (envs i)) (pe_link (envs i)) to
           (relayChunkKey tid (int i) (HashChunk bl (unread c))) data s = (Inr (), s')"
  shows "push_file B L bl C key envs to tid i c s = (Inr (Suc i), s')"
proof -
  obtain c' where c': "Next bl c = (Inr (emit bl (offset c) (unread c)), c')" "chunker_ok c'" "unread c' = []"
    using Next_last [OF assms(1-3)] by blast
  show ?thesis
    using assms(4,6,7) push_file_end [where envs = envs and i = "Suc i", OF c'(2,3) assms(5)]
    by (subst push_file.simps) (simp add: Let_def c'(1) emit_def)
qed

section \<open>What a reception makes of one transfer\<close>

lemma hex_not_manifest: "b \<noteq> [] \<Longrightarrow> \<not> has_prefix (hex_encode b @ r) relayManifestPrefix"
proof -
  have "hex_digit n \<noteq> CHR ''m''" if "n < 16" for n
    using that by (auto simp: hex_digit_def byte_val_eq_iff [symmetric] simp del: of_char_eq_iff)
  then show "b \<noteq> [] \<Longrightarrow> ?thesis" by (cases b) (auto simp: hex_encode_def relayManifestPrefix_def)
qed

lemma sort_manifest:
  assumes "unprotect_with C key d = Inr (marshal manifest_fields m)" "manifest_ok m"
  shows "sort_inbox C key (\<lparr>rc_ChunkHash = relayManifestPrefix @ tid, rc_Data = d, rc_PushedAt = t\<rparr> # rcs) im =
    sort_inbox C key rcs (im\<lparr>im_manifests := AList.update tid m (im_manifests im)\<rparr>)"
  using assms by (simp add: manifest_json.unmarshal_marshal)

lemma sort_chunk:
  assumes "b \<noteq> []" "in_int64 i"
  shows "sort_inbox C key (\<lparr>rc_ChunkHash = relayChunkKey (hex_encode b) i h, rc_Data = d, rc_PushedAt = t\<rparr> # rcs) im =
    sort_inbox C key rcs (im\<lparr>im_raw :=
      AList.update (hex_encode b) (AList.update i d (chunks_of im (hex_encode b))) (im_raw im)\<rparr>)"
  using hex_not_manifest [OF assms(1)] parse_chunk_key [OF hex_encode_no_colon [of b] assms(2), of h]
  by (simp add: relayChunkKey_def)

definition recv_relay_ok :: "string \<Rightarrow> relay_recv_env \<Rightarrow> bool" where
  "recv_relay_ok out env \<longleftrightarrow> ve_mkdir env \<and> ve_commit env \<and> link_up (ve_link env) \<and> ve_open env \<and> \<not> ve_isdir env out \<and>
     (\<forall>i. \<not> ve_cancelled env i \<and> ve_write env i = Wrote) \<and> ve_close env"

lemma write_one_transfer:
  assumes env: "recv_relay_ok (path_join dir nm) env" and nm: "path_base (rm_FileName m) = nm"
    and key: "decryptKey key (ve_driver env) eng m = Inr key"
    and cs: "chunks_of im tid = (if data = [] then [] else [(0, d)])" "data = [] \<or> unprotect_with C key d = Inr data"
    and n: "rm_ChunkCount m = (if data = [] then 0 else 1)"
  shows "write_transfer C env key eng dir im (tid, m) fs = (Inr (path_join dir nm), fs(path_join dir nm \<mapsto> data))"
  using env cs(2)
  by (cases "data = []")
    (simp_all add: write_transfer_def key nm cs(1) n open_output_def recv_relay_ok_def append_file_def file_bytes_def Let_def)

section \<open>A file that fits a line\<close>

text \<open>A readable file of at most 40000 bytes, with names and ids of at most 255 bytes.\<close>

definition small_file ::
  "(bytes \<Rightarrow> bytes) \<Rightarrow> source \<Rightarrow> bytes \<Rightarrow> string \<Rightarrow> string \<Rightarrow> bool" where
  "small_file bl src content to spaceID \<longleftrightarrow>
     (\<exists>rdr. sf_open src = Some rdr \<and> healthy rdr \<and> rest_of rdr = content) \<and> sf_stat src \<and> in_int64 (sf_size src) \<and>
     length content \<le> 40000 \<and> length (bl content) = 32 \<and>
     plain_name (path_base (sf_path src)) \<and> length (path_base (sf_path src)) \<le> 255 \<and>
     to \<noteq> [] \<and> length to \<le> 255 \<and> length spaceID \<le> 255"

lemma fits_pushI:
  assumes "length p \<le> 255" "length h \<le> 120" "length data \<le> 40076"
  shows "fits_push p h data"
  using assms push_line [of p h data] length_quote_le [of p] length_quote_le [of h] b64_size [OF assms(3)]
  by (simp add: fits_push_def max_token_def)

lemma fits_pullI:
  assumes "length p \<le> 255" "\<And>c. c \<in> set cs \<Longrightarrow> length (rc_ChunkHash c) \<le> 120"
    and "length cs \<le> 2" "sum_list (map (\<lambda>c. length (b64_encode (rc_Data c))) cs) \<le> 60000"
  shows "fits_pull p cs"
proof -
  have "wire_size c \<le> length (b64_encode (rc_Data c)) + 822" if "c \<in> set cs" for c
    using assms(2) [OF that] length_quote_le [of "rc_ChunkHash c"] by (simp add: wire_size_def)
  then have "sum_list (map wire_size cs) \<le> sum_list (map (\<lambda>c. length (b64_encode (rc_Data c)) + 822) cs)"
    by (intro sum_list_mono) simp
  also have "\<dots> = sum_list (map (\<lambda>c. length (b64_encode (rc_Data c))) cs) + length cs * 822"
    by (simp add: sum_list_addf sum_list_triv)
  also have "\<dots> \<le> 62000" using assms(3,4) by linarith
  finally show ?thesis
    using assms(1) pull_line [of p] length_quote_le [of p] pull_reply [of cs] by (simp add: fits_pull_def max_token_def)
qed

text \<open>One push of the sender, in the terms of the loop.\<close>

lemma push_one:
  assumes B: "kv_reliable B" and ok: "relay_ok B s" and env: "push_env_ok L env" and to: "to \<noteq> []" "length to \<le> 255"
    and key: "session_ok C key" and h: "h \<noteq> []" "length h \<le> 120" and data: "data \<noteq> []" "length data \<le> 40000"
    and small: "inbox_seq B s to < 10 ^ 10 - 1"
  shows "\<exists>d t s'. protect_with C (pe_rnd env) key data = Inr d \<and> unprotect_with C key d = Inr data \<and>
    length d \<le> length data + 76 \<and>
    PushChunk B L (pe_commit env) (pe_now env) (pe_link env) to h d s = (Inr (), s') \<and> relay_ok B s' \<and>
    inbox B L s' = (inbox B L s)(to := inbox B L s to @ [\<lparr>rc_ChunkHash = h, rc_Data = d, rc_PushedAt = t\<rparr>]) \<and>
    inbox_seq B s' to = Suc (inbox_seq B s to)"
proof -
  obtain n where n: "pe_rnd env 12 = Some n" "length n = 12" and e: "pe_commit env" "time_ok L (pe_now env)" "link_up (pe_link env)"
    using env by (auto simp: push_env_ok_def)
  obtain d where d: "protect_with C (pe_rnd env) key data = Inr d" "unprotect_with C key d = Inr data" "d \<noteq> []"
    "length d \<le> length data + 76" using protect_with_ok [where rnd = "pe_rnd env", OF key n data(1)] by blast
  have "fits_push to h d" using fits_pushI [OF to(2) h(2)] d(4) data(2) by simp
  from PushChunk_appends [OF B e(3) ok e(2) to(1) h(1) d(3) this small] show ?thesis using d e(1) by auto
qed

definition sent_manifest :: "string \<Rightarrow> source \<Rightarrow> bytes \<Rightarrow> string \<Rightarrow> relay_manifest" where
  "sent_manifest tid src content spaceID =
     \<lparr>rm_TransferID = tid, rm_FileName = path_base (sf_path src), rm_TotalSize = sf_size src,
      rm_ChunkCount = (if content = [] then 0 else 1), rm_SpaceID = spaceID\<rparr>"

lemma push_small_file:
  assumes B: "kv_reliable B" and ok: "relay_ok B s" and envs: "\<And>i. push_env_ok L (envs i)" and key: "session_ok C key"
    and f: "small_file bl src content to spaceID" "sf_open src = Some rdr" "rest_of rdr = content" "healthy rdr"
    and small: "inbox_seq B s to < 10 ^ 10 - 1" and tid: "length tid = 32"
  shows "\<exists>cs s1. push_file B L bl C key envs to tid 0 (NewBufferedChunker rdr) s = (Inr (if content = [] then 0 else 1), s1) \<and>
    relay_ok B s1 \<and> inbox B L s1 = (inbox B L s)(to := inbox B L s to @ cs) \<and> inbox_seq B s1 to \<le> Suc (inbox_seq B s to) \<and>
    (if content = [] then cs = [] else \<exists>d t. cs = [\<lparr>rc_ChunkHash = relayChunkKey tid 0 (HashChunk bl content), rc_Data = d,
       rc_PushedAt = t\<rparr>] \<and> unprotect_with C key d = Inr content \<and> length d \<le> length content + 76)"
proof -
  let ?c = "NewBufferedChunker rdr" and ?h = "relayChunkKey tid 0 (HashChunk bl content)"
  have c: "chunker_ok ?c" "unread ?c = content" using chunker_ok_new [OF f(4)] f(3) by (simp_all add: NewBufferedChunker_def unread_def)
  have nc: "\<not> pe_cancelled (envs i)" for i using envs [of i] by (simp add: push_env_ok_def)
  show ?thesis
  proof (cases "content = []")
    case True
    then show ?thesis
      using push_file_end [where envs = envs and i = 0, OF c(1)] c(2) nc ok by (intro exI [of _ "[]"] exI [of _ s]) simp
  next
    case False
    have sz: "length content \<le> 40000" "length (bl content) = 32" "to \<noteq> []" "length to \<le> 255" using f(1) by (auto simp: small_file_def)
    have "length (fmt_int 0) = 1" by code_simp
    then have h: "?h \<noteq> []" "length ?h \<le> 120" using sz(2) tid by (auto simp: relayChunkKey_def HashChunk_def)
    obtain d t s1 where d: "protect_with C (pe_rnd (envs 0)) key content = Inr d" "unprotect_with C key d = Inr content"
      "length d \<le> length content + 76"
      "PushChunk B L (pe_commit (envs 0)) (pe_now (envs 0)) (pe_link (envs 0)) to ?h d s = (Inr (), s1)" "relay_ok B s1"
      "inbox B L s1 = (inbox B L s)(to := inbox B L s to @ [\<lparr>rc_ChunkHash = ?h, rc_Data = d, rc_PushedAt = t\<rparr>])"
      "inbox_seq B s1 to = Suc (inbox_seq B s to)"
      using push_one [OF B ok envs [of 0] sz(3,4) key h False sz(1) small] by blast
    have "push_file B L bl C key envs to tid 0 ?c s = (Inr (Suc 0), s1)"
      using d(1,4) c False sz(1) nc by (intro push_file_last) (simp_all add: MinChunkSize_def)
    then show ?thesis using False d by (intro exI [of _ "[\<lparr>rc_ChunkHash = ?h, rc_Data = d, rc_PushedAt = t\<rparr>]"] exI [of _ s1]) auto
  qed
qed

lemma small_file_sent:
  assumes B: "kv_reliable B" and ok: "relay_ok B s" and envs: "\<And>i. push_env_ok L (envs i)" "push_env_ok L menv"
    and rt: "rt_Client rt \<noteq> None" "session_ok C (rt_SessionKey rt)"
    and f: "small_file bl src content to spaceID" and rnd: "rnd 16 = Some b" "length b = 16"
    and small: "inbox_seq B s to < 10 ^ 10 - 2"
  shows "\<exists>cs d t s1. RelaySendFile B L bl C rnd envs menv rt to src spaceID s = ((hex_encode b, None), s1) \<and> relay_ok B s1 \<and>
    inbox B L s1 = (inbox B L s)(to := inbox B L s to @ cs @ [\<lparr>rc_ChunkHash = relayManifestPrefix @ hex_encode b, rc_Data = d, rc_PushedAt = t\<rparr>]) \<and>
    unprotect_with C (rt_SessionKey rt) d = Inr (marshal manifest_fields (sent_manifest (hex_encode b) src content spaceID)) \<and>
    protect_with C (pe_rnd menv) (rt_SessionKey rt) (marshal manifest_fields (sent_manifest (hex_encode b) src content spaceID)) = Inr d \<and>
    length d \<le> 3500 \<and>
    (if content = [] then cs = [] else \<exists>d t. cs = [\<lparr>rc_ChunkHash = relayChunkKey (hex_encode b) 0 (HashChunk bl content), rc_Data = d,
       rc_PushedAt = t\<rparr>] \<and> unprotect_with C (rt_SessionKey rt) d = Inr content \<and> length d \<le> length content + 76)"
proof -
  let ?tid = "hex_encode b" and ?m = "sent_manifest (hex_encode b) src content spaceID" and ?h = "relayManifestPrefix @ hex_encode b"
  obtain rdr where rdr: "sf_open src = Some rdr" "rest_of rdr = content" "healthy rdr" using f by (auto simp: small_file_def)
  have tid: "length ?tid = 32" using rnd(2) by simp
  obtain cs s0 where s0: "push_file B L bl C (rt_SessionKey rt) envs to ?tid 0 (NewBufferedChunker rdr) s = (Inr (if content = [] then 0 else 1), s0)"
    "relay_ok B s0" "inbox B L s0 = (inbox B L s)(to := inbox B L s to @ cs)" "inbox_seq B s0 to \<le> Suc (inbox_seq B s to)"
    "if content = [] then cs = [] else \<exists>d t. cs = [\<lparr>rc_ChunkHash = relayChunkKey ?tid 0 (HashChunk bl content), rc_Data = d,
       rc_PushedAt = t\<rparr>] \<and> unprotect_with C (rt_SessionKey rt) d = Inr content \<and> length d \<le> length content + 76"
    using push_small_file [OF B ok envs(1) rt(2) f rdr, where tid = ?tid] tid small by fastforce
  have sz: "sf_stat src" "to \<noteq> []" "length to \<le> 255" "length spaceID \<le> 255" "length (path_base (sf_path src)) \<le> 255"
    "in_int64 (sf_size src)" using f by (auto simp: small_file_def)
  have mok: "manifest_ok ?m" using sz(6) by (simp add: manifest_ok_def sent_manifest_def in_int64_def int64_min_def int64_max_def)
  have ml: "length (marshal manifest_fields ?m) \<le> 3424"
    using manifest_size [OF mok] length_quote_le [of ?tid] length_quote_le [of spaceID] length_quote_le [of "path_base (sf_path src)"] tid sz(4,5)
    by (simp add: sent_manifest_def)
  have h: "?h \<noteq> []" "length ?h \<le> 120" using tid by (auto simp: relayManifestPrefix_def)
  have ne: "marshal manifest_fields ?m \<noteq> []" by (simp add: last_marshal)
  have ml': "length (marshal manifest_fields ?m) \<le> 40000" using ml by simp
  have seq: "inbox_seq B s0 to < 10 ^ 10 - 1" using s0(4) small by simp
  obtain d t s1 where d: "protect_with C (pe_rnd menv) (rt_SessionKey rt) (marshal manifest_fields ?m) = Inr d"
    "unprotect_with C (rt_SessionKey rt) d = Inr (marshal manifest_fields ?m)" "length d \<le> length (marshal manifest_fields ?m) + 76"
    "PushChunk B L (pe_commit menv) (pe_now menv) (pe_link menv) to ?h d s0 = (Inr (), s1)" "relay_ok B s1"
    "inbox B L s1 = (inbox B L s0)(to := inbox B L s0 to @ [\<lparr>rc_ChunkHash = ?h, rc_Data = d, rc_PushedAt = t\<rparr>])"
    using push_one [OF B s0(2) envs(2) sz(2,3) rt(2) h ne ml' seq] by blast
  have "RelaySendFile B L bl C rnd envs menv rt to src spaceID s = ((?tid, None), s1)"
    using rt(1) rdr(1) sz(1) s0(1) d(1,4) rnd(1)
    by (cases "content = []") (simp_all add: RelaySendFile_def randomTransferID_def randomHex_def Let_def sent_manifest_def)
  moreover have "length d \<le> 3500" using d(3) ml by simp
  moreover have "inbox B L s1 = (inbox B L s)(to := inbox B L s to @ cs @ [\<lparr>rc_ChunkHash = ?h, rc_Data = d, rc_PushedAt = t\<rparr>])"
    by (simp add: d(6) s0(3))
  ultimately show ?thesis using d(1,2,5) s0(5) by blast
qed

section \<open>Properties\<close>

text \<open>The state between the two halves: what the sender left and what the recipient's pull returns.\<close>

lemma small_file_pulled:
  assumes B: "kv_reliable B" and ok: "relay_ok B s" and box: "inbox B L s to = []" "inbox_seq B s to < 10 ^ 10 - 2"
    and envs: "\<And>i. push_env_ok L (envs i)" "push_env_ok L menv"
    and rt: "rt_Client rt \<noteq> None" "session_ok C (rt_SessionKey rt)"
    and f: "small_file bl src content to spaceID" and rnd: "rnd 16 = Some b" "length b = 16"
    and ln: "link_up ln"
  shows "\<exists>s1 s2 cs d. RelaySendFile B L bl C rnd envs menv rt to src spaceID s = ((hex_encode b, None), s1) \<and>
    PullChunks B L True now ln to s1 =
      (Inr (cs @ [\<lparr>rc_ChunkHash = relayManifestPrefix @ hex_encode b, rc_Data = d, rc_PushedAt = now\<rparr>]), s2) \<and>
    inbox B L s2 = inbox B L s \<and>
    protect_with C (pe_rnd menv) (rt_SessionKey rt) (marshal manifest_fields (sent_manifest (hex_encode b) src content spaceID)) = Inr d \<and>
    unprotect_with C (rt_SessionKey rt) d = Inr (marshal manifest_fields (sent_manifest (hex_encode b) src content spaceID)) \<and>
    (if content = [] then cs = [] else \<exists>d. cs = [\<lparr>rc_ChunkHash = relayChunkKey (hex_encode b) 0 (HashChunk bl content), rc_Data = d,
       rc_PushedAt = now\<rparr>] \<and> unprotect_with C (rt_SessionKey rt) d = Inr content)"
proof -
  let ?tid = "hex_encode b" and ?m = "sent_manifest (hex_encode b) src content spaceID"
  let ?K = "rt_SessionKey rt"
  obtain cs d t s1 where sent: "RelaySendFile B L bl C rnd envs menv rt to src spaceID s = ((?tid, None), s1)" "relay_ok B s1"
    and in1: "inbox B L s1 = (inbox B L s)(to := cs @ [\<lparr>rc_ChunkHash = relayManifestPrefix @ ?tid, rc_Data = d, rc_PushedAt = t\<rparr>])"
    and d: "unprotect_with C ?K d = Inr (marshal manifest_fields ?m)" "length d \<le> 3500"
      "protect_with C (pe_rnd menv) ?K (marshal manifest_fields ?m) = Inr d"
    and cs: "if content = [] then cs = [] else \<exists>d t. cs = [\<lparr>rc_ChunkHash = relayChunkKey ?tid 0 (HashChunk bl content), rc_Data = d,
       rc_PushedAt = t\<rparr>] \<and> unprotect_with C ?K d = Inr content \<and> length d \<le> length content + 76"
    using small_file_sent [where rnd = rnd and b = b and envs = envs and menv = menv, OF B ok envs rt f rnd box(2)] box(1) by auto
  have sz: "length content \<le> 40000" "length (bl content) = 32" "to \<noteq> []" "length to \<le> 255" using f by (auto simp: small_file_def)
  have l0: "length (fmt_int 0) = 1" by code_simp
  have fits: "fits_pull to (inbox B L s1 to)"
  proof (rule fits_pullI [OF sz(4)])
    show "length (rc_ChunkHash c) \<le> 120" if "c \<in> set (inbox B L s1 to)" for c
      using that cs rnd(2) sz(2) l0
      by (auto simp: in1 relayManifestPrefix_def relayChunkKey_def HashChunk_def split: if_splits)
    show "length (inbox B L s1 to) \<le> 2" using cs by (auto simp: in1 split: if_splits)
    have "length (b64_encode d) \<le> 4668" using b64_size [OF d(2)] by simp
    moreover have "sum_list (map (\<lambda>c. length (b64_encode (rc_Data c))) cs) \<le> 53436"
      using cs sz(1) b64_size [of _ 40076] by (auto split: if_splits)
    ultimately show "sum_list (map (\<lambda>c. length (b64_encode (rc_Data c))) (inbox B L s1 to)) \<le> 60000" by (simp add: in1)
  qed
  have pl: "length (marshal request_fields (pull_request to)) < max_token" using fits by (simp add: fits_pull_def)
  let ?got = "map (\<lambda>c. c\<lparr>rc_PushedAt := now\<rparr>) cs"
  obtain s2 where s2: "PullChunks B L True now ln to s1 = (Inr (?got @ [\<lparr>rc_ChunkHash = relayManifestPrefix @ ?tid, rc_Data = d, rc_PushedAt = now\<rparr>]), s2)"
    "inbox B L s2 = (inbox B L s1)(to := [])"
    using PullChunks_drains [OF B ln sent(2) sz(3) pl, of L now] fits by (auto simp: in1)
  have "inbox B L s2 = inbox B L s" using box(1) by (auto simp: s2(2) in1)
  moreover have "if content = [] then ?got = [] else \<exists>d. ?got = [\<lparr>rc_ChunkHash = relayChunkKey ?tid 0 (HashChunk bl content), rc_Data = d,
       rc_PushedAt = now\<rparr>] \<and> unprotect_with C ?K d = Inr content" using cs by (auto split: if_splits)
  ultimately show ?thesis using sent(1) s2(1) d(1,3) by blast
qed

lemma sent_manifest_ok: "in_int64 (sf_size src) \<Longrightarrow> manifest_ok (sent_manifest tid src content spaceID)"
  by (simp add: manifest_ok_def sent_manifest_def in_int64_def int64_min_def int64_max_def)

lemma relayed_file_received:
  assumes B: "kv_reliable B" and ok: "relay_ok B s" and box: "inbox B L s to = []" "inbox_seq B s to < 10 ^ 10 - 2"
    and envs: "\<And>i. push_env_ok L (envs i)" "push_env_ok L menv"
    and rt: "rt_Client rt \<noteq> None" "session_ok C (rt_SessionKey rt)"
    and f: "small_file bl src content to spaceID" and rnd: "rnd 16 = Some b" "length b = 16"
    and recv: "recv_relay_ok (path_join dir (path_base (sf_path src))) env"
    and eng: "rt_SessionKey rt \<noteq> [] \<or> eng = None \<or> spaceID = []"
  shows "\<exists>s1 s2. RelaySendFile B L bl C rnd envs menv rt to src spaceID s = ((hex_encode b, None), s1) \<and>
    RelayReceiveFile B L C env rt to dir eng fs s1 =
      (Inr (path_join dir (path_base (sf_path src))), fs(path_join dir (path_base (sf_path src)) \<mapsto> content), s2) \<and>
    inbox B L s2 = inbox B L s"
proof -
  let ?nm = "path_base (sf_path src)" and ?tid = "hex_encode b" and ?m = "sent_manifest (hex_encode b) src content spaceID"
  let ?K = "rt_SessionKey rt" and ?now = "ve_now env" and ?im0 = "\<lparr>im_manifests = [], im_raw = []\<rparr>"
  have r: "ve_commit env" "link_up (ve_link env)" "ve_mkdir env" using recv by (simp_all add: recv_relay_ok_def)
  obtain s1 s2 cs d where sent: "RelaySendFile B L bl C rnd envs menv rt to src spaceID s = ((?tid, None), s1)"
    and s2: "PullChunks B L True ?now (ve_link env) to s1 =
      (Inr (cs @ [\<lparr>rc_ChunkHash = relayManifestPrefix @ ?tid, rc_Data = d, rc_PushedAt = ?now\<rparr>]), s2)" "inbox B L s2 = inbox B L s"
    and d: "unprotect_with C ?K d = Inr (marshal manifest_fields ?m)"
    and cs: "if content = [] then cs = [] else \<exists>d. cs = [\<lparr>rc_ChunkHash = relayChunkKey ?tid 0 (HashChunk bl content), rc_Data = d,
       rc_PushedAt = ?now\<rparr>] \<and> unprotect_with C ?K d = Inr content"
    using small_file_pulled [where rnd = rnd and b = b and envs = envs and menv = menv and now = ?now,
        OF B ok box envs rt f rnd r(2)] by blast
  have sz: "in_int64 (sf_size src)" "plain_name ?nm" using f by (auto simp: small_file_def)
  note mok = sent_manifest_ok [OF sz(1), of ?tid content spaceID]
  have b: "b \<noteq> []" "in_int64 0" using rnd(2) by (auto simp: in_int64_def int64_min_def int64_max_def)
  obtain im where im: "sort_inbox C ?K (cs @ [\<lparr>rc_ChunkHash = relayManifestPrefix @ ?tid, rc_Data = d, rc_PushedAt = ?now\<rparr>]) ?im0 = Inr im"
    "im_manifests im = [(?tid, ?m)]" "\<exists>e. chunks_of im ?tid = (if content = [] then [] else [(0, e)]) \<and>
      (content = [] \<or> unprotect_with C ?K e = Inr content)"
  proof (cases "content = []")
    case True
    then show ?thesis
      using that cs sort_manifest [OF d mok, where rcs = "[]"] by (simp add: chunks_of_def del: sort_inbox.simps(2))
  next
    case False
    then obtain e where e: "cs = [\<lparr>rc_ChunkHash = relayChunkKey ?tid 0 (HashChunk bl content), rc_Data = e, rc_PushedAt = ?now\<rparr>]"
      "unprotect_with C ?K e = Inr content" using cs by auto
    show ?thesis
      using that e(2) False sort_manifest [OF d mok, where rcs = "[]"] sort_chunk [OF b]
      by (simp add: e(1) chunks_of_def del: sort_inbox.simps(2))
  qed
  have key: "decryptKey ?K (ve_driver env) eng ?m = Inr ?K"
    using eng by (auto simp: decryptKey_def sent_manifest_def split: option.split)
  have sel: "complete_transfer im = Some (?tid, ?m)"
    using im(2,3) by (auto simp: complete_transfer_def sent_manifest_def)
  obtain e where e: "chunks_of im ?tid = (if content = [] then [] else [(0, e)])"
    "content = [] \<or> unprotect_with C ?K e = Inr content" using im(3) by blast
  have nm: "path_base (rm_FileName ?m) = ?nm" using path_base_plain [OF sz(2)] by (simp add: sent_manifest_def)
  have cnt: "rm_ChunkCount ?m = (if content = [] then 0 else 1)" by (simp add: sent_manifest_def)
  have "RelayReceiveFile B L C env rt to dir eng fs s1 = (Inr (path_join dir ?nm), fs(path_join dir ?nm \<mapsto> content), s2)"
    using r rt(1) s2(1) im(1,2) sel write_one_transfer [OF recv nm key e cnt, of fs]
    by (simp add: RelayReceiveFile_def)
  then show ?thesis using sent(1) s2(2) by blast
qed

text \<open>The output directory and its parent are directories, which no open for writing accepts.\<close>

definition relay_dirs_refused :: "string \<Rightarrow> relay_recv_env \<Rightarrow> bool" where
  "relay_dirs_refused dir env \<longleftrightarrow> (\<forall>n \<in> {''.'', ''..'', ''/''}. ve_isdir env (path_join dir n))"

text \<open>A healthy environment, a sender that holds a session key and a file of two bytes.\<close>

definition demo_push_env :: push_env where
  "demo_push_env = \<lparr>pe_cancelled = False, pe_rnd = (\<lambda>n. Some (replicate n (CHR ''n''))), pe_commit = True, pe_now = 5, pe_link = open_link\<rparr>"

definition demo_relay_recv :: relay_recv_env where
  "demo_relay_recv = \<lparr>ve_mkdir = True, ve_commit = True, ve_now = 6, ve_link = open_link, ve_driver = True, ve_open = True,
     ve_isdir = (\<lambda>q. q \<in> {''out'', ''.''}), ve_cancelled = (\<lambda>_. False), ve_write = (\<lambda>_. Wrote), ve_close = True\<rparr>"

definition demo_rt :: relay_transfer where
  "demo_rt = \<lparr>rt_Client = Some ''relay:9'', rt_SessionKey = replicate 32 (CHR ''k'')\<rparr>"

definition relay_source :: "bytes \<Rightarrow> source" where
  "relay_source bs = \<lparr>sf_path = ''docs/hi.txt'', sf_open = Some [(bs, ReadEOF)], sf_stat = True, sf_size = 2, sf_mtime = 7\<rparr>"

abbreviation zero_hash :: "bytes \<Rightarrow> bytes" where "zero_hash \<equiv> \<lambda>_. replicate 32 (CHR 0x00)"

lemma demo_relay_transfer:
  "push_env_ok demo_relay_lib demo_push_env" "recv_relay_ok ''out/hi.txt'' demo_relay_recv"
  "session_ok demo_crypto (rt_SessionKey demo_rt)" "rt_Client demo_rt \<noteq> None" "small_file zero_hash (relay_source ''hi'') ''hi'' ''bob'' []"
  "path_join ''out'' (path_base ''docs/hi.txt'') = ''out/hi.txt''" "relay_dirs_refused ''out'' demo_relay_recv"
proof -
  have p: "path_base ''docs/hi.txt'' = ''hi.txt''" "path_join ''out'' ''hi.txt'' = ''out/hi.txt''"
    "path_join ''out'' ''.'' = ''out''" "path_join ''out'' ''..'' = ''.''" "path_join ''out'' ''/'' = ''out''" by code_simp+
  have "healthy [(''hi'', ReadEOF)]" "rest_of [(''hi'', ReadEOF)] = ''hi''" by simp_all
  then show "small_file zero_hash (relay_source ''hi'') ''hi'' ''bob'' []"
    by (simp add: small_file_def relay_source_def p plain_name_def in_int64_def int64_min_def int64_max_def)
  show "session_ok demo_crypto (rt_SessionKey demo_rt)"
    using demo_laws by (simp add: session_ok_def demo_rt_def seal_overhead_def demo_crypto_def)
  show "push_env_ok demo_relay_lib demo_push_env"
    using demo_relay_facts(1,3) by (simp add: push_env_ok_def demo_push_env_def)
  show "recv_relay_ok ''out/hi.txt'' demo_relay_recv" using demo_relay_facts(1) by (simp add: recv_relay_ok_def demo_relay_recv_def)
  show "path_join ''out'' (path_base ''docs/hi.txt'') = ''out/hi.txt''" using p by simp
  show "relay_dirs_refused ''out'' demo_relay_recv" by (simp add: relay_dirs_refused_def demo_relay_recv_def p)
qed (simp add: demo_rt_def)

text \<open>
  C22. A file sent through the relay to an inbox in which nothing waits arrives: for every readable file of at most
  40000 bytes, encrypted under a session key or not, \<open>SendFile\<close> followed by \<open>ReceiveFile\<close> with the same key
  leaves exactly its bytes under its base name in the output directory, changes no other file and empties the
  recipient's inbox. Conditions: no connection, commit or write fails; the name, the recipient and the space are
  not longer than 255 bytes; there is a session key, or the receiver passes no engine, or no space is named (else it
  decrypts what was not encrypted). When other chunks wait in the inbox the file
  may be lost (\<open>relay_receive_drains\<close>).
\<close>

theorem relay_file_arrives:
  assumes B: "kv_reliable B" and ok: "relay_ok B s" and box: "inbox B L s to = []" "inbox_seq B s to < 10 ^ 10 - 2"
    and envs: "\<And>i. push_env_ok L (envs i)" "push_env_ok L menv"
    and rt: "rt_Client rt \<noteq> None" "session_ok C (rt_SessionKey rt)"
    and f: "small_file bl src content to spaceID" and rnd: "rnd 16 = Some b" "length b = 16"
    and recv: "recv_relay_ok (path_join dir (path_base (sf_path src))) env"
    and eng: "rt_SessionKey rt \<noteq> [] \<or> eng = None \<or> spaceID = []"
  shows "\<exists>s1 s2. RelaySendFile B L bl C rnd envs menv rt to src spaceID s = ((hex_encode b, None), s1) \<and>
    RelayReceiveFile B L C env rt to dir eng fs s1 =
      (Inr (path_join dir (path_base (sf_path src))), fs(path_join dir (path_base (sf_path src)) \<mapsto> content), s2) \<and>
    inbox B L s2 = inbox B L s"
  by (rule relayed_file_received [where rnd = rnd and envs = envs and menv = menv, OF assms])

theorem relay_file_arrives_witness:
  "\<exists>s1 s2. RelaySendFile ref_ops demo_relay_lib zero_hash demo_crypto (\<lambda>n. Some (replicate n (CHR ''t''))) (\<lambda>_. demo_push_env) demo_push_env
       demo_rt ''bob'' (relay_source ''hi'') [] demo_relay = ((hex_encode (replicate 16 (CHR ''t'')), None), s1) \<and>
     RelayReceiveFile ref_ops demo_relay_lib demo_crypto demo_relay_recv demo_rt ''bob'' ''out''
       (None :: ((string, bytes) rbt \<times> nat) engine option) no_files s1 = (Inr ''out/hi.txt'', no_files(''out/hi.txt'' \<mapsto> ''hi''), s2) \<and>
     inbox ref_ops demo_relay_lib s2 = inbox ref_ops demo_relay_lib demo_relay"
proof -
  note d = demo_relay_transfer
  have box: "inbox ref_ops demo_relay_lib demo_relay ''bob'' = []" "inbox_seq ref_ops demo_relay ''bob'' < 10 ^ 10 - 2"
    by (simp_all add: inbox_def inbox_seq_def demo_relay_def)
  have path: "path_join ''out'' (path_base (sf_path (relay_source ''hi''))) = ''out/hi.txt''" using d(6) by (simp add: relay_source_def)
  have rnd: "(\<lambda>n. Some (replicate n (CHR ''t''))) 16 = Some (replicate 16 (CHR ''t''))" "length (replicate 16 (CHR ''t'')) = 16" by simp_all
  have recv: "recv_relay_ok (path_join ''out'' (path_base (sf_path (relay_source ''hi'')))) demo_relay_recv" using d(2) path by simp
  show ?thesis
    using relay_file_arrives [where rnd = "\<lambda>n. Some (replicate n (CHR ''t''))" and b = "replicate 16 (CHR ''t'')"
        and envs = "\<lambda>_. demo_push_env" and menv = demo_push_env and dir = "''out''" and env = demo_relay_recv and eng = None and fs = no_files,
        OF ref.kv_reliable_axioms demo_relay_facts(2) box d(1) d(1) d(4,3,5) rnd recv] path
    by auto
qed

text \<open>
  C35. A file of 49150 bytes or more can never be sent through the relay: whatever the network, the
  clock and the storage do, \<open>SendFile\<close> ends with an error at its first chunk, before the server has
  stored anything. The chunker cuts no chunk below 512 KiB before the end of the file, and a chunk of
  that size does not fit the request line, encrypted or not.
\<close>

theorem large_file_never_relayed:
  assumes "sf_open src = Some rdr" "healthy rdr" "49150 \<le> length (rest_of rdr)"
    and "\<And>n data. length data \<le> length (aes_seal C (rt_SessionKey rt) n data)"
  shows "\<exists>tid e. RelaySendFile B L bl C rnd envs menv rt to src spaceID s = ((tid, Some e), s)"
proof -
  let ?c = "NewBufferedChunker rdr" and ?u = "rest_of rdr" and ?K = "rt_SessionKey rt"
  let ?ch = "take (first_cut ?u) ?u"
  have c: "chunker_ok ?c" "unread ?c = ?u"
    using chunker_ok_new [OF assms(2)] by (simp_all add: NewBufferedChunker_def unread_def)
  have "?u \<noteq> []" using assms(3) by auto
  then obtain ch c' where N: "Next bl ?c = (Inr ch, c')" "ck_Data ch = ?ch"
    using Next_spec [OF c(1), of bl] c(2) by (cases "Next bl ?c") (auto simp: next_spec_def Let_def emit_def)
  have "49150 \<le> first_cut ?u"
    using first_cut_lower [of ?u] first_cut_bounds [OF \<open>?u \<noteq> []\<close>] assms(3)
    by (cases "first_cut ?u < length ?u") (auto simp: MinChunkSize_def)
  then have len: "49150 \<le> length ?ch" using assms(3) by simp
  have seal: "49150 \<le> length d" if "protect_with C rnd' ?K ?ch = Inr d" for rnd' d
    using protect_with_grows [OF that assms(4)] len by linarith
  have "\<exists>e. push_file B L bl C ?K envs to tid 0 ?c s = (Inl e, s)" for tid
  proof (cases "protect_with C (pe_rnd (envs 0)) ?K ?ch")
    case (Inl e)
    then show ?thesis by (subst push_file.simps) (simp add: Let_def N)
  next
    case (Inr d)
    then obtain e where "PushChunk B L (pe_commit (envs 0)) (pe_now (envs 0)) (pe_link (envs 0)) to (relayChunkKey tid 0 (ck_Hash ch)) d s = (Inl e, s)"
      using long_push_fails [OF seal] by blast
    then show ?thesis using Inr by (subst push_file.simps) (simp add: Let_def N)
  qed
  then show ?thesis
    using assms(1) by (auto simp: RelaySendFile_def split: sum.split prod.split) (metis Pair_inject sum.distinct(1))+
qed

theorem large_file_never_relayed_witness:
  "\<exists>tid e. RelaySendFile ref_ops demo_relay_lib zero_hash demo_crypto (\<lambda>n. Some (replicate n (CHR ''t''))) (\<lambda>_. demo_push_env) demo_push_env
     demo_rt ''bob'' (relay_source (replicate 49150 (CHR ''x''))) [] demo_relay = ((tid, Some e), demo_relay)"
  by (rule large_file_never_relayed [where rdr = "[(replicate 49150 (CHR ''x''), ReadEOF)]"])
    (simp_all add: relay_source_def demo_crypto_def demo_rt_def)

text \<open>
  The relay's content decides nothing about where a reception writes: whatever was pushed into the
  inbox, by whomever, at most one file changes, and it lies directly in the output directory under
  a plain name.
\<close>

theorem relayed_files_confined:
  assumes "relay_dirs_refused dir env" "RelayReceiveFile B L C env rt me dir eng fs s = (r, fs', s')"
  shows "fs' = fs \<or> (\<exists>n. plain_name n \<and> (\<forall>q. q \<noteq> path_join dir n \<longrightarrow> fs' q = fs q))"
proof -
  have wr: "\<forall>q. q \<noteq> out \<longrightarrow> snd (write_relayed C key env tid cs out is fs0) q = fs0 q" for key tid cs out "is" fs0
    by (induction "is" arbitrary: fs0) (simp_all add: append_file_def split: option.split sum.split write_outcome.split)
  have wt: "fs1 = fs \<or> (\<exists>n. plain_name n \<and> (\<forall>q. q \<noteq> path_join dir n \<longrightarrow> fs1 q = fs q))"
    if w: "write_transfer C env key eng dir im sel fs = (r1, fs1)" for key im sel r1 fs1
  proof -
    let ?n = "path_base (rm_FileName (snd sel))"
    have eq: "fs1 q = fs q" if "q \<noteq> path_join dir ?n" for q
    proof -
      have "snd (write_relayed C k env (fst sel) (chunks_of im (fst sel)) (path_join dir ?n) is (fs(path_join dir ?n \<mapsto> []))) q = fs q"
        for k "is" using wr that by simp
      then show ?thesis using w
        by (auto simp: write_transfer_def open_output_def Let_def split: sum.splits if_splits prod.splits option.splits)
          (metis snd_conv)+
    qed
    show ?thesis
    proof (cases "plain_name ?n")
      case False
      then have "ve_isdir env (path_join dir ?n)"
        using path_base_cases [of "rm_FileName (snd sel)"] assms(1) by (auto simp: relay_dirs_refused_def)
      then show ?thesis using w by (auto simp: write_transfer_def Let_def split: sum.splits)
    qed (use eq in blast)
  qed
  show ?thesis
    using assms(2) by (auto simp: RelayReceiveFile_def split: if_splits sum.splits prod.splits option.splits dest: wt)
qed

text \<open>A manifest without chunks, whose file name leads out of the directory.\<close>

definition evil_manifest :: relay_manifest where
  "evil_manifest = \<lparr>rm_TransferID = ''t'', rm_FileName = ''../../etc/passwd'', rm_TotalSize = 0, rm_ChunkCount = 0, rm_SpaceID = []\<rparr>"

definition evil_relay :: "((string, bytes) rbt \<times> nat) relay_server" where
  "evil_relay = snd (Push ref_ops demo_relay_lib True 5 demo_relay ''bob'' ''manifest:t'' (marshal manifest_fields evil_manifest))"

definition plain_rt :: relay_transfer where
  "plain_rt = \<lparr>rt_Client = Some ''relay:9'', rt_SessionKey = []\<rparr>"

lemma evil_relay:
  "relay_ok ref_ops evil_relay"
  "inbox ref_ops demo_relay_lib evil_relay ''bob'' =
     [\<lparr>rc_ChunkHash = ''manifest:t'', rc_Data = marshal manifest_fields evil_manifest, rc_PushedAt = 5\<rparr>]"
proof -
  have "length (marshal manifest_fields evil_manifest) = 81" by code_simp
  then have len: "length (marshal manifest_fields evil_manifest) \<le> MaxRelayChunk" by (simp add: MaxRelayChunk_def)
  have seq: "inbox_seq ref_ops demo_relay ''bob'' < 10 ^ 10 - 1" by (simp add: inbox_seq_def demo_relay_def)
  have box: "inbox ref_ops demo_relay_lib demo_relay ''bob'' = []" by (simp add: inbox_def demo_relay_def)
  have "relay_ok ref_ops evil_relay \<and> inbox ref_ops demo_relay_lib evil_relay ''bob'' =
     [\<lparr>rc_ChunkHash = ''manifest:t'', rc_Data = marshal manifest_fields evil_manifest, rc_PushedAt = 5\<rparr>]"
    using ref_relay.push_ok [OF demo_relay_facts(2,3,4) len seq, of "''manifest:t''"] box by (auto simp: evil_relay_def)
  then show "relay_ok ref_ops evil_relay" "inbox ref_ops demo_relay_lib evil_relay ''bob'' =
     [\<lparr>rc_ChunkHash = ''manifest:t'', rc_Data = marshal manifest_fields evil_manifest, rc_PushedAt = 5\<rparr>]" by blast+
qed

lemma evil_received:
  "\<exists>s'. RelayReceiveFile ref_ops demo_relay_lib demo_crypto demo_relay_recv plain_rt ''bob'' ''out''
    (None :: ((string, bytes) rbt \<times> nat) engine option) no_files evil_relay = (Inr ''out/passwd'', no_files(''out/passwd'' \<mapsto> []), s')"
proof -
  let ?m = evil_manifest and ?now = "ve_now demo_relay_recv" and ?im = "\<lparr>im_manifests = [(''t'', evil_manifest)], im_raw = []\<rparr>"
  have line: "length (marshal request_fields (pull_request ''bob'')) < max_token" by (simp add: demo_pull_line max_token_def)
  have "length (marshal response_fields (ok_response\<lparr>rp_Chunks := map wire_of_chunk (inbox ref_ops demo_relay_lib evil_relay ''bob'')\<rparr>)) = 168"
    unfolding evil_relay(2) by code_simp
  then have fits: "fits_pull ''bob'' (inbox ref_ops demo_relay_lib evil_relay ''bob'')" using line by (simp add: fits_pull_def max_token_def)
  have up: "link_up (ve_link demo_relay_recv)" "ve_commit demo_relay_recv" "ve_mkdir demo_relay_recv" "ve_open demo_relay_recv" "ve_close demo_relay_recv"
    using demo_relay_facts(1) by (simp_all add: demo_relay_recv_def)
  obtain s' where s': "PullChunks ref_ops demo_relay_lib True ?now (ve_link demo_relay_recv) ''bob'' evil_relay =
      (Inr [\<lparr>rc_ChunkHash = ''manifest:t'', rc_Data = marshal manifest_fields ?m, rc_PushedAt = ?now\<rparr>], s')"
    using PullChunks_drains [OF ref.kv_reliable_axioms up(1) evil_relay(1) demo_relay_facts(4) line, of demo_relay_lib ?now] fits
    by (auto simp: evil_relay(2))
  have mok: "manifest_ok ?m" by (simp add: manifest_ok_def evil_manifest_def in_int64_def int64_min_def int64_max_def)
  have sorted: "sort_inbox demo_crypto [] [\<lparr>rc_ChunkHash = ''manifest:t'', rc_Data = marshal manifest_fields ?m, rc_PushedAt = ?now\<rparr>]
      \<lparr>im_manifests = [], im_raw = []\<rparr> = Inr ?im"
    using sort_manifest [where key = "[]" and tid = "''t''" and rcs = "[]", OF _ mok]
    by (simp add: unprotect_with_def relayManifestPrefix_def del: sort_inbox.simps(2))
  have sel: "complete_transfer ?im = Some (''t'', ?m)" by (simp add: complete_transfer_def chunks_of_def evil_manifest_def)
  have path: "path_base ''../../etc/passwd'' = ''passwd''" "path_join ''out'' ''passwd'' = ''out/passwd''" by code_simp+
  have recv: "recv_relay_ok (path_join ''out'' ''passwd'') demo_relay_recv"
    using up path by (simp add: recv_relay_ok_def demo_relay_recv_def)
  have "write_transfer demo_crypto demo_relay_recv [] (None :: ((string, bytes) rbt \<times> nat) engine option) ''out'' ?im (''t'', ?m) no_files =
      (Inr ''out/passwd'', no_files(''out/passwd'' \<mapsto> []))"
    using write_one_transfer [OF recv, where m = ?m and data = "[]" and d = "[]" and key = "[]" and tid = "''t''" and im = ?im and eng = None] path
    by (simp add: evil_manifest_def decryptKey_def chunks_of_def)
  then show ?thesis using s' sorted sel up by (simp add: RelayReceiveFile_def plain_rt_def)
qed

theorem relayed_files_confined_witness:
  "\<exists>s'. RelayReceiveFile ref_ops demo_relay_lib demo_crypto demo_relay_recv plain_rt ''bob'' ''out''
      (None :: ((string, bytes) rbt \<times> nat) engine option) no_files evil_relay = (Inr ''out/passwd'', no_files(''out/passwd'' \<mapsto> []), s') \<and>
    (no_files(''out/passwd'' \<mapsto> []) = no_files \<or>
     (\<exists>n. plain_name n \<and> (\<forall>q. q \<noteq> path_join ''out'' n \<longrightarrow> (no_files(''out/passwd'' \<mapsto> [])) q = no_files q)))"
  using evil_received relayed_files_confined [OF demo_relay_transfer(7)] by blast

text \<open>
  A reception takes everything and keeps at most one transfer: whatever it returns, the inbox
  is empty afterwards, so every other transfer that was waiting in it is lost.
\<close>

theorem relay_receive_drains:
  assumes "kv_reliable B" "relay_ok B s" "me \<noteq> []" "length (marshal request_fields (pull_request me)) < max_token"
    and "rt_Client rt \<noteq> None" "ve_mkdir env" "ve_commit env" "link_up (ve_link env)"
    and "RelayReceiveFile B L C env rt me dir eng fs s = (r, fs', s')"
  shows "inbox B L s' = (inbox B L s)(me := [])"
  using assms(5-7,9) PullChunks_drains [OF assms(1,8,2,3,4), of L "ve_now env"]
  by (auto simp: RelayReceiveFile_def split: if_splits sum.splits prod.splits option.splits)

theorem relay_receive_drains_witness:
  "\<exists>r fs' s'. RelayReceiveFile ref_ops demo_relay_lib demo_crypto demo_relay_recv plain_rt ''bob'' ''out''
      (None :: ((string, bytes) rbt \<times> nat) engine option) no_files evil_relay = (r, fs', s') \<and>
    inbox ref_ops demo_relay_lib s' = (inbox ref_ops demo_relay_lib evil_relay)(''bob'' := [])"
proof -
  have e: "rt_Client plain_rt \<noteq> None" "ve_mkdir demo_relay_recv" "ve_commit demo_relay_recv" "link_up (ve_link demo_relay_recv)"
    using demo_relay_facts(1) by (simp_all add: plain_rt_def demo_relay_recv_def)
  have line: "length (marshal request_fields (pull_request ''bob'')) < max_token" by (simp add: demo_pull_line max_token_def)
  show ?thesis
    using evil_received relay_receive_drains [OF ref.kv_reliable_axioms evil_relay(1) demo_relay_facts(4) line e] by metis
qed

end
