(* ===== verification/Rendezvous.thy ===== *)
theory Rendezvous
  imports Json "HOL-Library.AList" "HOL-Library.Monad_Syntax"
begin

text \<open>
  \<open>internal/rendezvous\<close>: the registry of peer addresses (\<open>server.go\<close>) and its HTTP client (\<open>client.go\<close>).

  The table is an association list from peer ids to an address and an expiry; every operation takes the
  time it runs at. A handler gets a request that \<open>http.ServeMux\<close> has matched against its pattern and
  returns the status and the body. The record \<open>web_lib\<close> holds what comes from the library: the path
  value that the server sees for an id the client puts into the URL (nothing if the pattern does not
  match), the JSON text of a \<open>time.Time\<close> and the order in which a map is iterated.

  Lemmas: the table, with its evictions, answers like the plain history of registrations; what a
  client registers, every client looks up until it expires.
\<close>

record web_lib =
  wb_path_value :: "string \<Rightarrow> string option"
  wb_time_text :: "int \<Rightarrow> string option"
  wb_order :: "string list \<Rightarrow> string list"

definition defaultTTL :: int where "defaultTTL = 5 * 60 * 1000000000"

record peer_record =
  pr_Addr :: string
  pr_ExpiresAt :: int

record rv_server =
  rv_addr :: string
  rv_ttl :: int
  rv_peers :: "(string \<times> peer_record) list"

definition NewRendezvous :: "string \<Rightarrow> int \<Rightarrow> rv_server" where
  "NewRendezvous addr ttl = \<lparr>rv_addr = addr, rv_ttl = (if ttl = 0 then defaultTTL else ttl), rv_peers = []\<rparr>"

definition RegisterPeer :: "int \<Rightarrow> rv_server \<Rightarrow> string \<Rightarrow> string \<Rightarrow> rv_server" where
  "RegisterPeer now s peerID addr =
     s\<lparr>rv_peers := AList.update peerID \<lparr>pr_Addr = addr, pr_ExpiresAt = now + rv_ttl s\<rparr> (rv_peers s)\<rparr>"

definition LookupPeer :: "int \<Rightarrow> rv_server \<Rightarrow> string \<Rightarrow> string" where
  "LookupPeer now s peerID = (case map_of (rv_peers s) peerID of
     None \<Rightarrow> [] | Some r \<Rightarrow> if pr_ExpiresAt r < now then [] else pr_Addr r)"

section \<open>The HTTP handlers\<close>

record http_response =
  ht_status :: nat
  ht_body :: bytes

definition http_error :: "nat \<Rightarrow> string \<Rightarrow> http_response" where
  "http_error code msg = \<lparr>ht_status = code, ht_body = msg @ [CHR 0x0A]\<rparr>"

text \<open>\<open>json.Decoder.Decode\<close> into a struct: the first value of the stream; what follows is not read.\<close>

definition decode_first :: "((string \<times> json) list \<Rightarrow> 'a option) \<Rightarrow> bytes \<Rightarrow> 'a option" where
  "decode_first of_fields bs = (case parse_value bs of
     Some (JNull, _) \<Rightarrow> of_fields []
   | Some (JObj kvs, _) \<Rightarrow> of_fields kvs
   | _ \<Rightarrow> None)"

definition addr_fields :: "string \<Rightarrow> (string \<times> json) list" where
  "addr_fields a = [(''addr'', JStr a)]"

definition addr_of_fields :: "(string \<times> json) list \<Rightarrow> string option" where
  "addr_of_fields kvs = str_field ''addr'' kvs"

interpretation addr_json: json_struct addr_fields addr_of_fields "\<lambda>_. True"
  by unfold_locales (simp_all add: addr_fields_def addr_of_fields_def field_simps_json)

definition record_fields :: "string \<Rightarrow> peer_record \<Rightarrow> (string \<times> json) list" where
  "record_fields time r = [(''addr'', JStr (pr_Addr r)), (''expires_at'', JStr time)]"

definition entry_fields :: "string \<times> string \<Rightarrow> (string \<times> json) list" where
  "entry_fields e = [(''id'', JStr (fst e)), (''addr'', JStr (snd e))]"

definition handleRegister :: "int \<Rightarrow> string \<Rightarrow> bytes \<Rightarrow> rv_server \<Rightarrow> http_response \<times> rv_server" where
  "handleRegister now peerID body s =
     (if peerID = [] then (http_error 400 ''missing peer id'', s)
      else case decode_first addr_of_fields body of
        None \<Rightarrow> (http_error 400 (''invalid body: need {'' @ quote_str ''addr'' @ '':'' @ quote_str ''host:port'' @ ''}''), s)
      | Some addr \<Rightarrow>
          if addr = []
          then (http_error 400 (''invalid body: need {'' @ quote_str ''addr'' @ '':'' @ quote_str ''host:port'' @ ''}''), s)
          else (\<lparr>ht_status = 201, ht_body = []\<rparr>, RegisterPeer now s peerID addr))"

text \<open>The outcome of \<open>Encode\<close> is ignored: a record whose time has no JSON form gives an empty body.\<close>

definition handleLookup :: "web_lib \<Rightarrow> int \<Rightarrow> string \<Rightarrow> rv_server \<Rightarrow> http_response" where
  "handleLookup W now peerID s = (case map_of (rv_peers s) peerID of
     None \<Rightarrow> http_error 404 ''peer not found''
   | Some r \<Rightarrow>
       if pr_ExpiresAt r < now then http_error 404 ''peer not found''
       else \<lparr>ht_status = 200, ht_body = (case wb_time_text W (pr_ExpiresAt r) of
           None \<Rightarrow> [] | Some t \<Rightarrow> marshal (record_fields t) r @ [CHR 0x0A])\<rparr>)"

definition listed :: "web_lib \<Rightarrow> int \<Rightarrow> rv_server \<Rightarrow> (string \<times> string) list" where
  "listed W now s = List.map_filter (\<lambda>peerID. case map_of (rv_peers s) peerID of
     None \<Rightarrow> None | Some r \<Rightarrow> if now < pr_ExpiresAt r then Some (peerID, pr_Addr r) else None)
     (wb_order W (map fst (rv_peers s)))"

definition handleList :: "web_lib \<Rightarrow> int \<Rightarrow> rv_server \<Rightarrow> http_response" where
  "handleList W now s = \<lparr>ht_status = 200,
     ht_body = json_print (JArr (map (\<lambda>e. JObj (entry_fields e)) (listed W now s))) @ [CHR 0x0A]\<rparr>"

definition handleHealth :: http_response where
  "handleHealth = \<lparr>ht_status = 200, ht_body = ''ok''\<rparr>"

definition evict_peers :: "int \<Rightarrow> rv_server \<Rightarrow> rv_server" where
  "evict_peers now s = s\<lparr>rv_peers := filter (\<lambda>(peerID, r). \<not> pr_ExpiresAt r < now) (rv_peers s)\<rparr>"

section \<open>The server over time\<close>

text \<open>Requests as the multiplexer of \<open>Run\<close> dispatches them; any other one is answered by the library.\<close>

datatype rv_request = PostPeer string bytes | GetPeer string | GetPeers | GetHealth | NoRoute

definition serve :: "web_lib \<Rightarrow> int \<Rightarrow> rv_request \<Rightarrow> rv_server \<Rightarrow> http_response \<times> rv_server" where
  "serve W now rq s = (case rq of
     PostPeer seg body \<Rightarrow> (case wb_path_value W seg of
         None \<Rightarrow> (http_error 404 ''404 page not found'', s)
       | Some peerID \<Rightarrow> handleRegister now peerID body s)
   | GetPeer seg \<Rightarrow> (case wb_path_value W seg of
         None \<Rightarrow> (http_error 404 ''404 page not found'', s)
       | Some peerID \<Rightarrow> (handleLookup W now peerID s, s))
   | GetPeers \<Rightarrow> (handleList W now s, s)
   | GetHealth \<Rightarrow> (handleHealth, s)
   | NoRoute \<Rightarrow> (http_error 404 ''404 page not found'', s))"

datatype rv_event = Request rv_request | Registered string string | Evict

text \<open>What one event does to the table: a request, a call of the embedding program, or the ticker.\<close>

definition rv_apply :: "web_lib \<Rightarrow> int \<times> rv_event \<Rightarrow> rv_server \<Rightarrow> rv_server" where
  "rv_apply W te s = (case snd te of
     Request rq \<Rightarrow> snd (serve W (fst te) rq s)
   | Registered peerID addr \<Rightarrow> RegisterPeer (fst te) s peerID addr
   | Evict \<Rightarrow> evict_peers (fst te) s)"

definition rv_run :: "web_lib \<Rightarrow> (int \<times> rv_event) list \<Rightarrow> rv_server \<Rightarrow> rv_server" where
  "rv_run W tes s = fold (rv_apply W) tes s"

section \<open>The client\<close>

datatype rv_err = RvTransport | RvStatus nat bytes | RvDecode

text \<open>\<open>up\<close> is whether the request reaches the server and the answer comes back.\<close>

definition client_Register ::
  "web_lib \<Rightarrow> bool \<Rightarrow> int \<Rightarrow> string \<Rightarrow> string \<Rightarrow> rv_server \<Rightarrow> rv_err option \<times> rv_server" where
  "client_Register W up now peerID quicAddr s =
     (if \<not> up then (Some RvTransport, s)
      else let (resp, s') = serve W now (PostPeer peerID (marshal addr_fields quicAddr)) s
           in (if ht_status resp \<noteq> 201 then Some (RvStatus (ht_status resp) (ht_body resp)) else None, s'))"

definition client_Lookup :: "web_lib \<Rightarrow> bool \<Rightarrow> int \<Rightarrow> string \<Rightarrow> rv_server \<Rightarrow> rv_err + string" where
  "client_Lookup W up now peerID s =
     (if \<not> up then Inl RvTransport
      else let resp = fst (serve W now (GetPeer peerID) s) in
        if ht_status resp = 404 then Inr []
        else if ht_status resp \<noteq> 200 then Inl (RvStatus (ht_status resp) (ht_body resp))
        else of_option RvDecode (decode_first addr_of_fields (ht_body resp)))"

definition client_Ping :: "web_lib \<Rightarrow> bool \<Rightarrow> int \<Rightarrow> rv_server \<Rightarrow> rv_err option" where
  "client_Ping W up now s =
     (if \<not> up then Some RvTransport
      else let resp = fst (serve W now GetHealth s) in
        if ht_status resp \<noteq> 200 then Some (RvStatus (ht_status resp) (ht_body resp)) else None)"

section \<open>Properties\<close>

text \<open>The registration an event makes, if any.\<close>

definition registers :: "web_lib \<Rightarrow> rv_event \<Rightarrow> (string \<times> string) option" where
  "registers W e = (case e of
     Registered peerID addr \<Rightarrow> Some (peerID, addr)
   | Request (PostPeer seg body) \<Rightarrow>
       (case (wb_path_value W seg, decode_first addr_of_fields body) of
          (Some peerID, Some addr) \<Rightarrow> if peerID = [] \<or> addr = [] then None else Some (peerID, addr)
        | _ \<Rightarrow> None)
   | _ \<Rightarrow> None)"

text \<open>The last registration of a peer in a history, with its time.\<close>

definition later_registration ::
  "web_lib \<Rightarrow> string \<Rightarrow> (string \<times> int) option \<Rightarrow> int \<times> rv_event \<Rightarrow> (string \<times> int) option" where
  "later_registration W peerID before te = (case registers W (snd te) of
     None \<Rightarrow> before
   | Some (q, addr) \<Rightarrow> if q = peerID then Some (addr, fst te) else before)"

definition last_registration :: "web_lib \<Rightarrow> (int \<times> rv_event) list \<Rightarrow> string \<Rightarrow> (string \<times> int) option" where
  "last_registration W tes peerID = foldl (later_registration W peerID) None tes"

lemma rv_apply_registers:
  "rv_apply W (t, e) s = (case registers W e of
     Some (peerID, addr) \<Rightarrow> RegisterPeer t s peerID addr
   | None \<Rightarrow> if e = Evict then evict_peers t s else s)"
  by (auto simp: rv_apply_def registers_def serve_def handleRegister_def split: rv_event.split rv_request.split option.split)

lemma rv_ttl_apply [simp]: "rv_ttl (rv_apply W te s) = rv_ttl s"
  by (cases te) (simp add: rv_apply_registers RegisterPeer_def evict_peers_def split: option.split)

lemma rv_ttl_run [simp]: "rv_ttl (rv_run W tes s) = rv_ttl s"
  by (induction tes arbitrary: s) (simp_all add: rv_run_def)

definition peers_distinct :: "rv_server \<Rightarrow> bool" where
  "peers_distinct s \<longleftrightarrow> distinct (map fst (rv_peers s))"

lemma peers_distinct_apply: "peers_distinct s \<Longrightarrow> peers_distinct (rv_apply W te s)"
  by (cases te)
    (auto simp: rv_apply_registers RegisterPeer_def evict_peers_def peers_distinct_def distinct_update distinct_map_filter
      split: option.split)

lemma peers_distinct_run: "peers_distinct s \<Longrightarrow> peers_distinct (rv_run W tes s)"
  by (induction tes arbitrary: s) (simp_all add: rv_run_def peers_distinct_apply)

lemma map_of_filter_distinct:
  "distinct (map fst xs) \<Longrightarrow> map_of (filter (\<lambda>(k, v). P v) xs) k = (case map_of xs k of None \<Rightarrow> None | Some v \<Rightarrow> if P v then Some v else None)"
  by (induction xs) (auto simp: map_of_eq_None_iff split: option.split dest: map_of_SomeD intro: rev_image_eqI)

text \<open>
  The table at \<open>now\<close> knows of a peer what the last registration says, or nothing when that has expired.
\<close>

definition agrees :: "int \<Rightarrow> int \<Rightarrow> (string \<times> int) option \<Rightarrow> peer_record option \<Rightarrow> bool" where
  "agrees now ttl reg entry \<longleftrightarrow> (case entry of
     None \<Rightarrow> (case reg of None \<Rightarrow> True | Some (addr, t) \<Rightarrow> t + ttl < now)
   | Some r \<Rightarrow> reg = Some (pr_Addr r, pr_ExpiresAt r - ttl))"

lemma agrees_apply:
  assumes "peers_distinct s" "fst te \<le> now" "agrees now (rv_ttl s) reg (map_of (rv_peers s) p)"
  shows "agrees now (rv_ttl s) (later_registration W p reg te) (map_of (rv_peers (rv_apply W te s)) p)"
proof (cases te)
  case (Pair t e)
  show ?thesis
  proof (cases "registers W e")
    case None
    have "map_of (rv_peers (evict_peers t s)) p = (case map_of (rv_peers s) p of None \<Rightarrow> None
        | Some r \<Rightarrow> if \<not> pr_ExpiresAt r < t then Some r else None)"
      using assms(1) by (simp add: evict_peers_def peers_distinct_def map_of_filter_distinct)
    then have "agrees now (rv_ttl s) reg (map_of (rv_peers (evict_peers t s)) p)"
      using assms(2,3) Pair by (cases "map_of (rv_peers s) p") (auto simp: agrees_def)
    then show ?thesis using assms(3) Pair None by (simp add: rv_apply_registers later_registration_def)
  next
    case (Some qa)
    obtain q a where qa: "qa = (q, a)" by (cases qa)
    show ?thesis
      using assms(3) Pair Some
      by (cases "q = p") (simp_all add: rv_apply_registers later_registration_def qa RegisterPeer_def update_conv' agrees_def)
  qed
qed

lemma agrees_run:
  "peers_distinct s \<Longrightarrow> (\<And>te. te \<in> set tes \<Longrightarrow> fst te \<le> now) \<Longrightarrow> agrees now (rv_ttl s) reg (map_of (rv_peers s) p) \<Longrightarrow>
   agrees now (rv_ttl s) (foldl (later_registration W p) reg tes) (map_of (rv_peers (rv_run W tes s)) p)"
proof (induction tes arbitrary: s reg)
  case (Cons te tes)
  have "agrees now (rv_ttl (rv_apply W te s)) (foldl (later_registration W p) (later_registration W p reg te) tes)
      (map_of (rv_peers (rv_run W tes (rv_apply W te s))) p)"
    using Cons.prems by (intro Cons.IH) (simp_all add: peers_distinct_apply agrees_apply)
  then show ?case by (simp add: rv_run_def)
qed (simp add: rv_run_def)

lemma agrees_lookup:
  "agrees now (rv_ttl s) reg (map_of (rv_peers s) p) \<Longrightarrow>
   LookupPeer now s p = (case reg of None \<Rightarrow> [] | Some (addr, t) \<Rightarrow> if t + rv_ttl s < now then [] else addr)"
  by (auto simp: agrees_def LookupPeer_def split: option.splits)

text \<open>
  C26. The registry refines its history: after any events, of handlers, of the embedding program and of
  the eviction ticker, none later than now, \<open>Lookup\<close> answers what the last registration of the peer says
  until its time to live is over, and nothing afterwards. Evictions are never observable.
\<close>

theorem registry_refines_history:
  assumes "\<And>te. te \<in> set tes \<Longrightarrow> fst te \<le> now"
  shows "LookupPeer now (rv_run W tes (NewRendezvous addr ttl)) peerID =
    (case last_registration W tes peerID of
       None \<Rightarrow> []
     | Some (a, t) \<Rightarrow> if t + (if ttl = 0 then defaultTTL else ttl) < now then [] else a)"
proof -
  let ?s = "NewRendezvous addr ttl"
  have "agrees now (rv_ttl ?s) (last_registration W tes peerID) (map_of (rv_peers (rv_run W tes ?s)) peerID)"
    unfolding last_registration_def
    by (rule agrees_run) (use assms in \<open>simp_all add: peers_distinct_def NewRendezvous_def agrees_def\<close>)
  then show ?thesis
    using agrees_lookup [of now "rv_run W tes ?s"] rv_ttl_run [of W tes ?s] by (simp add: NewRendezvous_def cong: option.case_cong)
qed

definition demo_web :: web_lib where
  "demo_web = \<lparr>wb_path_value = (\<lambda>s. if s = [] \<or> CHR ''/'' \<in> set s then None else Some s), wb_time_text = (\<lambda>t. Some (fmt_int t)), wb_order = (\<lambda>ks. ks)\<rparr>"

theorem registry_refines_history_witness:
  "LookupPeer 105 (rv_run demo_web [(1, Registered ''bob'' ''h:1''), (5, Registered ''bob'' ''h:2''), (104, Evict)] (NewRendezvous [] 100)) ''bob'' = ''h:2'' \<and>
   LookupPeer 106 (rv_run demo_web [(1, Registered ''bob'' ''h:1''), (5, Registered ''bob'' ''h:2''), (104, Evict)] (NewRendezvous [] 100)) ''bob'' = []"
proof -
  let ?tes = "[(1, Registered ''bob'' ''h:1''), (5, Registered ''bob'' ''h:2''), (104, Evict)]"
  have l: "last_registration demo_web ?tes ''bob'' = Some (''h:2'', 5)"
    by (simp add: last_registration_def later_registration_def registers_def)
  have le: "fst te \<le> 105" "fst te \<le> 106" if "te \<in> set ?tes" for te :: "int \<times> rv_event" using that by auto
  show ?thesis
    using registry_refines_history [of ?tes 105 demo_web "[]" 100 "''bob''", OF le(1)]
      registry_refines_history [of ?tes 106 demo_web "[]" 100 "''bob''", OF le(2)] by (simp add: l)
qed

section \<open>Client and server together\<close>

lemma decode_first_marshal:
  assumes "wf_members (flds a)"
  shows "decode_first of_flds (marshal flds a @ CHR 0x0A # r) = of_flds (flds a)"
    "decode_first of_flds (marshal flds a) = of_flds (flds a)"
  using assms parse_print_all(1) [of "JObj (flds a)" "CHR 0x0A # r"] parse_print_all(1) [of "JObj (flds a)" "[]"]
  by (simp_all add: decode_first_def marshal_def)

lemma serve_lookup:
  assumes "wb_path_value W seg = Some p" "\<And>t. wb_time_text W t \<noteq> None" "\<And>r. map_of (rv_peers s) p = Some r \<Longrightarrow> pr_Addr r \<noteq> []"
  shows "client_Lookup W True now seg s = Inr (LookupPeer now s p)"
proof (cases "map_of (rv_peers s) p")
  case None
  then show ?thesis by (simp add: client_Lookup_def serve_def assms(1) handleLookup_def LookupPeer_def http_error_def)
next
  case (Some r)
  obtain t where t: "wb_time_text W (pr_ExpiresAt r) = Some t" using assms(2) by blast
  have "decode_first addr_of_fields (marshal (record_fields t) r @ [CHR 0x0A]) = Some (pr_Addr r)"
    by (subst decode_first_marshal(1)) (simp_all add: record_fields_def addr_of_fields_def field_simps_json)
  then show ?thesis
    by (simp add: client_Lookup_def serve_def assms(1) handleLookup_def LookupPeer_def Some http_error_def t)
qed

text \<open>
  What one client registers, every client finds: after a registration over HTTP, and whatever
  else happens to the server afterwards (other registrations, evictions, any requests that do not
  register the same peer), a lookup over HTTP returns the registered address until the time to live
  has passed, and the empty address afterwards.
\<close>

theorem registered_peer_found:
  assumes W: "wb_path_value W seg = Some peerID" "\<And>t. wb_time_text W t \<noteq> None"
    and ne: "peerID \<noteq> []" "addr \<noteq> []" and s: "peers_distinct s"
    and later: "\<And>t' e. (t', e) \<in> set tes \<Longrightarrow> t' \<le> now \<and> (\<forall>a. registers W e \<noteq> Some (peerID, a))"
  shows "\<exists>s1. client_Register W True t seg addr s = (None, s1) \<and>
    client_Lookup W True now seg (rv_run W tes s1) = Inr (if t + rv_ttl s < now then [] else addr)"
proof -
  let ?s1 = "RegisterPeer t s peerID addr"
  have reg: "client_Register W True t seg addr s = (None, ?s1)"
    using ne by (simp add: client_Register_def serve_def W(1) handleRegister_def decode_first_marshal addr_fields_def addr_of_fields_def
        field_simps_json)
  have s1: "peers_distinct ?s1" "rv_ttl ?s1 = rv_ttl s" "map_of (rv_peers ?s1) peerID = Some \<lparr>pr_Addr = addr, pr_ExpiresAt = t + rv_ttl s\<rparr>"
    using s by (simp_all add: peers_distinct_def RegisterPeer_def distinct_update update_conv')
  have keep: "foldl (later_registration W peerID) (Some (addr, t)) tes = Some (addr, t)"
    using later
  proof (induction tes)
    case (Cons te tes)
    have "later_registration W peerID (Some (addr, t)) te = Some (addr, t)"
      using Cons.prems [of "fst te" "snd te"] by (auto simp: later_registration_def split: option.split)
    then show ?case using Cons.IH [OF Cons.prems [OF list.set_intros(2)]] by simp
  qed simp
  have "agrees now (rv_ttl ?s1) (foldl (later_registration W peerID) (Some (addr, t)) tes) (map_of (rv_peers (rv_run W tes ?s1)) peerID)"
    by (rule agrees_run) (use s1 later in \<open>auto simp: agrees_def\<close>)
  then have ag: "agrees now (rv_ttl (rv_run W tes ?s1)) (Some (addr, t)) (map_of (rv_peers (rv_run W tes ?s1)) peerID)"
    by (simp add: keep)
  have "pr_Addr r \<noteq> []" if "map_of (rv_peers (rv_run W tes ?s1)) peerID = Some r" for r
    using ag ne(2) that by (simp add: agrees_def)
  then have "client_Lookup W True now seg (rv_run W tes ?s1) = Inr (LookupPeer now (rv_run W tes ?s1) peerID)"
    using W by (intro serve_lookup)
  then show ?thesis using reg agrees_lookup [OF ag] s1(2) by simp
qed

theorem registered_peer_found_witness:
  "\<exists>s1. client_Register demo_web True 5 ''bob'' ''h:2'' (NewRendezvous [] 100) = (None, s1) \<and>
     client_Lookup demo_web True 105 ''bob'' (rv_run demo_web [(50, Registered ''eve'' ''h:9''), (104, Evict)] s1) = Inr ''h:2''"
proof -
  let ?tes = "[(50, Registered ''eve'' ''h:9''), (104, Evict)]"
  have W: "wb_path_value demo_web ''bob'' = Some ''bob''" "wb_time_text demo_web t \<noteq> None" for t by (simp_all add: demo_web_def)
  have ne: "''bob'' \<noteq> []" "''h:2'' \<noteq> []" by simp_all
  have s: "peers_distinct (NewRendezvous [] 100)" by (simp add: peers_distinct_def NewRendezvous_def)
  have later: "t' \<le> 105 \<and> (\<forall>a. registers demo_web e \<noteq> Some (''bob'', a))" if "(t', e) \<in> set ?tes" for t' :: int and e
    using that by (auto simp: registers_def)
  have ttl: "rv_ttl (NewRendezvous [] 100) = 100" by (simp add: NewRendezvous_def)
  show ?thesis using registered_peer_found [OF W ne s later, of ?tes 5] by (simp add: ttl)
qed

lemma in_listed:
  "(p, a) \<in> set (listed W now s) \<longleftrightarrow> p \<in> set (wb_order W (map fst (rv_peers s))) \<and>
     (\<exists>r. map_of (rv_peers s) p = Some r \<and> now < pr_ExpiresAt r \<and> a = pr_Addr r)"
proof -
  have "(p, a) \<in> set (List.map_filter f ks) \<longleftrightarrow> (\<exists>k \<in> set ks. f k = Some (p, a))" for f :: "string \<Rightarrow> (string \<times> string) option" and ks
    by (induction ks) (auto simp: List.map_filter_simps split: option.split)
  then show ?thesis by (auto simp: listed_def split: option.splits if_splits)
qed

text \<open>
  \<open>GET /peers\<close> and \<open>GET /peers/{id}\<close> agree on every peer except at the instant of its expiry:
  there the lookup still answers and the list no longer shows the peer.
\<close>

theorem list_agrees_until_expiry:
  assumes "\<And>ks. set (wb_order W ks) = set ks" and "map_of (rv_peers s) peerID = Some r" "pr_Addr r \<noteq> []"
  shows "(\<exists>a. (peerID, a) \<in> set (listed W now s)) \<longleftrightarrow> LookupPeer now s peerID \<noteq> [] \<and> now \<noteq> pr_ExpiresAt r"
proof -
  have "peerID \<in> set (map fst (rv_peers s))" using assms(2) by (auto dest: map_of_SomeD intro: rev_image_eqI)
  then have "peerID \<in> set (wb_order W (map fst (rv_peers s)))" by (simp only: assms(1))
  then have "(\<exists>a. (peerID, a) \<in> set (listed W now s)) \<longleftrightarrow> now < pr_ExpiresAt r"
    using assms(2) by (auto simp: in_listed)
  then show ?thesis using assms(2,3) by (auto simp: LookupPeer_def)
qed

theorem list_agrees_until_expiry_witness:
  "(\<exists>a. (''bob'', a) \<in> set (listed demo_web 105 (RegisterPeer 5 (NewRendezvous [] 100) ''bob'' ''h:2''))) =
     (LookupPeer 105 (RegisterPeer 5 (NewRendezvous [] 100) ''bob'' ''h:2'') ''bob'' \<noteq> [] \<and> (105 :: int) \<noteq> 105)"
  using list_agrees_until_expiry [of demo_web "RegisterPeer 5 (NewRendezvous [] 100) ''bob'' ''h:2''" "''bob''"
      "\<lparr>pr_Addr = ''h:2'', pr_ExpiresAt = 105\<rparr>" 105]
  by (simp add: demo_web_def RegisterPeer_def NewRendezvous_def)

end
