(* ===== verification/Transfers.thy ===== *)
theory Transfers
  imports Sender
begin

text \<open>
  What a transfer of \<open>internal/network/transport.go\<close> achieves: the packets the sender's pipeline
  writes are the chunks of the source in order, and a receiver that reads them holds the source.
  The pipeline is in order and ends; success at the sender means the file at the receiver; a session that
  is cut can be resumed, unless a chunk was written and not recorded.
\<close>

section \<open>The account of chunk indices\<close>

text \<open>A packet for chunk \<open>i\<close>, sealed by one of the workers.\<close>

definition packet_for :: "crypto_ops \<Rightarrow> bytes \<Rightarrow> chunk list \<Rightarrow> nat \<Rightarrow> packet \<Rightarrow> bool" where
  "packet_for C key chs i p \<longleftrightarrow> i < length chs \<and>
     (\<exists>env. rand_ok (je_rnd env) \<and> seal_job C key env (i, chs ! i) = Inr (i, p))"

lemma seal_job_index: "seal_job C key env j = Inr (i, p) \<Longrightarrow> i = fst j"
  by (auto simp: seal_job_def split: sum.splits)

lemma run_job_seals: "run_job bl C key env j eng fs = (Inr (i, p), eng', fs') \<Longrightarrow> seal_job C key env j = Inr (i, p)"
  by (auto simp: run_job_def split: option.splits prod.splits sum.splits)

fun held1 :: "worker \<Rightarrow> (nat \<times> packet) list" where
  "held1 (Holding (Inr x)) = [x]"
| "held1 _ = []"

fun ok1 :: "send_err + nat \<times> packet \<Rightarrow> (nat \<times> packet) list" where
  "ok1 (Inr x) = [x]"
| "ok1 (Inl e) = []"

definition held :: "worker list \<Rightarrow> (nat \<times> packet) list" where "held ws = concat (map held1 ws)"
definition oks :: "(send_err + nat \<times> packet) list \<Rightarrow> (nat \<times> packet) list" where "oks rs = concat (map ok1 rs)"

lemma held_update:
  "i < length ws \<Longrightarrow> mset (held (ws[i := y])) + mset (held1 (ws ! i)) = mset (held ws) + mset (held1 y)"
proof (induction ws arbitrary: i)
  case (Cons w ws)
  then show ?case by (cases i) (auto simp: held_def)
qed simp

lemma oks_simps [simp]: "oks [] = []" "oks (r # rs) = ok1 r @ oks rs" "oks (rs @ rs') = oks rs @ oks rs'"
  by (simp_all add: oks_def)

definition account :: "nat \<Rightarrow> 'm pipeline \<Rightarrow> nat multiset" where
  "account r s = mset (map fst (pl_todo s)) + mset (map fst (pl_jobs s)) + image_mset fst (mset (held (pl_workers s)))
     + image_mset fst (mset (oks (pl_results s))) + image_mset fst (mset (wr_pending (pl_writer s)))
     + mset [r..<wr_next (pl_writer s)]"

definition writer_ok :: "crypto_ops \<Rightarrow> bytes \<Rightarrow> chunk list \<Rightarrow> nat \<Rightarrow> writer \<Rightarrow> bool" where
  "writer_ok C key chs r w \<longleftrightarrow> wr_next w = r + length (wr_sent w) \<and>
     (\<forall>x \<in> set (wr_pending w). packet_for C key chs (fst x) (snd x)) \<and>
     (\<forall>k < length (wr_sent w). packet_for C key chs (r + k) (wr_sent w ! k))"

definition account_ok :: "crypto_ops \<Rightarrow> bytes \<Rightarrow> chunk list \<Rightarrow> nat \<Rightarrow> 'm pipeline \<Rightarrow> bool" where
  "account_ok C key chs r s \<longleftrightarrow>
     (\<forall>j \<in> set (pl_todo s) \<union> set (pl_jobs s). fst j < length chs \<and> snd j = chs ! fst j) \<and>
     (\<forall>x \<in> set (held (pl_workers s)) \<union> set (oks (pl_results s)). packet_for C key chs (fst x) (snd x)) \<and>
     writer_ok C key chs r (pl_writer s) \<and>
     account r s \<subseteq># mset [r..<length chs] \<and> (clean s \<longrightarrow> account r s = mset [r..<length chs]) \<and>
     (\<not> pl_stopped s \<longrightarrow> map_of (wr_pending (pl_writer s)) (wr_next (pl_writer s)) = None)"

lemma mset_delete:
  "distinct (map fst al) \<Longrightarrow> map_of al k = Some v \<Longrightarrow>
     add_mset k (image_mset fst (mset (AList.delete k al))) = image_mset fst (mset al)"
proof (induction al)
  case (Cons x al)
  show ?case
  proof (cases "fst x = k")
    case True
    then have "k \<notin> fst ` set al" using Cons.prems(1) by auto
    then have "AList.delete k al = al" by (simp add: delete_id)
    then show ?thesis using True by (cases x) simp
  next
    case False
    then show ?thesis using Cons by (cases x) auto
  qed
qed simp

lemma set_delete: "set (AList.delete k al) \<subseteq> set al"
  by (auto simp: AList.delete_eq)

lemma emit_ready_spec:
  assumes "emit_ready w = (ok, w')" "distinct (map fst (wr_pending w))" "writer_ok C key chs r w"
  shows "image_mset fst (mset (wr_pending w')) + mset [r..<wr_next w'] = image_mset fst (mset (wr_pending w)) + mset [r..<wr_next w]"
    "ok \<Longrightarrow> map_of (wr_pending w') (wr_next w') = None" "writer_ok C key chs r w'"
proof -
  have "image_mset fst (mset (wr_pending w')) + mset [r..<wr_next w'] = image_mset fst (mset (wr_pending w)) + mset [r..<wr_next w]
      \<and> (ok \<longrightarrow> map_of (wr_pending w') (wr_next w') = None) \<and> writer_ok C key chs r w'"
    using assms
  proof (induction w rule: emit_ready.induct)
    case (1 w)
    show ?case
    proof (cases "map_of (wr_pending w) (wr_next w)")
      case None
      then show ?thesis using 1 by (auto simp: emit_ready.simps [of w])
    next
      case (Some p)
      show ?thesis
      proof (cases "wr_room w = 0")
        case True
        then show ?thesis using 1 Some by (auto simp: emit_ready.simps [of w])
      next
        case False
        let ?w = "w\<lparr>wr_sent := wr_sent w @ [p], wr_room := wr_room w - 1, wr_bytes := wr_bytes w + pk_Size p,
          wr_progress := wr_progress w @ [wr_bytes w + pk_Size p],
          wr_pending := AList.delete (wr_next w) (wr_pending w), wr_next := Suc (wr_next w)\<rparr>"
        have em: "emit_ready ?w = (ok, w')" using "1.prems"(1) Some False by (simp add: emit_ready.simps [of w])
        have p: "packet_for C key chs (wr_next w) p" using "1.prems"(3) map_of_SomeD [OF Some] by (force simp: writer_ok_def)
        have le: "r \<le> wr_next w" using "1.prems"(3) by (simp add: writer_ok_def)
        have ok: "writer_ok C key chs r ?w"
          using "1.prems"(3) p set_delete [of "wr_next w" "wr_pending w"]
          by (auto simp: writer_ok_def nth_append less_Suc_eq)
        have d: "distinct (map fst (wr_pending ?w))" using "1.prems"(2) by (simp add: distinct_delete)
        note ih = "1.IH" [OF Some False em d ok]
        have "image_mset fst (mset (wr_pending ?w)) + mset [r..<wr_next ?w] =
            image_mset fst (mset (wr_pending w)) + mset [r..<wr_next w]"
          using mset_delete [OF "1.prems"(2) Some] le by simp
        then show ?thesis using ih by simp
      qed
    qed
  qed
  then show "image_mset fst (mset (wr_pending w')) + mset [r..<wr_next w'] = image_mset fst (mset (wr_pending w)) + mset [r..<wr_next w]"
    "ok \<Longrightarrow> map_of (wr_pending w') (wr_next w') = None" "writer_ok C key chs r w'" by blast+
qed

lemma upt_mset_once: "A \<subseteq># mset [r..<n] \<Longrightarrow> count A k \<le> 1"
proof -
  assume "A \<subseteq># mset [r..<n]"
  then have "count A k \<le> count (mset [r..<n]) k" by (rule mset_subset_eq_count)
  also have "\<dots> \<le> 1" using iffD1 [OF distinct_count_atmost_1, of "[r..<n]"] by auto
  finally show ?thesis .
qed

lemma distinct_if_once: "(\<And>k. count (image_mset fst (mset al)) k \<le> 1) \<Longrightarrow> distinct (map fst al)"
  by (auto simp: distinct_count_atmost_1 count_mset_0_iff le_Suc_eq simp flip: mset_map)

text \<open>One result moves from the channel to the writer.\<close>

lemma take_result_spec:
  assumes t: "take_result x w = (ok, w')" and w: "writer_ok C key chs r w" and x: "packet_for C key chs (fst x) (snd x)"
    and once: "\<And>k. count ({#fst x#} + image_mset fst (mset (wr_pending w)) + mset [r..<wr_next w]) k \<le> 1"
  shows "image_mset fst (mset (wr_pending w')) + mset [r..<wr_next w'] =
      {#fst x#} + image_mset fst (mset (wr_pending w)) + mset [r..<wr_next w]"
    "ok \<Longrightarrow> map_of (wr_pending w') (wr_next w') = None" "writer_ok C key chs r w'"
proof -
  have "fst x \<notin> fst ` set (wr_pending w)"
  proof
    assume "fst x \<in> fst ` set (wr_pending w)"
    then have "fst x \<in># image_mset fst (mset (wr_pending w))" by simp
    then have "0 < count (image_mset fst (mset (wr_pending w))) (fst x)" by (rule count_greater_zero_iff [THEN iffD2])
    then show False using once [of "fst x"] by (simp del: count_greater_zero_iff)
  qed
  then have up: "AList.update (fst x) (snd x) (wr_pending w) = wr_pending w @ [x]" by (simp add: update_new)
  let ?w = "w\<lparr>wr_pending := wr_pending w @ [x]\<rparr>"
  have em: "emit_ready ?w = (ok, w')" using t by (simp add: take_result_def up)
  have wok: "writer_ok C key chs r ?w" using w x by (auto simp: writer_ok_def)
  have "count (image_mset fst (mset (wr_pending ?w))) k \<le> 1" for k
    using once [of k] by (auto split: if_splits)
  then have d: "distinct (map fst (wr_pending ?w))" by (rule distinct_if_once)
  show "image_mset fst (mset (wr_pending w')) + mset [r..<wr_next w'] =
      {#fst x#} + image_mset fst (mset (wr_pending w)) + mset [r..<wr_next w]"
    "ok \<Longrightarrow> map_of (wr_pending w') (wr_next w') = None" "writer_ok C key chs r w'"
    using emit_ready_spec [OF em d wok] by simp_all
qed

text \<open>Every step keeps the account.\<close>

lemma account_once: "account_ok C key chs r s \<Longrightarrow> count (account r s) k \<le> 1"
  using upt_mset_once by (auto simp: account_ok_def)

lemma account_write:
  assumes a: "account_ok C key chs r s" and rs: "pl_results s = Inr x # rs"
    and t: "take_result x (pl_writer s) = (ok, w)"
    and s': "s' = s\<lparr>pl_results := rs, pl_writer := w, pl_stopped := stop, pl_report := rep\<rparr>" and stop: "\<not> stop \<Longrightarrow> ok \<and> \<not> pl_stopped s"
  shows "account_ok C key chs r s'"
proof -
  let ?w = "pl_writer s"
  have w: "writer_ok C key chs r ?w" and x: "packet_for C key chs (fst x) (snd x)"
    using a rs by (auto simp: account_ok_def)
  have sub: "{#fst x#} + image_mset fst (mset (wr_pending ?w)) + mset [r..<wr_next ?w] \<subseteq># account r s"
    by (simp add: account_def rs)
  have once: "count ({#fst x#} + image_mset fst (mset (wr_pending ?w)) + mset [r..<wr_next ?w]) k \<le> 1" for k
    using account_once [OF a, of k] mset_subset_eq_count [OF sub, of k] by (rule order_trans [rotated])
  note sp = take_result_spec [OF t w x once]
  have "account r s' = account r s" using sp(1) by (simp add: account_def s' rs)
  moreover have "clean s" if "clean s'" using that stop by (simp add: clean_def s' rs)
  moreover have "\<not> stop \<Longrightarrow> map_of (wr_pending w) (wr_next w) = None" using sp(2) stop by blast
  moreover have "\<forall>x \<in> set (held (pl_workers s)) \<union> set (oks rs). packet_for C key chs (fst x) (snd x)"
    using a by (simp add: account_ok_def rs)
  ultimately show ?thesis
    using a sp(3) unfolding account_ok_def by (simp add: s')
qed

lemma account_worker:
  assumes a: "account_ok C key chs r s" and i: "i < length (pl_workers s)"
    and s': "s' = s\<lparr>pl_jobs := js, pl_workers := (pl_workers s)[i := y], pl_results := rs, pl_engine := eng, pl_fs := fs\<rparr>"
    and js: "set js \<subseteq> set (pl_jobs s)"
    and new: "\<forall>x \<in> set (held1 y) \<union> set (oks rs). x \<in> set (held1 (pl_workers s ! i)) \<union> set (oks (pl_results s)) \<or>
      packet_for C key chs (fst x) (snd x)"
    and flow: "mset (map fst js) + image_mset fst (mset (held1 y)) + image_mset fst (mset (oks rs)) + lost =
      mset (map fst (pl_jobs s)) + image_mset fst (mset (held1 (pl_workers s ! i))) + image_mset fst (mset (oks (pl_results s)))"
    and cl: "clean s' \<Longrightarrow> clean s \<and> lost = {#}"
  shows "account_ok C key chs r s'"
proof -
  have up: "image_mset fst (mset (held ((pl_workers s)[i := y]))) + image_mset fst (mset (held1 (pl_workers s ! i))) =
      image_mset fst (mset (held (pl_workers s))) + image_mset fst (mset (held1 y))"
    using held_update [OF i, of y] by (metis image_mset_union)
  have "account r s' + lost + image_mset fst (mset (held1 (pl_workers s ! i))) =
      account r s + image_mset fst (mset (held1 (pl_workers s ! i)))"
    using up flow unfolding account_def s' by (simp add: algebra_simps)
  then have acc: "account r s' + lost = account r s" by simp
  then have "account r s' \<subseteq># account r s" by (metis mset_subset_eq_add_left)
  moreover have "account r s \<subseteq># mset [r..<length chs]" using a by (simp add: account_ok_def)
  ultimately have "account r s' \<subseteq># mset [r..<length chs]" by (rule subset_mset.order_trans)
  moreover have "account r s' = mset [r..<length chs]" if "clean s'"
    using acc cl [OF that] a by (simp add: account_ok_def)
  moreover have "packet_for C key chs (fst x) (snd x)" if x: "x \<in> set (held ((pl_workers s)[i := y])) \<union> set (oks rs)" for x
  proof -
    have "set (held ((pl_workers s)[i := y])) \<subseteq> set (held (pl_workers s)) \<union> set (held1 y)"
      by (auto simp: held_def dest!: in_set_updateD)
    moreover have "set (held1 (pl_workers s ! i)) \<subseteq> set (held (pl_workers s))"
      unfolding held_def set_concat set_map using nth_mem [OF i] by blast
    ultimately have "x \<in> set (held (pl_workers s)) \<union> set (oks (pl_results s)) \<or> packet_for C key chs (fst x) (snd x)"
      using x new by blast
    then show ?thesis using a unfolding account_ok_def by blast
  qed
  moreover have "\<forall>j \<in> set (pl_todo s) \<union> set js. fst j < length chs \<and> snd j = chs ! fst j"
    using a js unfolding account_ok_def by blast
  ultimately show ?thesis
    using a unfolding account_ok_def by (simp add: s')
qed

lemma account_step:
  assumes a: "account_ok C key chs r s" and st: "pstep bl C key s s' \<or> pcancel s s'"
  shows "account_ok C key chs r s'"
proof -
  note mono = clean_before [OF st]
  have same: "account_ok C key chs r s'"
    if "pl_todo s' = pl_todo s" "pl_jobs s' = pl_jobs s" "pl_workers s' = pl_workers s"
      "oks (pl_results s') = oks (pl_results s)" "pl_writer s' = pl_writer s" "pl_stopped s \<longrightarrow> pl_stopped s'"
    using a that mono unfolding account_ok_def account_def by auto
  show ?thesis
    using st
  proof
    assume "pcancel s s'"
    then show ?thesis by cases (rule same, simp_all)
  next
    assume "pstep bl C key s s'"
    then show ?thesis
    proof cases
      case (feed j js)
      have "account r s' = account r s" by (simp add: feed account_def)
      then show ?thesis using a mono feed unfolding account_ok_def by auto
    next
      case (take_job i j js env res eng fs)
      have j: "fst j < length chs" "snd j = chs ! fst j" using a take_job by (auto simp: account_ok_def)
      have new: "packet_for C key chs (fst x) (snd x) \<and> fst x = fst j" if "res = Inr x" for x
        using that take_job run_job_seals [of bl C key env j "pl_engine s" "pl_fs s" "fst x" "snd x" eng fs] j
          seal_job_index [of C key env j "fst x" "snd x"] by (cases j) (auto simp: packet_for_def)
      show ?thesis
      proof (cases res)
        case (Inl e)
        show ?thesis
          by (rule account_worker [where i = i and js = js and y = "Holding res" and rs = "pl_results s" and eng = eng and
                fs = fs and lost = "{#fst j#}", OF a])
            (use take_job mono Inl in \<open>auto simp: clean_def dest: set_update_memI\<close>)
      next
        case (Inr x)
        show ?thesis
          by (rule account_worker [where i = i and js = js and y = "Holding res" and rs = "pl_results s" and eng = eng and
                fs = fs and lost = "{#}", OF a])
            (use take_job mono Inr new in auto)
      qed
    next
      case (exit i)
      show ?thesis
        by (rule account_worker [where i = i and js = "[]" and y = Exited and rs = "pl_results s" and eng = "pl_engine s" and
              fs = "pl_fs s" and lost = "{#}", OF a])
          (use exit mono in auto)
    next
      case (put i res)
      show ?thesis
        by (rule account_worker [where i = i and js = "pl_jobs s" and y = "ends_worker res" and rs = "pl_results s @ [res]" and
              eng = "pl_engine s" and fs = "pl_fs s" and lost = "{#}", OF a])
          (use put mono in \<open>auto simp: ends_worker_def split: sum.split\<close>)
    next
      case (give_up i res)
      show ?thesis
        by (rule account_worker [where i = i and js = "pl_jobs s" and y = Exited and rs = "pl_results s" and
              eng = "pl_engine s" and fs = "pl_fs s" and lost = "image_mset fst (mset (held1 (Holding res)))", OF a])
          (use give_up mono in \<open>auto simp: clean_def\<close>)
    next
      case (write_ok x rs w)
      show ?thesis
        by (rule account_write [where stop = "pl_stopped s" and rep = "pl_report s", OF a write_ok(3,4)]) (use write_ok in auto)
    next
      case (write_fail x rs w)
      show ?thesis
        by (rule account_write [where stop = True and rep = "Some (Some SendChunkErr)", OF a write_fail(3,4)])
          (use write_fail in auto)
    qed (rule same; simp)+
  qed
qed

section \<open>What the sender writes\<close>

lemma account_start: "account_ok C key chs r (start_pipeline par r chs srcfail room eng fs)"
proof -
  have ids: "map fst (drop r (enumerate 0 chs)) = [r..<length chs]"
    by (simp add: enumerate_eq_zip drop_map [symmetric] flip: drop_map)
  have "fst j < length chs \<and> snd j = chs ! fst j" if "j \<in> set (drop r (enumerate 0 chs))" for j
  proof -
    have "j \<in> set (enumerate 0 chs)" using that by (rule in_set_dropD)
    then show ?thesis by (auto simp: in_set_enumerate_eq)
  qed
  then show ?thesis
    using ids
    by (simp add: account_ok_def start_pipeline_def account_def held_def writer_ok_def)
qed

lemma account_reach: "preach bl C key s0 s \<Longrightarrow> account_ok C key chs r s0 \<Longrightarrow> account_ok C key chs r s"
  by (induction rule: preach.induct) (auto intro: account_step)

lemma sent_all:
  assumes a: "account_ok C key chs r s" and c: "control_ok s" and ret: "pl_main s = Returned None"
  shows "length (wr_sent (pl_writer s)) = length chs - r"
proof -
  let ?w = "pl_writer s"
  have fin: "pl_todo s = []" "\<not> pl_stopped s" "pl_results s = []" "list_all (\<lambda>x. x = Exited) (pl_workers s)" "pl_workers s \<noteq> []"
    using c ret by (auto simp: control_ok_def)
  then have cl: "clean s" by (auto simp: clean_def list_all_iff)
  have "Exited \<in> set (pl_workers s)" using fin(4,5) by (cases "pl_workers s") auto
  then have jobs: "pl_jobs s = []" using c cl by (auto simp: control_ok_def)
  have held: "held (pl_workers s) = []" using fin(4) by (auto simp: held_def list_all_iff)
  have eq: "image_mset fst (mset (wr_pending ?w)) + mset [r..<wr_next ?w] = mset [r..<length chs]"
    using a cl fin jobs held by (simp add: account_ok_def account_def)
  have none: "wr_next ?w \<notin> fst ` set (wr_pending ?w)"
    using a fin(2) by (simp add: account_ok_def map_of_eq_None_iff)
  have nx: "wr_next ?w = r + length (wr_sent ?w)" using a by (simp add: account_ok_def writer_ok_def)
  have "set_mset (image_mset fst (mset (wr_pending ?w)) + mset [r..<wr_next ?w]) = set_mset (mset [r..<length chs])"
    by (simp only: eq)
  then have sets: "fst ` set (wr_pending ?w) \<union> {r..<wr_next ?w} = {r..<length chs}" by simp
  have "wr_next ?w \<notin> {r..<length chs}" using none sets by auto
  moreover have "{r..<wr_next ?w} \<subseteq> {r..<length chs}" using sets by blast
  ultimately show ?thesis using nx by (cases "r < wr_next ?w") (auto simp: atLeastLessThan_subset_iff)
qed

lemma carry_allI:
  "length ps = length ds \<Longrightarrow> (\<And>k. k < length ds \<Longrightarrow> carries bl C key (i + int k) (ds ! k) (ps ! k)) \<Longrightarrow>
     carry_all bl C key i ds ps"
proof (induction ds arbitrary: i ps)
  case (Cons d ds)
  obtain p ps' where ps: "ps = p # ps'" using Cons.prems(1) by (cases ps) auto
  have "carries bl C key i d p" using Cons.prems(2) [of 0] ps by simp
  moreover have "carry_all bl C key (i + 1) ds ps'"
  proof (rule Cons.IH)
    show "carries bl C key (i + 1 + int k) (ds ! k) (ps' ! k)" if "k < length ds" for k
      using Cons.prems(2) [of "Suc k"] that ps by (simp add: algebra_simps)
  qed (use Cons.prems(1) ps in simp)
  ultimately show ?case using ps by simp
qed simp

lemma with_offsets_nth:
  "k < length ds \<Longrightarrow> ck_Data (with_offsets bl st ds ! k) = ds ! k \<and> ck_Hash (with_offsets bl st ds ! k) = HashChunk bl (ds ! k)"
proof (induction ds arbitrary: st k)
  case (Cons d ds)
  then show ?case by (cases k) (auto simp: emit_def)
qed simp

lemma length_with_offsets [simp]: "length (with_offsets bl st ds) = length ds"
  by (induction ds arbitrary: st) auto

lemma packet_for_carries:
  assumes aes: "aes_laws C" and p: "packet_for C key (with_offsets bl 0 ds) i p" and ne: "[] \<notin> set ds"
  shows "carries bl C key (int i) (ds ! i) p"
proof -
  let ?c = "with_offsets bl 0 ds ! i"
  obtain env where env: "i < length ds" "rand_ok (je_rnd env)" "seal_job C key env (i, ?c) = Inr (i, p)"
    using p by (auto simp: packet_for_def)
  have c: "ck_Data ?c = ds ! i" "ck_Hash ?c = HashChunk bl (ds ! i)" using with_offsets_nth [OF env(1)] by auto
  have "ds ! i \<noteq> []" using ne env(1) nth_mem by metis
  moreover have "(if key \<noteq> [] then UnprotectChunk C key (pk_Data p) else Inr (pk_Data p)) = Inr (ds ! i)"
  proof (cases "key = []")
    case True
    then show ?thesis using env(3) by (auto simp: seal_job_def c chunk_packet_def plain_packet_def)
  next
    case False
    obtain data where "ProtectChunk C (je_rnd env) key (ds ! i) = Inr data" "pk_Data p = data"
      using env(3) False by (auto simp: seal_job_def c chunk_packet_def plain_packet_def split: sum.splits)
    then show ?thesis using ProtectChunk_Inr [OF aes] env(2) False by (auto simp: rand_ok_def)
  qed
  moreover have "pk_Type p = ''chunk'' \<and> pk_Index p = int i \<and> pk_Hash p = HashChunk bl (ds ! i)"
    using env(3) by (auto simp: seal_job_def c chunk_packet_def plain_packet_def split: sum.splits if_splits)
  ultimately show ?thesis by (simp add: carries_def)
qed

section \<open>Both ends together\<close>

text \<open>A successful \<open>SendFileWithOptions\<close> has dialled and then sent over the connection.\<close>

lemma dialled_success:
  assumes "SendFileWithOptions bl C opts src sv eng fs inp (None, out)"
  shows "SendFileOverConn bl C opts src sv eng fs inp (None, out)"
  using assms by cases auto

lemma send_success:
  assumes aes: "aes_laws C" and run: "SendFileOverConn bl C opts src sv eng fs inp (None, out)"
    and src: "sf_open src = Some rdr" "healthy rdr"
  shows "\<exists>key r pre ps. send_setup C opts src sv inp = (Inr (key, r), pre) \<and> out = pre @ ps @ [plain_packet ''end'' []] \<and>
    carry_all bl C key (int r) (drop r (cdc_split (rest_of rdr))) ps"
proof -
  from run have "send_stream bl C opts src rdr sv eng fs inp (None, out)" by cases (use src in auto)
  then show ?thesis
  proof cases
    case (transfers key r pre chs srcfail s res)
    have ret: "res = None" "pl_main s = Returned None" "out = pre @ wr_sent (pl_writer s) @ [plain_packet ''end'' []]"
      using transfers by (auto simp: send_finish_def split: option.splits if_splits)
    let ?ds = "cdc_split (rest_of rdr)"
    have chs: "chs = with_offsets bl 0 ?ds" using transfers(3) drain_new [OF src(2), of bl] by simp
    have c: "control_ok s" using control_reach [OF transfers(4) control_start] by (simp add: workers_def)
    have a: "account_ok C key chs r s" using account_reach [OF transfers(4) account_start] .
    have len: "length (wr_sent (pl_writer s)) = length ?ds - r" using sent_all [OF a c ret(2)] by (simp add: chs)
    have ne: "[] \<notin> set ?ds" using cdc_split_bounds(1) [of "rest_of rdr"] by (auto simp: list_all_iff)
    have "carry_all bl C key (int r) (drop r ?ds) (wr_sent (pl_writer s))"
    proof (rule carry_allI)
      show "carries bl C key (int r + int k) (drop r ?ds ! k) (wr_sent (pl_writer s) ! k)" if "k < length (drop r ?ds)" for k
      proof -
        have "packet_for C key (with_offsets bl 0 ?ds) (r + k) (wr_sent (pl_writer s) ! k)"
          using a that len by (simp add: account_ok_def writer_ok_def chs)
        then show ?thesis using packet_for_carries [OF aes _ ne] that by force
      qed
    qed (simp add: len)
    then show ?thesis using transfers(2) ret(3) by blast
  qed
qed

lemma receive_keeps_sent:
  "(\<And>p. Some p \<in> set inp \<Longrightarrow> pk_Type p \<noteq> ''start'') \<Longrightarrow>
     rv_sent (snd (receive_loop bl C opts key dir envs k inp rv)) = rv_sent rv"
proof (induction bl C opts key dir envs k inp rv rule: receive_loop.induct)
  case (3 bl C opts key dir envs k p r rv)
  have ew: "rv_sent (snd (engine_write bl env d rv)) = rv_sent rv" for env d rv
    by (auto simp: engine_write_def split: option.split prod.split sum.split)
  have "rv_sent (snd (store_chunk bl opts env out d rv)) = rv_sent rv" for env out d rv
    using ew [of env d "rv\<lparr>rv_fs := append_file out d (rv_fs rv)\<rparr>"]
    by (auto simp: store_chunk_def persistState_def Let_def split: write_outcome.split prod.split option.split)
  then have "rv_sent (snd (process_chunk bl C opts key env p rv)) = rv_sent rv" for env
    by (auto simp: process_chunk_def split: option.split sum.split)
  moreover have "rv_sent (snd (process_end opts env rv)) = rv_sent rv" for env by (simp add: process_end_def)
  moreover have "pk_Type p \<noteq> ''start''" using "3.prems" by simp
  ultimately have one: "rv_sent (snd (processPacket bl C opts key dir (envs k) p rv)) = rv_sent rv"
    by (simp add: processPacket_def)
  obtain res rv1 where pp: "processPacket bl C opts key dir (envs k) p rv = (res, rv1)" by fastforce
  show ?case
  proof (cases res)
    case Continue
    have "rv_sent (snd (receive_loop bl C opts key dir envs (Suc k) r rv1)) = rv_sent rv1"
      using "3.IH" [OF pp [symmetric] Continue] "3.prems" by simp
    then show ?thesis using pp Continue one by simp
  qed (use pp one in simp_all)
qed simp_all

lemma carry_all_types: "carry_all bl C key i ds ps \<Longrightarrow> p \<in> set ps \<Longrightarrow> pk_Type p = ''chunk''"
  by (induction ds arbitrary: i ps) (auto simp: carries_def split: list.splits)


lemma receive_whole:
  assumes disk: "on_disk dir nm sz mt ds i fs" and nm: "plain_name nm" "path_base path = nm"
    and envs: "\<And>k. recv_env_ok (keep_files dir nm) (envs k)" and eng: "engine_clear dir nm eng" and res: "ro_Resume opts"
    and range: "in_int64 sz" "in_int64 mt" "in_int64 (int (length ds))"
    and ps: "carry_all bl C key (int i) (drop i ds) ps"
  shows "\<exists>rv. receive_loop bl C opts key dir envs k
      (Some (start_packet path sz mt) # map Some ps @ [Some (plain_packet ''end'' [])]) (new_receiver eng fs sent) = (None, rv) \<and>
    rv_fs rv (path_join dir nm) = Some (concat ds) \<and> rv_fs rv (resume_path (path_join dir nm)) = None"
proof -
  have i: "i \<le> length ds" using disk by (simp add: on_disk_def)
  have all: "take (length ps) ps = ps" "min (i + length ps) (length ds) = length ds"
    using carry_all_length [OF ps] i by simp_all
  obtain rv1 where rv1: "receive_loop bl C opts key dir envs k
      (Some (start_packet path sz mt) # map Some ps @ [Some (plain_packet ''end'' [])]) (new_receiver eng fs sent) =
      receive_loop bl C opts key dir envs (Suc k + length ps) [Some (plain_packet ''end'' [])] rv1"
    "receiving dir nm sz mt (concat ds) (int (length ds)) rv1"
    using session_runs [where n = "length ps" and envs = envs and k = k and r = "[Some (plain_packet ''end'' [])]",
        OF disk nm envs eng res range ps] unfolding all by auto
  obtain rv2 where "processPacket bl C opts key dir (envs (Suc k + length ps)) (plain_packet ''end'' []) rv1 = (EndTransfer, rv2)"
    "rv_fs rv2 (path_join dir nm) = Some (concat ds)" "rv_fs rv2 (resume_path (path_join dir nm)) = None"
    using process_end_ok [OF rv1(2) envs [of "Suc k + length ps"], where p = "plain_packet ''end'' []" and opts = opts and
        bl = bl and C = C and key = key] res
    by (auto simp: plain_packet_def)
  then show ?thesis using rv1(1) by simp
qed

text \<open>A session that ends without an error has the whole file, whatever might have failed in it.\<close>

lemma accepted_session:
  assumes run: "receive_loop bl C opts key dir envs 0 (Some (start_packet path sz mt) # map Some ps @ [Some (plain_packet ''end'' [])])
      (new_receiver eng fs sent) = (None, rv)"
    and disk: "on_disk dir nm sz mt ds i fs" and nm: "plain_name nm" "path_base path = nm" and temps: "temps_clear (keep_files dir nm) envs"
    and eng: "engine_clear dir nm eng" and res: "ro_Resume opts" and types: "\<And>p. p \<in> set ps \<Longrightarrow> pk_Type p = ''chunk''"
  shows "\<exists>j. rv_sent rv = sent @ [resume_ack (int j)] \<and>
    (carry_all bl C key (int j) (drop j ds) ps \<longrightarrow> rv_fs rv (path_join dir nm) = Some (concat ds))"
proof -
  let ?rv0 = "new_receiver eng fs sent" and ?out = "path_join dir nm" and ?start = "start_packet path sz mt"
  define j where "j = (if re_load (envs 0) then i else 0)"
  have rv0: "rv_fs ?rv0 = fs" "rv_engine ?rv0 = eng" "rv_sent ?rv0 = sent" by (simp_all add: new_receiver_def)
  have at: "start_index opts (re_load (envs 0)) nm (resume_path ?out) ?start fs = int j"
    using disk res by (auto simp: j_def start_index_def on_disk_def saved_index_def loadState_def split: option.splits)
  have bytes: "concat (take j ds) = (if 0 < j then file_bytes fs ?out else [])" using disk by (simp add: j_def on_disk_def file_bytes_def)
  obtain r rv1 where pp: "processPacket bl C opts key dir (envs 0) ?start ?rv0 = (r, rv1)" by fastforce
  have st: "r = Continue" "receiving dir nm sz mt (concat (take j ds)) (int j) rv1" "rv_sent rv1 = sent @ [resume_ack (int j)]"
    using accepted_start [OF pp nm _ res, of j "concat (take j ds)"] eng at bytes run pp unfolding rv0 by auto
  have rest: "receive_loop bl C opts key dir envs (Suc 0) (map Some ps @ [Some (plain_packet ''end'' [])]) rv1 = (None, rv)"
    using run pp st(1) by simp
  have "pk_Type p \<noteq> ''start''" if "Some p \<in> set (map Some ps @ [Some (plain_packet ''end'' [])])" for p
    using that types [of p] by (auto simp: plain_packet_def)
  then have "rv_sent rv = sent @ [resume_ack (int j)]" using receive_keeps_sent rest st(3) by (metis snd_conv)
  moreover have "rv_fs rv ?out = Some (concat ds)" if "carry_all bl C key (int j) (drop j ds) ps"
    using accepted_stream [OF rest _ st(2) that temps] by (simp add: plain_packet_def flip: concat_append)
  ultimately show ?thesis by blast
qed

text \<open>The two ends use the same tokens and space key, and the receiver's connection works.\<close>

definition same_session :: "crypto_ops \<Rightarrow> int \<Rightarrow> send_opts \<Rightarrow> recv_opts \<Rightarrow> bool" where
  "same_session C now sopts ropts \<longleftrightarrow> ro_SpaceKey ropts = so_SpaceKey sopts \<and>
     (case so_AuthToken sopts of
        None \<Rightarrow> \<not> ro_RequireAuth ropts
      | Some st \<Rightarrow> \<exists>me t. ro_Identity ropts = Some me \<and> VerifyToken C now st (Some (PublicKey me)) = Inr t)"

definition conn_ok :: "conn_env \<Rightarrow> bool" where
  "conn_ok cv \<longleftrightarrow> cv_tls cv \<and> cv_listen cv \<and> cv_accept cv \<and> cv_stream cv \<and> cv_mkdir cv \<and> cv_auth_write cv"

lemma ack_sent:
  assumes disk: "on_disk dir nm sz mt ds i fs" and nm: "plain_name nm" "path_base path = nm"
    and env: "recv_env_ok (keep_files dir nm) (envs k)" and eng: "engine_clear dir nm eng" and res: "ro_Resume opts"
    and types: "\<And>p. Some p \<in> set r \<Longrightarrow> pk_Type p \<noteq> ''start''"
  shows "rv_sent (snd (receive_loop bl C opts key dir envs k (Some (start_packet path sz mt) # r) (new_receiver eng fs sent))) =
    sent @ [resume_ack (int i)]"
proof -
  have rv0: "rv_fs (new_receiver eng fs sent) = fs" "rv_engine (new_receiver eng fs sent) = eng"
    "rv_sent (new_receiver eng fs sent) = sent" by (simp_all add: new_receiver_def)
  obtain rv1 where "processPacket bl C opts key dir (envs k) (start_packet path sz mt) (new_receiver eng fs sent) = (Continue, rv1)"
    "rv_sent rv1 = sent @ [resume_ack (int i)]"
    using process_start_ok [OF _ nm env _ res, of sz mt ds i "new_receiver eng fs sent" bl C key] disk eng unfolding rv0 by blast
  moreover have "rv_sent (snd (receive_loop bl C opts key dir envs (Suc k) r rv1)) = rv_sent rv1"
    using types by (intro receive_keeps_sent) blast
  ultimately show ?thesis by simp
qed

text \<open>What the receiver does with a stream, in one loop: the pending packet is its first.\<close>

lemma receive_pending:
  assumes "conn_ok cv" "\<not> ro_RequireAuth opts" "pk_Type p \<noteq> ''auth''"
  shows "ReceiveOnceWithOptions bl C txt now opts dir cv envs eng fs (Some p # r) =
    apfst (map_option RecvErr) (receive_loop bl C opts [] dir envs 0 (Some p # r) (new_receiver eng fs []))"
  using assms
  by (simp add: ReceiveOnceWithOptions_def conn_ok_def serverAuthHandshake_def Let_def split: prod.split recv_result.split)

lemma receive_authenticated:
  assumes "conn_ok cv" "ro_Identity opts = Some me" "VerifyToken C now st (Some (PublicKey me)) = Inr t"
    and "if ro_SpaceKey opts = [] then key = [] else DeriveTransferSessionKey C (ro_SpaceKey opts) st = Inr key"
  shows "ReceiveOnceWithOptions bl C txt now opts dir cv envs eng fs (Some (auth_packet st) # r) =
    apfst (map_option RecvErr) (receive_loop bl C opts key dir envs 0 r (new_receiver eng fs [plain_packet ''auth_ok'' []]))"
proof -
  have "UnmarshalToken (MarshalToken st) = Inr st"
    by (simp add: UnmarshalToken_def MarshalToken_def signed_json.unmarshal_marshal)
  then have "serverAuthHandshake C txt now True (Some me) (ro_RequireAuth opts) (ro_SpaceKey opts) (Some (auth_packet st) # r) =
      (Inr \<lparr>hs_signed = Some st, hs_sessionKey = key, hs_pending = None\<rparr>, [plain_packet ''auth_ok'' []], r)"
    using assms(3,4) by (simp add: serverAuthHandshake_def auth_packet_def plain_packet_def Let_def)
  then show ?thesis using assms(1,2) by (simp add: ReceiveOnceWithOptions_def conn_ok_def Let_def)
qed

lemma auth_setup:
  assumes "send_setup C opts src sv (map Some acks) = (Inr (key, r), pre)" "so_AuthToken opts = Some tok" "so_Resume opts"
  shows "\<exists>p q rest. acks = p # q # rest \<and> pre = [auth_packet tok, start_packet (sf_path src) (sf_size src) (sf_mtime src)] \<and>
    (if so_SpaceKey opts = [] then key = [] else DeriveTransferSessionKey C (so_SpaceKey opts) tok = Inr key) \<and>
    r = nat (max 0 (pk_ResumeIndex q))"
proof -
  obtain p acks' where a: "acks = p # acks'"
    using assms by (cases acks) (auto simp: send_setup_def clientSessionKey_def runClientAuth_def split: if_splits)
  obtain q rest where b: "acks' = q # rest"
    using assms a by (cases acks')
      (auto simp: send_setup_def clientSessionKey_def runClientAuth_def Let_def split: if_splits sum.splits option.splits)
  show ?thesis
    using assms unfolding a b
    by (auto simp: send_setup_def clientSessionKey_def runClientAuth_def Let_def split: if_splits sum.splits option.splits)
qed

section \<open>A run for the witnesses\<close>

definition demo_chunk :: chunk where
  "demo_chunk = emit id 0 ''hi''"

definition demo_packet :: packet where
  "demo_packet = chunk_packet 0 demo_chunk ''hi''"

abbreviation no_engine :: "((string, bytes) rbt \<times> nat) engine option" where "no_engine \<equiv> None"

definition demo_start :: "((string, bytes) rbt \<times> nat) pipeline" where
  "demo_start = start_pipeline 1 0 [demo_chunk] False 5 no_engine no_files"

text \<open>The states of the pipeline for one worker and one chunk.\<close>

definition demo_state ::
  "(nat \<times> chunk) list \<Rightarrow> (nat \<times> chunk) list \<Rightarrow> bool \<Rightarrow> worker \<Rightarrow> (send_err + nat \<times> packet) list \<Rightarrow> writer
     \<Rightarrow> send_err option option \<Rightarrow> main_state \<Rightarrow> ((string, bytes) rbt \<times> nat) engine option \<Rightarrow> files \<Rightarrow> ((string, bytes) rbt \<times> nat) pipeline" where
  "demo_state todo jobs cl wk rs w rep mn eng fs = \<lparr>pl_cap = 2, pl_todo = todo, pl_srcfail = False, pl_jobs = jobs, pl_closed = cl,
     pl_workers = [wk], pl_results = rs, pl_stopped = False, pl_writer = w, pl_report = rep, pl_main = mn,
     pl_engine = eng, pl_fs = fs\<rparr>"

lemma demo_state_updates:
  "pl_cap (demo_state todo jobs cl wk rs w rep mn eng fs) = 2" "pl_todo (demo_state todo jobs cl wk rs w rep mn eng fs) = todo"
  "pl_srcfail (demo_state todo jobs cl wk rs w rep mn eng fs) = False" "pl_jobs (demo_state todo jobs cl wk rs w rep mn eng fs) = jobs"
  "pl_closed (demo_state todo jobs cl wk rs w rep mn eng fs) = cl" "pl_workers (demo_state todo jobs cl wk rs w rep mn eng fs) = [wk]"
  "pl_results (demo_state todo jobs cl wk rs w rep mn eng fs) = rs" "pl_writer (demo_state todo jobs cl wk rs w rep mn eng fs) = w"
  "pl_report (demo_state todo jobs cl wk rs w rep mn eng fs) = rep" "pl_main (demo_state todo jobs cl wk rs w rep mn eng fs) = mn"
  "pl_engine (demo_state todo jobs cl wk rs w rep mn eng fs) = eng" "pl_fs (demo_state todo jobs cl wk rs w rep mn eng fs) = fs"
  "demo_state todo jobs cl wk rs w rep mn eng fs\<lparr>pl_jobs := jobs', pl_todo := todo'\<rparr> = demo_state todo' jobs' cl wk rs w rep mn eng fs"
  "demo_state todo jobs cl wk rs w rep mn eng fs\<lparr>pl_closed := cl', pl_main := mn'\<rparr> = demo_state todo jobs cl' wk rs w rep mn' eng fs"
  "demo_state todo jobs cl wk rs w rep mn eng fs\<lparr>pl_main := mn'\<rparr> = demo_state todo jobs cl wk rs w rep mn' eng fs"
  "demo_state todo jobs cl wk rs w rep mn eng fs\<lparr>pl_jobs := jobs', pl_workers := [wk'], pl_engine := eng', pl_fs := fs'\<rparr> =
     demo_state todo jobs' cl wk' rs w rep mn eng' fs'"
  "demo_state todo jobs cl wk rs w rep mn eng fs\<lparr>pl_workers := [wk']\<rparr> = demo_state todo jobs cl wk' rs w rep mn eng fs"
  "demo_state todo jobs cl wk rs w rep mn eng fs\<lparr>pl_results := rs', pl_workers := [wk']\<rparr> = demo_state todo jobs cl wk' rs' w rep mn eng fs"
  "demo_state todo jobs cl wk rs w rep mn eng fs\<lparr>pl_results := rs', pl_writer := w'\<rparr> = demo_state todo jobs cl wk rs' w' rep mn eng fs"
  "demo_state todo jobs cl wk rs w rep mn eng fs\<lparr>pl_report := rep'\<rparr> = demo_state todo jobs cl wk rs w rep' mn eng fs"
  by (simp_all add: demo_state_def)

definition demo_env :: job_env where
  "demo_env = \<lparr>je_chunk = smooth_fs, je_partial = [], je_db = True, je_rnd = (\<lambda>_. None)\<rparr>"

lemma demo_run_with:
  fixes eng :: "((string, bytes) rbt \<times> nat) engine option"
  assumes env: "rand_ok (je_rnd env)" and job: "run_job bl C key env (0, demo_chunk) eng fs = (Inr (0, pkt), eng', fs')"
    and size: "pk_Size pkt = 2"
  shows "\<exists>s. preach bl C key (start_pipeline 1 0 [demo_chunk] False 5 eng fs) s \<and> pl_main s = Returned None \<and> wr_sent (pl_writer s) = [pkt]"
proof -
  let ?j = "(0 :: nat, demo_chunk)" and ?R = "pstep bl C key"
  let ?w0 = "\<lparr>wr_next = 0, wr_pending = [], wr_sent = [], wr_bytes = 0, wr_progress = [], wr_room = 5\<rparr>"
  let ?w1 = "\<lparr>wr_next = 1, wr_pending = [], wr_sent = [pkt], wr_bytes = 2, wr_progress = [2], wr_room = 4\<rparr>"
  let ?res = "Inr (0, pkt)"
  note u = demo_state_updates
  have take: "take_result (0, pkt) ?w0 = (True, ?w1)"
    by (simp add: take_result_def emit_ready.simps size)
  have "?R (start_pipeline 1 0 [demo_chunk] False 5 eng fs) (demo_state [] [?j] False Idle [] ?w0 None Feeding eng fs)"
    using feed [of "demo_state [?j] [] False Idle [] ?w0 None Feeding eng fs" ?j "[]" bl C key]
    by (simp add: u) (simp add: start_pipeline_def demo_state_def)
  moreover have "?R (demo_state [] [?j] False Idle [] ?w0 None Feeding eng fs) (demo_state [] [?j] True Idle [] ?w0 None Awaiting eng fs)"
    using src_end [of "demo_state [] [?j] False Idle [] ?w0 None Feeding eng fs" bl C key] by (simp add: u)
  moreover have "?R (demo_state [] [?j] True Idle [] ?w0 None Awaiting eng fs) (demo_state [] [] True (Holding ?res) [] ?w0 None Awaiting eng' fs')"
    using take_job [of 0 "demo_state [] [?j] True Idle [] ?w0 None Awaiting eng fs" ?j "[]" env bl C key ?res eng' fs'] job
    by (simp add: u) (simp add: env)
  moreover have "?R (demo_state [] [] True (Holding ?res) [] ?w0 None Awaiting eng' fs') (demo_state [] [] True Idle [?res] ?w0 None Awaiting eng' fs')"
    using put [of 0 "demo_state [] [] True (Holding ?res) [] ?w0 None Awaiting eng' fs'" ?res bl C key]
    by (simp add: u ends_worker_def)
  moreover have "?R (demo_state [] [] True Idle [?res] ?w0 None Awaiting eng' fs') (demo_state [] [] True Idle [] ?w1 None Awaiting eng' fs')"
    using write_ok [of "demo_state [] [] True Idle [?res] ?w0 None Awaiting eng' fs'" "(0, pkt)" "[]" ?w1 bl C key] take
    by (simp add: u)
  moreover have "?R (demo_state [] [] True Idle [] ?w1 None Awaiting eng' fs') (demo_state [] [] True Exited [] ?w1 None Awaiting eng' fs')"
    using exit [of 0 "demo_state [] [] True Idle [] ?w1 None Awaiting eng' fs'" bl C key] by (simp add: u)
  moreover have "?R (demo_state [] [] True Exited [] ?w1 None Awaiting eng' fs') (demo_state [] [] True Exited [] ?w1 (Some None) Awaiting eng' fs')"
    using write_end [of "demo_state [] [] True Exited [] ?w1 None Awaiting eng' fs'" bl C key] by (simp add: u)
  moreover have "?R (demo_state [] [] True Exited [] ?w1 (Some None) Awaiting eng' fs') (demo_state [] [] True Exited [] ?w1 (Some None) (Returned None) eng' fs')"
    using await [of "demo_state [] [] True Exited [] ?w1 (Some None) Awaiting eng' fs'" None bl C key] by (simp add: u)
  ultimately have "preach bl C key (start_pipeline 1 0 [demo_chunk] False 5 eng fs) (demo_state [] [] True Exited [] ?w1 (Some None) (Returned None) eng' fs')"
    using preach.intros [of bl C key "start_pipeline 1 0 [demo_chunk] False 5 eng fs"] by meson
  then show ?thesis
    by (intro exI [of _ "demo_state [] [] True Exited [] ?w1 (Some None) (Returned None) eng' fs'"]) (simp add: u)
qed

lemma demo_run_sealed:
  assumes "rand_ok (je_rnd env)" "seal_job C key env (0, demo_chunk) = Inr (0, pkt)" "pk_Size pkt = 2"
  shows "\<exists>s. preach bl C key demo_start s \<and> pl_main s = Returned None \<and> wr_sent (pl_writer s) = [pkt]"
  unfolding demo_start_def by (rule demo_run_with [OF assms(1) _ assms(3)]) (simp add: run_job_def assms(2))

lemma demo_run:
  "\<exists>s. preach id demo_crypto [] demo_start s \<and> pl_main s = Returned None \<and> wr_sent (pl_writer s) = [demo_packet]"
  by (rule demo_run_sealed [of demo_env])
    (simp_all add: demo_env_def rand_ok_def seal_job_def demo_packet_def chunk_packet_def demo_chunk_def emit_def)

section \<open>Properties of a transfer\<close>

text \<open>
  C5. The order of the packets, for any number of workers and any schedule: what has been written is
  always the packets of the chunks from the resume index on, consecutively and each sealed from its
  own chunk, and when the main goroutine returns without an error every chunk has been written.
\<close>

theorem pipeline_in_order:
  assumes "preach bl C key (start_pipeline par r chs srcfail room eng fs) s" "0 < par"
  shows "(\<forall>k < length (wr_sent (pl_writer s)). packet_for C key chs (r + k) (wr_sent (pl_writer s) ! k)) \<and>
    length (wr_sent (pl_writer s)) \<le> length chs - r \<and>
    (pl_main s = Returned None \<longrightarrow> length (wr_sent (pl_writer s)) = length chs - r)"
proof -
  have a: "account_ok C key chs r s" using account_reach [OF assms(1) account_start] .
  have c: "control_ok s" using control_reach [OF assms(1) control_start [OF assms(2)]] .
  have all: "\<forall>k < length (wr_sent (pl_writer s)). packet_for C key chs (r + k) (wr_sent (pl_writer s) ! k)"
    using a by (simp add: account_ok_def writer_ok_def)
  then have "length (wr_sent (pl_writer s)) \<le> length chs - r"
    by (cases "length (wr_sent (pl_writer s))") (auto simp: packet_for_def dest!: spec [of _ "length (wr_sent (pl_writer s)) - 1"])
  then show ?thesis using all sent_all [OF a c] by blast
qed

theorem pipeline_in_order_witness:
  "\<exists>s. preach id demo_crypto [] demo_start s \<and> pl_main s = Returned None \<and>
    (\<forall>k < length (wr_sent (pl_writer s)). packet_for demo_crypto [] [demo_chunk] (0 + k) (wr_sent (pl_writer s) ! k)) \<and>
    length (wr_sent (pl_writer s)) = 1"
proof -
  obtain s where s: "preach id demo_crypto [] demo_start s" "pl_main s = Returned None" using demo_run by blast
  show ?thesis
    using pipeline_in_order [OF s(1) [unfolded demo_start_def] zero_less_one] s by auto
qed

text \<open>
  C8. The goroutines cannot deadlock and always end: in every reachable state, whatever has failed,
  either the main goroutine has returned, the writer has reported and every worker has exited, or
  one of them can take a step; and every step, cancellation included, lowers a weight, so a run has
  at most \<open>weight\<close> of its start many steps. No worker is left behind blocked on a channel.
\<close>

theorem pipeline_ends:
  assumes "preach bl C key (start_pipeline par r chs srcfail room eng fs) s" "0 < par"
  shows "(finished s \<or> (\<exists>s'. pstep bl C key s s')) \<and>
    (\<forall>s'. pstep bl C key s s' \<or> pcancel s s' \<longrightarrow> weight s' < weight s)"
  using control_reach [OF assms(1) control_start [OF assms(2)]] not_finished_moves step_lowers_weight by blast

theorem pipeline_ends_witness:
  "(finished demo_start \<or> (\<exists>s'. pstep id demo_crypto [] demo_start s')) \<and> weight demo_start = 9"
proof -
  have "weight demo_start = 9" by (simp add: weight_def demo_start_def start_pipeline_def)
  then show ?thesis
    using pipeline_ends [where par = 1 and bl = id and C = demo_crypto and key = "[]" and r = 0 and chs = "[demo_chunk]" and
        srcfail = False and room = 5 and eng = no_engine and fs = no_files, OF preach.init zero_less_one]
    by (simp add: demo_start_def)
qed

lemma resume_ack_index [simp]: "pk_ResumeIndex (resume_ack i) = i"
  by (simp add: resume_ack_def)

lemma resume_ack_inj [simp]: "resume_ack i = resume_ack j \<longleftrightarrow> i = j"
  by (metis resume_ack_index)

text \<open>
  What a successful sender has written, as the receiver reads it: one loop from the \<open>start\<close> packet on, with the
  chunks from the index of the receiver's answer, which follows the answers \<open>sent\<close> to the token.
\<close>

lemma session_stream:
  assumes aes: "aes_laws C" and sess: "same_session C now sopts ropts" and cv: "conn_ok cv"
    and resume: "so_Resume sopts" and src: "sf_open src = Some rdr" "healthy rdr"
    and send: "SendFileOverConn bl C sopts src sv engS fsS (map Some (rv_sent rv)) (None, out)"
    and recv: "ReceiveOnceWithOptions bl C txt now ropts dir cv envs engR fs (map Some out) = (res, rv)"
  obtains key r ps sent e where "carry_all bl C key (int r) (drop r (cdc_split (rest_of rdr))) ps"
    "r = nat (max 0 (pk_ResumeIndex (rv_sent rv ! length sent)))" "res = map_option RecvErr e"
    "receive_loop bl C ropts key dir envs 0 (Some (start_packet (sf_path src) (sf_size src) (sf_mtime src)) # map Some ps @
       [Some (plain_packet ''end'' [])]) (new_receiver engR fs sent) = (e, rv)"
proof -
  note found = that
  let ?ds = "cdc_split (rest_of rdr)" and ?start = "start_packet (sf_path src) (sf_size src) (sf_mtime src)"
  obtain key r pre ps where st: "send_setup C sopts src sv (map Some (rv_sent rv)) = (Inr (key, r), pre)"
    "out = pre @ ps @ [plain_packet ''end'' []]" "carry_all bl C key (int r) (drop r ?ds) ps"
    using send_success [OF aes send src] by blast
  let ?r = "map Some ps @ [Some (plain_packet ''end'' [])]"
  let ?loop = "\<lambda>sent. receive_loop bl C ropts key dir envs 0 (Some ?start # ?r) (new_receiver engR fs sent)"
  have fin: ?thesis if run: "apfst (map_option RecvErr) (?loop sent) = (res, rv)"
    and ack: "r = nat (max 0 (pk_ResumeIndex (rv_sent rv ! length sent)))" for sent
  proof -
    obtain e where "?loop sent = (e, rv)" "res = map_option RecvErr e" using run by (cases "?loop sent") (simp del: receive_loop.simps)
    then show ?thesis using found st(3) ack by blast
  qed
  show ?thesis
  proof (cases "so_AuthToken sopts")
    case None
    obtain q acks where key: "key = []" "pre = [?start]" and ack: "rv_sent rv = q # acks" "r = nat (max 0 (pk_ResumeIndex q))"
      using st(1) None resume
      by (cases "rv_sent rv"; auto simp: send_setup_def clientSessionKey_def runClientAuth_def Let_def split: if_splits)
    have "ReceiveOnceWithOptions bl C txt now ropts dir cv envs engR fs (Some ?start # ?r) = apfst (map_option RecvErr) (?loop [])"
      unfolding key using sess None by (intro receive_pending [OF cv]) (simp_all add: same_session_def)
    then have "apfst (map_option RecvErr) (?loop []) = (res, rv)"
      using recv unfolding st(2) key by (simp del: receive_loop.simps)
    then show ?thesis by (rule fin) (simp_all add: ack)
  next
    case (Some tok)
    obtain me t where me: "ro_Identity ropts = Some me" "VerifyToken C now tok (Some (PublicKey me)) = Inr t"
      "ro_SpaceKey ropts = so_SpaceKey sopts" using sess Some by (auto simp: same_session_def)
    obtain p q acks where sent: "rv_sent rv = p # q # acks" and key: "pre = [auth_packet tok, ?start]"
      "if so_SpaceKey sopts = [] then key = [] else DeriveTransferSessionKey C (so_SpaceKey sopts) tok = Inr key"
      and ack: "r = nat (max 0 (pk_ResumeIndex q))"
      using auth_setup [OF st(1) Some resume] by blast
    have "ReceiveOnceWithOptions bl C txt now ropts dir cv envs engR fs (Some (auth_packet tok) # Some ?start # ?r) =
        apfst (map_option RecvErr) (?loop [plain_packet ''auth_ok'' []])"
      using key(2) me(3) by (intro receive_authenticated [OF cv me(1,2)]) simp
    then have "apfst (map_option RecvErr) (?loop [plain_packet ''auth_ok'' []]) = (res, rv)"
      using recv unfolding st(2) key(1) by (simp del: receive_loop.simps)
    then show ?thesis by (rule fin) (simp add: sent ack)
  qed
qed

text \<open>
  The receiver of everything a successful sender wrote over a connection ends up with the whole file or
  reports an error, and it reports none if no call of it fails.
\<close>

lemma stream_arrives:
  assumes aes: "aes_laws C" and sess: "same_session C now sopts ropts" and cv: "conn_ok cv"
    and resume: "so_Resume sopts" "ro_Resume ropts" and src: "sf_open src = Some rdr" "healthy rdr"
    and send: "SendFileOverConn bl C sopts src sv engS fsS (map Some (rv_sent rv)) (None, out)"
    and recv: "ReceiveOnceWithOptions bl C txt now ropts dir cv envs engR fs (map Some out) = (res, rv)"
    and nm: "plain_name nm" "path_base (sf_path src) = nm"
    and disk: "on_disk dir nm (sf_size src) (sf_mtime src) (cdc_split (rest_of rdr)) i fs"
    and temps: "temps_clear (keep_files dir nm) envs" and eng: "engine_clear dir nm engR"
    and range: "in_int64 (sf_size src)" "in_int64 (sf_mtime src)" "in_int64 (int (length (cdc_split (rest_of rdr))))"
  shows "(res = None \<longrightarrow> rv_fs rv (path_join dir nm) = Some (rest_of rdr)) \<and>
    ((\<forall>k. recv_env_ok (keep_files dir nm) (envs k)) \<longrightarrow> res = None \<and> rv_fs rv (resume_path (path_join dir nm)) = None)"
proof -
  let ?ds = "cdc_split (rest_of rdr)" and ?start = "start_packet (sf_path src) (sf_size src) (sf_mtime src)"
  obtain key r ps sent e where st: "carry_all bl C key (int r) (drop r ?ds) ps"
    "r = nat (max 0 (pk_ResumeIndex (rv_sent rv ! length sent)))" "res = map_option RecvErr e"
    and L: "receive_loop bl C ropts key dir envs 0 (Some ?start # map Some ps @ [Some (plain_packet ''end'' [])])
      (new_receiver engR fs sent) = (e, rv)"
    by (rule session_stream [OF aes sess cv resume(1) src send recv])
  have "rv_fs rv (path_join dir nm) = Some (rest_of rdr)" if "res = None"
  proof -
    have "e = None" using st(3) that by simp
    from accepted_session [OF L [unfolded this] disk nm temps eng resume(2) carry_all_types [OF st(1)]] obtain j where
      j: "rv_sent rv = sent @ [resume_ack (int j)]"
      "carry_all bl C key (int j) (drop j ?ds) ps \<longrightarrow> rv_fs rv (path_join dir nm) = Some (concat ?ds)" by blast
    have "r = j" using st(2) j(1) by simp
    then show ?thesis using st(1) j(2) by simp
  qed
  moreover have "res = None \<and> rv_fs rv (resume_path (path_join dir nm)) = None" if ok: "\<forall>k. recv_env_ok (keep_files dir nm) (envs k)"
  proof -
    have types: "pk_Type p \<noteq> ''start''" if "Some p \<in> set (map Some ps @ [Some (plain_packet ''end'' [])])" for p
      using that carry_all_types [OF st(1), of p] by (auto simp: plain_packet_def)
    have "rv_sent rv = sent @ [resume_ack (int i)]"
      using ack_sent [where envs = envs and k = 0 and bl = bl and C = C and key = key and sent = sent and
          r = "map Some ps @ [Some (plain_packet ''end'' [])]",
          OF disk nm spec [OF ok] eng resume(2) types] L by (simp del: receive_loop.simps)
    then have "carry_all bl C key (int i) (drop i ?ds) ps" using st(1,2) by simp
    from receive_whole [where envs = envs and k = 0 and sent = sent, OF disk nm spec [OF ok] eng resume(2) range this]
    show ?thesis using L st(3) by (auto simp del: receive_loop.simps)
  qed
  ultimately show ?thesis by blast
qed

text \<open>
  C4. End to end, with or without token and encryption, under every interleaving of the goroutines of the
  sender: when \<open>SendFileWithOptions\<close> reports success against a receiver that reads what it writes and whose
  answers it reads, then a receiver that reports no error has an output file with exactly the bytes of the
  source, whether it started afresh or resumed after any number of complete chunks, and whatever calls of
  either side have failed. It reports no error, and the side file is gone, if no call of it fails;
  when one fails, the sender does not notice. Conditions: both sides have resuming on, as by default, and agree
  on the session; the receiver's listener and connection work; the source is read to its end without an error;
  the output and its side file are as an earlier session left them (\<open>on_disk\<close>), and no chunk or temporary
  file of the receiver's engine has their name.
\<close>

theorem transfer_complete:
  assumes aes: "aes_laws C" and sess: "same_session C now sopts ropts" and cv: "conn_ok cv"
    and resume: "so_Resume sopts" "ro_Resume ropts" and src: "sf_open src = Some rdr" "healthy rdr"
    and send: "SendFileWithOptions bl C sopts src sv engS fsS (map Some (rv_sent rv)) (None, out)"
    and recv: "ReceiveOnceWithOptions bl C txt now ropts dir cv envs engR fs (map Some out) = (res, rv)"
    and nm: "plain_name nm" "path_base (sf_path src) = nm"
    and disk: "on_disk dir nm (sf_size src) (sf_mtime src) (cdc_split (rest_of rdr)) i fs"
    and temps: "temps_clear (keep_files dir nm) envs" and eng: "engine_clear dir nm engR"
    and range: "in_int64 (sf_size src)" "in_int64 (sf_mtime src)" "in_int64 (int (length (cdc_split (rest_of rdr))))"
  shows "(res = None \<longrightarrow> rv_fs rv (path_join dir nm) = Some (rest_of rdr)) \<and>
    ((\<forall>k. recv_env_ok (keep_files dir nm) (envs k)) \<longrightarrow> res = None \<and> rv_fs rv (resume_path (path_join dir nm)) = None)"
  by (rule stream_arrives [OF aes sess cv resume src dialled_success [OF send] recv nm disk temps eng range])

definition demo_source :: source where
  "demo_source = \<lparr>sf_path = ''docs/a.txt'', sf_open = Some [(''hi'', ReadOK)], sf_stat = True, sf_size = 2, sf_mtime = 7\<rparr>"

definition demo_send_opts :: send_opts where
  "demo_send_opts = \<lparr>so_Parallelism = 1, so_Resume = True, so_AuthToken = None, so_SpaceKey = []\<rparr>"

definition demo_send_env :: send_env where
  "demo_send_env = \<lparr>sv_dial = True, sv_stream = True, sv_auth = True, sv_start = True, sv_room = 5, sv_end = True, sv_close = True\<rparr>"

abbreviation demo_out :: "packet list" where
  "demo_out \<equiv> [start_packet ''docs/a.txt'' 2 7, demo_packet, plain_packet ''end'' []]"

lemma demo_split: "cdc_split ''hi'' = [''hi'']"
proof -
  have "first_cut ''hi'' = 2"
    using first_cut_lower [of "''hi''"] first_cut_bounds [of "''hi''"] by (cases "first_cut ''hi'' < 2") (auto simp: MinChunkSize_def)
  then show ?thesis by (simp add: cdc_split.simps [of "''hi''"])
qed

lemma demo_names: "plain_name ''a.txt''" "path_base ''docs/a.txt'' = ''a.txt''" "path_join ''out'' ''a.txt'' = ''out/a.txt''"
  by code_simp+

lemma demo_recv_ok: "recv_env_ok (keep_files ''out'' ''a.txt'') demo_recv_env"
  by (simp add: recv_env_ok_def demo_recv_env_def demo_names chunk_env_ok_def smooth_fs_def resume_path_def)

lemma demo_fresh: "on_disk ''out'' ''a.txt'' sz mt ds 0 no_files"
  by (simp add: on_disk_def saved_index_def loadState_def no_files_def)

lemma demo_sends:
  "SendFileWithOptions id demo_crypto demo_send_opts demo_source demo_send_env no_engine no_files [Some (resume_ack 0)] (None, demo_out)"
proof -
  obtain s where s: "preach id demo_crypto [] demo_start s" "pl_main s = Returned None" "wr_sent (pl_writer s) = [demo_packet]"
    using demo_run by blast
  have started: "send_setup demo_crypto demo_send_opts demo_source demo_send_env [Some (resume_ack 0)] =
      (Inr ([], 0), [start_packet ''docs/a.txt'' 2 7])"
    by (simp add: send_setup_def clientSessionKey_def runClientAuth_def demo_send_opts_def demo_send_env_def demo_source_def
        resume_ack_def plain_packet_def Let_def)
  have dr: "drain id (NewBufferedChunker [(''hi'', ReadOK)]) = ([demo_chunk], False)"
    using drain_new [of "[(''hi'', ReadOK)]" id] by (simp add: demo_split demo_chunk_def)
  have "workers demo_send_opts = 1" by (simp add: workers_def demo_send_opts_def)
  then have "preach id demo_crypto [] (start_pipeline (workers demo_send_opts) 0 [demo_chunk] False (sv_room demo_send_env) no_engine no_files) s"
    using s(1) by (simp add: demo_start_def demo_send_env_def)
  from send_stream.transfers [OF started dr this s(2)]
  have st: "send_stream id demo_crypto demo_send_opts demo_source [(''hi'', ReadOK)] demo_send_env no_engine no_files
      [Some (resume_ack 0)] (None, demo_out)"
    by (simp add: send_finish_def demo_send_env_def s(3))
  then have "SendFileOverConn id demo_crypto demo_send_opts demo_source demo_send_env no_engine no_files [Some (resume_ack 0)] (None, demo_out)"
    by (simp add: send_over_conn_simps demo_source_def demo_send_env_def)
  then show ?thesis by (intro SendFileWithOptions.intros(2)) (simp_all add: demo_send_env_def)
qed

lemma demo_acked_by:
  assumes "envs 0 = demo_recv_env"
  shows "\<exists>res rv. ReceiveOnceWithOptions id demo_crypto (\<lambda>_. []) 0 default_recv_opts ''out'' demo_conn envs
      no_engine no_files (map Some demo_out) = (res, rv) \<and> rv_sent rv = [resume_ack 0]"
proof -
  let ?r = "[Some demo_packet, Some (plain_packet ''end'' [])]" and ?st = "start_packet ''docs/a.txt'' 2 7"
  have ok: "recv_env_ok (keep_files ''out'' ''a.txt'') (envs 0)" using demo_recv_ok assms by simp
  have cv: "conn_ok demo_conn" by (simp add: conn_ok_def demo_conn_def)
  have opts: "ro_Resume default_recv_opts" "\<not> ro_RequireAuth default_recv_opts" by (simp_all add: default_recv_opts_def)
  have clear: "engine_clear ''out'' ''a.txt'' no_engine" by (simp add: engine_clear_def)
  have types: "pk_Type p \<noteq> ''start''" if "Some p \<in> set ?r" for p
    using that by (auto simp: plain_packet_def demo_packet_def chunk_packet_def)
  obtain res rv where recv: "ReceiveOnceWithOptions id demo_crypto (\<lambda>_. []) 0 default_recv_opts ''out'' demo_conn
      envs no_engine no_files (map Some demo_out) = (res, rv)" by fastforce
  have "snd (ReceiveOnceWithOptions id demo_crypto (\<lambda>_. []) 0 default_recv_opts ''out'' demo_conn envs no_engine
      no_files (map Some demo_out)) = snd (receive_loop id demo_crypto default_recv_opts [] ''out'' envs 0
      (Some ?st # ?r) (new_receiver no_engine no_files []))"
    using receive_pending [where p = "?st" and r = "?r" and bl = id and C = demo_crypto and now = 0 and
        dir = "''out''" and envs = envs and eng = no_engine and fs = no_files, OF cv opts(2)]
    by (simp del: receive_loop.simps)
  then have "rv_sent rv = [resume_ack 0]"
    using ack_sent [where envs = envs and k = 0 and bl = id and C = demo_crypto and key = "[]" and sent = "[]" and r = "?r"
        and sz = 2 and mt = 7 and ds = "[]", OF demo_fresh demo_names(1,2) ok clear opts(1) types] recv
    by (simp del: receive_loop.simps)
  then show ?thesis using recv by blast
qed

lemmas demo_acked = demo_acked_by [of "\<lambda>_. demo_recv_env", OF refl]

text \<open>What both ends of the example have agreed on.\<close>

lemma demo_session:
  "conn_ok demo_conn" "ro_Resume default_recv_opts" "so_Resume demo_send_opts" "engine_clear ''out'' ''a.txt'' no_engine"
  "sf_open demo_source = Some [(''hi'', ReadOK)]" "healthy [(''hi'', ReadOK)]" "rest_of [(''hi'', ReadOK)] = ''hi''"
  "sf_path demo_source = ''docs/a.txt''" "sf_size demo_source = 2" "sf_mtime demo_source = 7"
  "same_session demo_crypto 0 demo_send_opts default_recv_opts"
  "in_int64 2" "in_int64 7" "in_int64 (int (length (cdc_split ''hi'')))"
  by (simp_all add: conn_ok_def demo_conn_def default_recv_opts_def demo_send_opts_def engine_clear_def demo_source_def
      same_session_def demo_split in_int64_def int64_min_def int64_max_def)

theorem transfer_complete_witness:
  "\<exists>res rv. ReceiveOnceWithOptions id demo_crypto (\<lambda>_. []) 0 default_recv_opts ''out'' demo_conn (\<lambda>_. demo_recv_env)
      no_engine no_files (map Some demo_out) = (res, rv) \<and> rv_sent rv = [resume_ack 0] \<and>
    SendFileWithOptions id demo_crypto demo_send_opts demo_source demo_send_env no_engine no_files (map Some (rv_sent rv)) (None, demo_out) \<and>
    res = None \<and> rv_fs rv (path_join ''out'' ''a.txt'') = Some ''hi'' \<and> rv_fs rv (resume_path (path_join ''out'' ''a.txt'')) = None"
proof -
  obtain res rv where recv: "ReceiveOnceWithOptions id demo_crypto (\<lambda>_. []) 0 default_recv_opts ''out'' demo_conn (\<lambda>_. demo_recv_env)
      no_engine no_files (map Some demo_out) = (res, rv)" "rv_sent rv = [resume_ack 0]" using demo_acked by blast
  have send: "SendFileWithOptions id demo_crypto demo_send_opts demo_source demo_send_env no_engine no_files (map Some (rv_sent rv)) (None, demo_out)"
    using demo_sends by (simp add: recv(2))
  have "res = None \<and> rv_fs rv (path_join ''out'' ''a.txt'') = Some ''hi'' \<and> rv_fs rv (resume_path (path_join ''out'' ''a.txt'')) = None"
    using transfer_complete [OF demo_laws(2) demo_session(11,1,3,2,5,6) send recv(1) demo_names(1), unfolded demo_session(7-10),
        OF demo_names(2) demo_fresh recv_env_temps [OF demo_recv_ok] demo_session(4,12,13,14)] demo_recv_ok by blast
  then show ?thesis using recv send by blast
qed

text \<open>
  C16. A session that is cut after any number of chunks can be resumed: output and side file agree
  on the chunks received so far. When the stream simply ends, without \<open>end\<close> packet, the receiver
  reports success, although chunks are missing.
\<close>

theorem cut_session_resumable:
  assumes "on_disk dir nm sz mt ds i fs" and "plain_name nm" "path_base path = nm"
    and "\<And>k. recv_env_ok (keep_files dir nm) (envs k)" and "engine_clear dir nm eng" and "ro_Resume opts"
    and "in_int64 sz" "in_int64 mt" "in_int64 (int (length ds))" and "carry_all bl C key (int i) (drop i ds) ps"
  shows "\<exists>rv. receive_loop bl C opts key dir envs k (Some (start_packet path sz mt) # map Some (take n ps) @ (if broken then [None] else []))
        (new_receiver eng fs sent) = (if broken then Some StreamErr else None, rv) \<and>
    on_disk dir nm sz mt ds (min (i + n) (length ds)) (rv_fs rv) \<and> engine_clear dir nm (rv_engine rv)"
proof -
  obtain rv where rv: "receive_loop bl C opts key dir envs k
      (Some (start_packet path sz mt) # map Some (take n ps) @ (if broken then [None] else [])) (new_receiver eng fs sent) =
      receive_loop bl C opts key dir envs (Suc k + length (take n ps)) (if broken then [None] else []) rv"
    "on_disk dir nm sz mt ds (min (i + n) (length ds)) (rv_fs rv)" "engine_clear dir nm (rv_engine rv)"
    using session_runs [where envs = envs and k = k and n = n and r = "if broken then [None] else []" and sent = sent, OF assms]
    by blast
  have "re_close (envs (Suc k + length (take n ps)))" using assms(4) by (simp add: recv_env_ok_def)
  then have "receive_loop bl C opts key dir envs (Suc k + length (take n ps)) (if broken then [None] else []) rv =
      (if broken then Some StreamErr else None, rv)" by simp
  then show ?thesis using rv by (intro exI [of _ rv]) (simp del: receive_loop.simps)
qed

text \<open>Two chunks for the witnesses, unencrypted.\<close>

abbreviation two_chunks :: "bytes list" where "two_chunks \<equiv> [''hi'', ''yo'']"

definition bare_packet :: "nat \<Rightarrow> bytes \<Rightarrow> packet" where
  "bare_packet i d = chunk_packet i (emit id 0 d) d"

lemma bare_carries: "d \<noteq> [] \<Longrightarrow> carries id demo_crypto [] (int i) d (bare_packet i d)"
  by (simp add: carries_def bare_packet_def chunk_packet_def plain_packet_def emit_def)

lemma bare_fields: "ro_Resume default_recv_opts" "in_int64 4" "in_int64 7" "in_int64 (int (length two_chunks))"
  "engine_clear ''out'' ''a.txt'' no_engine"
  "carry_all id demo_crypto [] (int 0) (drop 0 two_chunks) [bare_packet 0 ''hi'', bare_packet 1 ''yo'']"
  "carry_all id demo_crypto [] (int 1) (drop 1 two_chunks) [bare_packet 1 ''yo'']"
  using bare_carries [of "''hi''" 0] bare_carries [of "''yo''" 1]
  by (simp_all add: default_recv_opts_def in_int64_def int64_min_def int64_max_def engine_clear_def)

theorem cut_session_resumable_witness:
  "\<exists>rv. receive_loop id demo_crypto default_recv_opts [] ''out'' (\<lambda>_. demo_recv_env) 0
      [Some (start_packet ''docs/a.txt'' 4 7), Some (bare_packet 0 ''hi'')] (new_receiver no_engine no_files []) = (None, rv) \<and>
    on_disk ''out'' ''a.txt'' 4 7 two_chunks 1 (rv_fs rv)"
  using cut_session_resumable [where n = 1 and broken = False and k = 0 and sent = "[]" and envs = "\<lambda>_. demo_recv_env",
      OF demo_fresh demo_names(1,2) demo_recv_ok bare_fields(5,1,2,3,4,6)] by auto

text \<open>
  C17. A chunk that is written but not recorded is duplicated: if writing the side file fails after the
  chunk has been appended (and just so if the process dies in between), the next session resumes at
  the same chunk, appends it again and reports success with a file that is not the source.
\<close>

theorem unsaved_chunk_is_duplicated:
  assumes disk: "on_disk dir nm sz mt ds i fs" and i: "0 < i" "i < length ds" and nm: "plain_name nm" "path_base path = nm"
    and env: "recv_env_ok (keep_files dir nm) env" and res: "ro_Resume opts"
    and range: "in_int64 sz" "in_int64 mt" "in_int64 (int (length ds))"
    and p: "carries bl C key (int i) (ds ! i) p" and ps: "carry_all bl C key (int i) (drop i ds) ps"
  shows "\<exists>rv1 rv2. receive_loop bl C opts key dir (\<lambda>k. if k = 0 then env else env\<lparr>re_persist := NotWritten\<rparr>) 0
        [Some (start_packet path sz mt), Some p] (new_receiver (None :: 'm engine option) fs []) = (Some PersistStateErr, rv1) \<and>
    receive_loop bl C opts key dir (\<lambda>_. env) 0 (Some (start_packet path sz mt) # map Some ps @ [Some (plain_packet ''end'' [])])
        (new_receiver (None :: 'm engine option) (rv_fs rv1) []) = (None, rv2) \<and>
    rv_fs rv2 (path_join dir nm) = Some (concat (take (Suc i) ds) @ concat (drop i ds)) \<and>
    concat (take (Suc i) ds) @ concat (drop i ds) \<noteq> concat ds"
proof -
  let ?out = "path_join dir nm" and ?bad = "env\<lparr>re_persist := NotWritten\<rparr>"
  have new: "rv_fs (new_receiver (None :: 'm engine option) fs' []) = fs'" "rv_engine (new_receiver (None :: 'm engine option) fs' []) = None"
    for fs' by (simp_all add: new_receiver_def)
  obtain rv0 where rv0: "processPacket bl C opts key dir env (start_packet path sz mt) (new_receiver (None :: 'm engine option) fs []) = (Continue, rv0)"
    "receiving dir nm sz mt (concat (take i ds)) (int i) rv0" "saved_index dir nm sz mt (rv_fs rv0) = int i" "rv_engine rv0 = None"
    using process_start_at [where rv = "new_receiver (None :: 'm engine option) fs []" and i = i and bs = "concat (take i ds)" and bl = bl
        and C = C and key = key, OF _ _ nm env _ res, of sz mt] disk i(1)
    unfolding new on_disk_def file_bytes_def engine_clear_def by auto
  let ?rv1 = "rv0\<lparr>rv_fs := append_file ?out (ds ! i) (rv_fs rv0), rv_nextIndex := int i + 1\<rparr>"
  have "processPacket bl C opts key dir ?bad p rv0 = store_chunk bl opts ?bad ?out (ds ! i) rv0"
    using rv0(2) p by (simp add: processPacket_def process_chunk_def receiving_def carries_def)
  also have "\<dots> = (Failed PersistStateErr, ?rv1)"
    using env rv0(2,4) res by (simp add: store_chunk_def recv_env_ok_def receiving_def persistState_def engine_write_def)
  finally have bad: "processPacket bl C opts key dir ?bad p rv0 = (Failed PersistStateErr, ?rv1)" .
  have one: "concat (take i ds) @ ds ! i = concat (take (Suc i) ds)" using i(2) by (simp add: take_Suc_conv_app_nth)
  have disk1: "rv_fs ?rv1 ?out = Some (concat (take (Suc i) ds))"
    using rv0(2) one by (simp add: append_file_def file_bytes_def receiving_def)
  have side1: "saved_index dir nm sz mt (rv_fs ?rv1) = int i"
    using rv0(3) by (simp add: saved_index_def loadState_def append_file_def)
  obtain rv2 where rv2: "processPacket bl C opts key dir env (start_packet path sz mt)
      (new_receiver (None :: 'm engine option) (rv_fs ?rv1) []) = (Continue, rv2)"
    "receiving dir nm sz mt (concat (take (Suc i) ds)) (int i) rv2" "saved_index dir nm sz mt (rv_fs rv2) = int i"
    using process_start_at [where rv = "new_receiver (None :: 'm engine option) (rv_fs ?rv1) []" and i = i
        and bs = "concat (take (Suc i) ds)" and bl = bl and C = C and key = key, OF _ _ nm env _ res, of sz mt] side1 disk1 i(1)
    unfolding new by (auto simp: file_bytes_def engine_clear_def)
  have len: "int i + int (length (drop i ds)) = int (length ds)" using i(2) by simp
  have in64: "in_int64 (int i + int (length (drop i ds)))" using range(3) by (simp only: len)
  obtain rv3 where rv3: "receive_loop bl C opts key dir (\<lambda>_. env) 1 (map Some ps @ [Some (plain_packet ''end'' [])]) rv2 =
      receive_loop bl C opts key dir (\<lambda>_. env) (1 + length ps) [Some (plain_packet ''end'' [])] rv3"
    "receiving dir nm sz mt (concat (take (Suc i) ds) @ concat (drop i ds)) (int i + int (length (drop i ds))) rv3"
    using receive_chunks [where envs = "\<lambda>_. env" and opts = opts and k = 1 and r = "[Some (plain_packet ''end'' [])]",
        OF rv2(2) ps nm(1) env range(1,2) of_nat_0_le_iff in64] rv2(3) by blast
  obtain rv4 where rv4: "processPacket bl C opts key dir env (plain_packet ''end'' []) rv3 = (EndTransfer, rv4)"
    "rv_fs rv4 ?out = Some (concat (take (Suc i) ds) @ concat (drop i ds))"
    using process_end_ok [OF rv3(2) env, where p = "plain_packet ''end'' []" and opts = opts and bl = bl and C = C and key = key]
    by (auto simp: plain_packet_def)
  have "concat ds = concat (take i ds) @ concat (drop i ds)" by (metis append_take_drop_id concat_append)
  moreover have "ds ! i \<noteq> []" using p by (simp add: carries_def)
  ultimately have "concat (take (Suc i) ds) @ concat (drop i ds) \<noteq> concat ds" by (simp flip: one)
  moreover have "receive_loop bl C opts key dir (\<lambda>k. if k = 0 then env else ?bad) 0
      [Some (start_packet path sz mt), Some p] (new_receiver (None :: 'm engine option) fs []) = (Some PersistStateErr, ?rv1)"
    using rv0(1) bad by simp
  moreover have "receive_loop bl C opts key dir (\<lambda>_. env) 0 (Some (start_packet path sz mt) # map Some ps @ [Some (plain_packet ''end'' [])])
      (new_receiver (None :: 'm engine option) (rv_fs ?rv1) []) = (None, rv4)"
    using rv2(1) rv3(1) rv4(1) by simp
  ultimately show ?thesis using rv4(2) by blast
qed

theorem unsaved_chunk_is_duplicated_witness:
  "\<exists>fs rv1 rv2. receive_loop id demo_crypto default_recv_opts [] ''out''
        (\<lambda>k. if k = 0 then demo_recv_env else demo_recv_env\<lparr>re_persist := NotWritten\<rparr>) 0
        [Some (start_packet ''docs/a.txt'' 4 7), Some (bare_packet 1 ''yo'')] (new_receiver no_engine fs []) = (Some PersistStateErr, rv1) \<and>
    receive_loop id demo_crypto default_recv_opts [] ''out'' (\<lambda>_. demo_recv_env) 0
        [Some (start_packet ''docs/a.txt'' 4 7), Some (bare_packet 1 ''yo''), Some (plain_packet ''end'' [])]
        (new_receiver no_engine (rv_fs rv1) []) = (None, rv2) \<and>
    rv_fs rv2 (path_join ''out'' ''a.txt'') = Some ''hiyoyo''"
proof -
  obtain fs where disk: "on_disk ''out'' ''a.txt'' 4 7 two_chunks 1 fs"
  proof
    show "on_disk ''out'' ''a.txt'' 4 7 two_chunks 1
        ((no_files(path_join ''out'' ''a.txt'' := Some ''hi''))(resume_path (path_join ''out'' ''a.txt'') := Some (marshal resume_fields
          \<lparr>rz_FileName = ''a.txt'', rz_FileSize = 4, rz_FileMTime = 7, rz_NextIndex = 1\<rparr>)))"
      using bare_fields(2,3) saved_index_persist [of _ "''out''" "''a.txt''" 4 7 1]
      by (simp add: on_disk_def in_int64_def int64_min_def int64_max_def)
  qed
  have p: "carries id demo_crypto [] (int 1) (two_chunks ! 1) (bare_packet 1 ''yo'')" using bare_carries [of "''yo''" 1] by simp
  show ?thesis
    using unsaved_chunk_is_duplicated [OF disk zero_less_one _ demo_names(1,2) demo_recv_ok bare_fields(1,2,3,4) p bare_fields(7),
        where 'm = "(string, bytes) rbt \<times> nat"]
    by (simp del: receive_loop.simps) blast
qed




end
