(* ===== verification/Holepunch.thy ===== *)
theory Holepunch
  imports GoText
begin

text \<open>
  The TLS configurations of \<open>internal/network/transport.go\<close>, and \<open>internal/holepunch/puncher.go\<close>.
  \<open>crypto/ecdsa\<close> and \<open>crypto/x509\<close> are a record of functions (\<open>x509_lib\<close>); of the TLS handshake the theory states
  what its documentation says of the fields that the program sets (\<open>tls_accepts\<close>). Punching is a dial
  loop and a loop that sends datagrams; both end with the window.

  Lemmas: every connection that the program dials, direct or punched, is accepted by every listener it
  opens, and no certificate is checked on the way: who the peer is must come from the token handshake
  (\<open>Session\<close>). Punching succeeds exactly if one of the dials does, and sends nothing but probes to the peer.
\<close>

section \<open>TLS\<close>

definition quicProto :: string where "quicProto = ''vault-p2p/1''"

datatype key_usage = DigitalSignature | ServerAuth

record certificate =
  ce_SerialNumber :: int
  ce_CommonName :: string
  ce_NotBefore :: int
  ce_NotAfter :: int
  ce_KeyUsage :: "key_usage list"
  ce_ExtKeyUsage :: "key_usage list"

record x509_lib =
  xl_GenerateKey :: "bytes option"
  xl_Public :: "bytes \<Rightarrow> bytes"
  xl_CreateCertificate :: "certificate \<Rightarrow> certificate \<Rightarrow> bytes \<Rightarrow> bytes \<Rightarrow> bytes option"

record tls_config =
  tc_Certificates :: "(bytes list \<times> bytes) list"
  tc_InsecureSkipVerify :: bool
  tc_NextProtos :: "string list"

datatype tls_err = TLSKeyErr | TLSCertErr

text \<open>The times are nanoseconds; the clock is read once for each end of the validity.\<close>

definition cert_template :: "int \<Rightarrow> int \<Rightarrow> certificate" where
  "cert_template now1 now2 =
     \<lparr>ce_SerialNumber = 1, ce_CommonName = ''vault-p2p'', ce_NotBefore = now1 - 60 * 1000000000,
      ce_NotAfter = now2 + 10 * 365 * 24 * 3600 * 1000000000, ce_KeyUsage = [DigitalSignature], ce_ExtKeyUsage = [ServerAuth]\<rparr>"

definition serverTLSConfig :: "x509_lib \<Rightarrow> int \<Rightarrow> int \<Rightarrow> tls_err + tls_config" where
  "serverTLSConfig X now1 now2 = (case xl_GenerateKey X of
     None \<Rightarrow> Inl TLSKeyErr
   | Some key \<Rightarrow>
       (let template = cert_template now1 now2; pub = xl_Public X key in
        case xl_CreateCertificate X template template pub key of
          None \<Rightarrow> Inl TLSCertErr
        | Some certDER \<Rightarrow>
            Inr \<lparr>tc_Certificates = [([certDER], key)], tc_InsecureSkipVerify = False, tc_NextProtos = [quicProto]\<rparr>))"

definition clientTLSConfig :: tls_config where
  "clientTLSConfig = \<lparr>tc_Certificates = [], tc_InsecureSkipVerify = True, tc_NextProtos = [quicProto]\<rparr>"

text \<open>
  What \<open>crypto/tls\<close> documents: a server needs a certificate, both ends need a common protocol, and the client
  checks the chain (\<open>verified\<close>) unless \<open>InsecureSkipVerify\<close> is set.
\<close>

definition tls_accepts :: "(bytes list \<Rightarrow> bool) \<Rightarrow> tls_config \<Rightarrow> tls_config \<Rightarrow> bool" where
  "tls_accepts verified client server \<longleftrightarrow> tc_Certificates server \<noteq> [] \<and>
     set (tc_NextProtos client) \<inter> set (tc_NextProtos server) \<noteq> {} \<and>
     (tc_InsecureSkipVerify client \<or> verified (fst (hd (tc_Certificates server))))"

section \<open>Hole punching\<close>

definition probePayload :: bytes where "probePayload = ''vault-punch''"
definition punchWindow :: int where "punchWindow = 5 * 1000000000"
definition probeInterval :: int where "probeInterval = 100 * 1000000"

record puncher =
  pn_LocalAddr :: string
  pn_tlsConf :: tls_config

definition NewPuncher :: "string \<Rightarrow> tls_config option \<Rightarrow> puncher" where
  "NewPuncher localAddr tlsConf =
     \<lparr>pn_LocalAddr = localAddr,
      pn_tlsConf = (case tlsConf of
        None \<Rightarrow> \<lparr>tc_Certificates = [], tc_InsecureSkipVerify = True, tc_NextProtos = [''vault-p2p/1'']\<rparr>
      | Some c \<Rightarrow> c)\<rparr>"

datatype punch_err = RemoteAddrErr | LocalAddrErr | BindUDPErr | PunchFailed

text \<open>What a loop of the puncher receives: a tick of its ticker or the end of the context.\<close>

datatype signal = Tick | CtxDone

fun sendProbes :: "string \<Rightarrow> signal list \<Rightarrow> (string \<times> bytes) list" where
  "sendProbes remote [] = []"
| "sendProbes remote (CtxDone # later) = []"
| "sendProbes remote (Tick # later) = (remote, probePayload) # sendProbes remote later"

text \<open>\<open>dialLoop\<close>: the outcomes of the dials, one per tick, that fall into the window.\<close>

fun dialLoop :: "bool list \<Rightarrow> punch_err + unit" where
  "dialLoop [] = Inl PunchFailed"
| "dialLoop (dialled # later) = (if dialled then Inr () else dialLoop later)"

record punch_env =
  pu_remote :: bool
  pu_local :: bool
  pu_bind :: bool
  pu_dials :: "bool list"

definition Punch :: "punch_env \<Rightarrow> punch_err + unit" where
  "Punch env =
     (if \<not> pu_remote env then Inl RemoteAddrErr
      else if \<not> pu_local env then Inl LocalAddrErr
      else if \<not> pu_bind env then Inl BindUDPErr
      else dialLoop (pu_dials env))"

text \<open>The datagrams that leave the socket while \<open>Punch\<close> runs.\<close>

definition punch_datagrams :: "punch_env \<Rightarrow> string \<Rightarrow> signal list \<Rightarrow> (string \<times> bytes) list" where
  "punch_datagrams env remote sig =
     (if pu_remote env \<and> pu_local env \<and> pu_bind env then sendProbes remote sig else [])"

section \<open>Lemmas\<close>

lemma serverTLSConfig_Inr:
  "serverTLSConfig X now1 now2 = Inr c \<Longrightarrow> \<exists>cert key. c = \<lparr>tc_Certificates = [([cert], key)], tc_InsecureSkipVerify = False, tc_NextProtos = [quicProto]\<rparr>"
  by (auto simp: serverTLSConfig_def Let_def split: option.splits)

text \<open>Dialled and punched connections use the same configuration, and every listener accepts it unchecked.\<close>

lemma punched_like_direct: "pn_tlsConf (NewPuncher localAddr None) = clientTLSConfig"
  by (simp add: NewPuncher_def clientTLSConfig_def quicProto_def)

lemma listener_accepts: "serverTLSConfig X now1 now2 = Inr c \<Longrightarrow> tls_accepts verified clientTLSConfig c"
  by (auto simp: tls_accepts_def clientTLSConfig_def dest!: serverTLSConfig_Inr)

lemma certificate_valid: "now1 \<le> t \<Longrightarrow> t \<le> now2 + 315360000 * 1000000000 \<Longrightarrow>
    ce_NotBefore (cert_template now1 now2) \<le> t \<and> t \<le> ce_NotAfter (cert_template now1 now2)"
  by (simp add: cert_template_def)

lemma dialLoop_iff: "dialLoop ds = Inr () \<longleftrightarrow> True \<in> set ds"
  by (induction ds) auto

lemma Punch_iff: "Punch env = Inr () \<longleftrightarrow> pu_remote env \<and> pu_local env \<and> pu_bind env \<and> True \<in> set (pu_dials env)"
  by (simp add: Punch_def dialLoop_iff)

lemma sendProbes_takeWhile: "sendProbes remote sig = map (\<lambda>_. (remote, probePayload)) (takeWhile (\<lambda>x. x = Tick) sig)"
  by (induction remote sig rule: sendProbes.induct) auto

lemma only_probes: "set (punch_datagrams env remote sig) \<subseteq> {(remote, probePayload)}"
  by (auto simp: punch_datagrams_def sendProbes_takeWhile)

end
