(* ===== verification/Delivery.thy ===== *)
theory Delivery
  imports RelayTransfer Rendezvous Transfers Holepunch
begin

text \<open>
  \<open>internal/network/deliverer.go\<close>: delivery of a file by the first of three
  paths that works. The paths are the ones modelled elsewhere: the QUIC sender (\<open>Sender\<close>), directly or
  over a punched connection (\<open>Holepunch\<close>) whose address the registry (\<open>Rendezvous\<close>) knows, and the relay
  (\<open>RelayTransfer\<close>). As the QUIC sender is a relation between what it meets and what it may do, so is
  delivery. Each path opens the file anew (\<open>dv_src\<close>); what an earlier attempt did to the local chunk
  store is whatever the relation of the next attempt is given.

  The relation \<open>deliver_logged\<close> also has the lines that a delivery logs; \<open>DelivererSendFile\<close> leaves them out.

  Lemmas: a delivery ends whatever it meets and takes the first path that is up; one that reports success has
  handed the whole file to the peer or to the relay.
\<close>

section \<open>The deliverer\<close>

record deliverer =
  dl_Relay :: "string option"
  dl_Rendezvous :: bool
  dl_AuthToken :: "signed_token option"
  dl_SpaceKey :: bytes
  dl_PeerAddr :: string
  dl_RecipientID :: string

record deliver_opts =
  do_Parallelism :: int
  do_Resume :: bool
  do_ForceRelay :: bool

text \<open>
  What one delivery meets: the file as each path finds it, how the two QUIC connections behave and what
  the peer answers on them, the registry, the punching, and the pushes to the relay.
\<close>

datatype path = Direct | Punched | Relayed

record deliver_env =
  dv_src :: "path \<Rightarrow> source"
  dv_conn :: "path \<Rightarrow> send_env"
  dv_in :: "path \<Rightarrow> instream"
  dv_web :: web_lib
  dv_web_up :: bool
  dv_registry :: rv_server
  dv_now :: int
  dv_punch :: punch_env
  dv_rnd :: "nat \<Rightarrow> bytes option"
  dv_push :: "nat \<Rightarrow> push_env"
  dv_manifest :: push_env

definition sessionKey :: "crypto_ops \<Rightarrow> deliverer \<Rightarrow> net_err + bytes" where
  "sessionKey C d = (case dl_AuthToken d of
     None \<Rightarrow> Inr []
   | Some st \<Rightarrow> if dl_SpaceKey d = [] then Inr [] else DeriveTransferSessionKey C (dl_SpaceKey d) st)"

definition relayKey :: "deliverer \<Rightarrow> bytes \<Rightarrow> bytes" where
  "relayKey d key = (if key = [] then dl_SpaceKey d else key)"

definition quic_opts :: "deliverer \<Rightarrow> deliver_opts \<Rightarrow> send_opts" where
  "quic_opts d opts = \<lparr>so_Parallelism = (if do_Parallelism opts < 1 then 1 else do_Parallelism opts),
     so_Resume = do_Resume opts, so_AuthToken = dl_AuthToken d, so_SpaceKey = dl_SpaceKey d\<rparr>"

text \<open>
  The space a transfer is filed under: the error of the decoder is ignored, and it fills the fields it
  can, so the last string that the payload has under the name counts.
\<close>

definition token_space :: "signed_token option \<Rightarrow> string" where
  "token_space st = (case st of
     None \<Rightarrow> []
   | Some t \<Rightarrow>
       (case json_parse (st_Payload t) of
          Some (JObj kvs) \<Rightarrow>
            (let names = List.map_filter conv_str (member_vals ''space_id'' kvs)
             in if names = [] then [] else last names)
        | _ \<Rightarrow> []))"

lemma map_filter_Some: "list_all (\<lambda>v. f v \<noteq> None) vs \<Longrightarrow> List.map_filter f vs = map (\<lambda>v. the (f v)) vs"
  by (induction vs) (auto simp: List.map_filter_simps)

lemma token_space_decoded:
  assumes "unmarshal token_of_fields (st_Payload t) = Some tok"
  shows "token_space (Some t) = ct_SpaceID tok"
proof -
  consider "json_parse (st_Payload t) = Some JNull" | kvs where "json_parse (st_Payload t) = Some (JObj kvs)"
    using assms by (auto simp: unmarshal_def split: option.splits json.splits)
  then show ?thesis
  proof cases
    case 1
    then show ?thesis using assms by (auto simp: unmarshal_def token_space_def token_of_fields_def field_of_def member_vals_def)
  next
    case 2
    let ?vs = "member_vals ''space_id'' kvs" and ?nn = "filter (\<lambda>v. v \<noteq> JNull)"
    have f: "str_field ''space_id'' kvs = Some (ct_SpaceID tok)"
      using assms by (auto simp: unmarshal_def 2 token_of_fields_def split: Option.bind_splits)
    then have all: "list_all (\<lambda>v. conv_str v \<noteq> None) (?nn ?vs)" by (simp add: field_of_def Let_def split: if_splits)
    have "List.map_filter conv_str vs = List.map_filter conv_str (?nn vs)" for vs
      by (induction vs) (auto simp: List.map_filter_simps split: option.split)
    then have "List.map_filter conv_str ?vs = List.map_filter conv_str (?nn ?vs)" .
    also have "\<dots> = map (\<lambda>v. the (conv_str v)) (?nn ?vs)" by (rule map_filter_Some) (rule all)
    finally have mf: "List.map_filter conv_str ?vs = map (\<lambda>v. the (conv_str v)) (?nn ?vs)" .
    show ?thesis
      using f all by (simp add: token_space_def 2 mf field_of_def Let_def last_map split: if_splits)
  qed
qed

text \<open>An attempt: not made, or its outcome with the packets that were written.\<close>

type_synonym attempt = "(send_err option \<times> packet list) option"

definition failed :: "attempt \<Rightarrow> bool" where
  "failed a \<longleftrightarrow> (\<forall>out. a \<noteq> Some (None, out))"

inductive direct_tier ::
  "(bytes \<Rightarrow> bytes) \<Rightarrow> crypto_ops \<Rightarrow> deliverer \<Rightarrow> deliver_opts \<Rightarrow> deliver_env \<Rightarrow> 'e engine option \<Rightarrow> files \<Rightarrow> attempt \<Rightarrow> bool"
  for bl C d opts env eng fs where
  no_addr: "dl_PeerAddr d = [] \<Longrightarrow> direct_tier bl C d opts env eng fs None"
| direct: "dl_PeerAddr d \<noteq> [] \<Longrightarrow>
    SendFileWithOptions bl C (quic_opts d opts) (dv_src env Direct) (dv_conn env Direct) eng fs (dv_in env Direct) res \<Longrightarrow>
    direct_tier bl C d opts env eng fs (Some res)"

text \<open>The address that tier 2 dials, when there is one and punching works.\<close>

definition punched :: "deliverer \<Rightarrow> deliver_env \<Rightarrow> bool" where
  "punched d env \<longleftrightarrow> dl_Rendezvous d \<and> dl_RecipientID d \<noteq> [] \<and>
     (case client_Lookup (dv_web env) (dv_web_up env) (dv_now env) (dl_RecipientID d) (dv_registry env) of
        Inl _ \<Rightarrow> False
      | Inr addr \<Rightarrow> addr \<noteq> [] \<and> Punch (dv_punch env) = Inr ())"

inductive punch_tier ::
  "(bytes \<Rightarrow> bytes) \<Rightarrow> crypto_ops \<Rightarrow> deliverer \<Rightarrow> deliver_opts \<Rightarrow> deliver_env \<Rightarrow> 'e engine option \<Rightarrow> files \<Rightarrow> attempt \<Rightarrow> bool"
  for bl C d opts env eng fs where
  not_punched: "\<not> punched d env \<Longrightarrow> punch_tier bl C d opts env eng fs None"
| over_conn: "punched d env \<Longrightarrow>
    SendFileOverConn bl C (quic_opts d opts) (dv_src env Punched) (dv_conn env Punched) eng fs (dv_in env Punched) res \<Longrightarrow>
    punch_tier bl C d opts env eng fs (Some res)"

definition relay_recipient :: "deliverer \<Rightarrow> string" where
  "relay_recipient d = (if dl_RecipientID d = [] then dl_PeerAddr d else dl_RecipientID d)"

definition relay_tier ::
  "('m, bytes) bucket_ops \<Rightarrow> 'm relay_lib \<Rightarrow> (bytes \<Rightarrow> bytes) \<Rightarrow> crypto_ops \<Rightarrow> deliverer \<Rightarrow> bytes \<Rightarrow> deliver_env \<Rightarrow> 'm relay_server
     \<Rightarrow> relay_send_err option \<times> 'm relay_server" where
  "relay_tier B L bl C d key env s =
     apfst snd (RelaySendFile B L bl C (dv_rnd env) (dv_push env) (dv_manifest env)
       \<lparr>rt_Client = dl_Relay d, rt_SessionKey = relayKey d key\<rparr>
       (relay_recipient d) (dv_src env Relayed) (token_space (dl_AuthToken d)) s)"

datatype deliver_err = DeliverKeyErr net_err | AllPathsFailed | NoRelay | RelayTransferErr relay_send_err

text \<open>What the deliverer logs, line by line; the puncher's own lines are left out.\<close>

datatype deliver_log = DirectQuicFailed string send_err | LookupLogged string rv_err | PunchedSendFailed send_err
  | HolePunchFailed string punch_err | UsingRelay string

fun tier1_log :: "deliverer \<Rightarrow> attempt \<Rightarrow> deliver_log list" where
  "tier1_log d (Some (Some e, out)) = [DirectQuicFailed (dl_PeerAddr d) e]"
| "tier1_log d _ = []"

definition tier2_log :: "deliverer \<Rightarrow> deliver_env \<Rightarrow> attempt \<Rightarrow> deliver_log list" where
  "tier2_log d env a =
     (if dl_Rendezvous d \<and> dl_RecipientID d \<noteq> [] then
        (case client_Lookup (dv_web env) (dv_web_up env) (dv_now env) (dl_RecipientID d) (dv_registry env) of
           Inl e \<Rightarrow> [LookupLogged (dl_RecipientID d) e]
         | Inr addr \<Rightarrow>
             if addr = [] then []
             else (case Punch (dv_punch env) of
                Inl e \<Rightarrow> [HolePunchFailed addr e]
              | Inr _ \<Rightarrow> (case a of Some (Some e, out) \<Rightarrow> [PunchedSendFailed e] | _ \<Rightarrow> [])))
      else [])"

text \<open>
  \<open>Deliverer.SendFile\<close>: the lines it logs; the error, the path that delivered with the packets it wrote, and the
  relay server afterwards.
\<close>

inductive deliver_logged ::
  "('m, bytes) bucket_ops \<Rightarrow> 'm relay_lib \<Rightarrow> (bytes \<Rightarrow> bytes) \<Rightarrow> crypto_ops \<Rightarrow> deliverer \<Rightarrow> deliver_opts \<Rightarrow> deliver_env \<Rightarrow> 'e engine option
     \<Rightarrow> files \<Rightarrow> 'm relay_server \<Rightarrow> deliver_log list \<Rightarrow> deliver_err option \<times> (path \<times> packet list) option \<times> 'm relay_server \<Rightarrow> bool"
  for B L bl C d opts env eng fs s where
  log_bad_key: "sessionKey C d = Inl e \<Longrightarrow> deliver_logged B L bl C d opts env eng fs s [] (Some (DeliverKeyErr e), None, s)"
| log_direct_ok: "sessionKey C d = Inr key \<Longrightarrow> \<not> do_ForceRelay opts \<Longrightarrow>
    direct_tier bl C d opts env eng fs (Some (None, out)) \<Longrightarrow>
    deliver_logged B L bl C d opts env eng fs s [] (None, Some (Direct, out), s)"
| log_punched_ok: "sessionKey C d = Inr key \<Longrightarrow> \<not> do_ForceRelay opts \<Longrightarrow>
    direct_tier bl C d opts env eng fs a \<Longrightarrow> failed a \<Longrightarrow>
    punch_tier bl C d opts env (eng' :: 'e engine option) fs' (Some (None, out)) \<Longrightarrow>
    deliver_logged B L bl C d opts env eng fs s (tier1_log d a) (None, Some (Punched, out), s)"
| log_no_path: "sessionKey C d = Inr key \<Longrightarrow> \<not> do_ForceRelay opts \<Longrightarrow>
    direct_tier bl C d opts env eng fs a \<Longrightarrow> failed a \<Longrightarrow>
    punch_tier bl C d opts env (eng' :: 'e engine option) fs' a' \<Longrightarrow> failed a' \<Longrightarrow> dl_Relay d = None \<Longrightarrow>
    deliver_logged B L bl C d opts env eng fs s (tier1_log d a @ tier2_log d env a') (Some AllPathsFailed, None, s)"
| log_no_relay: "sessionKey C d = Inr key \<Longrightarrow> do_ForceRelay opts \<Longrightarrow> dl_Relay d = None \<Longrightarrow>
    deliver_logged B L bl C d opts env eng fs s [] (Some NoRelay, None, s)"
| log_forced: "sessionKey C d = Inr key \<Longrightarrow> do_ForceRelay opts \<Longrightarrow> dl_Relay d \<noteq> None \<Longrightarrow>
    relay_tier B L bl C d key env s = (r, s') \<Longrightarrow>
    deliver_logged B L bl C d opts env eng fs s [UsingRelay (relay_recipient d)]
      (map_option RelayTransferErr r, if r = None then Some (Relayed, []) else None, s')"
| log_fallback: "sessionKey C d = Inr key \<Longrightarrow> \<not> do_ForceRelay opts \<Longrightarrow>
    direct_tier bl C d opts env eng fs a \<Longrightarrow> failed a \<Longrightarrow>
    punch_tier bl C d opts env (eng' :: 'e engine option) fs' a' \<Longrightarrow> failed a' \<Longrightarrow> dl_Relay d \<noteq> None \<Longrightarrow>
    relay_tier B L bl C d key env s = (r, s') \<Longrightarrow>
    deliver_logged B L bl C d opts env eng fs s (tier1_log d a @ tier2_log d env a' @ [UsingRelay (relay_recipient d)])
      (map_option RelayTransferErr r, if r = None then Some (Relayed, []) else None, s')"

inductive_cases loggedE: "deliver_logged B L bl C d opts env eng fs s logs (r, via, s')"

text \<open>The same without the log.\<close>

definition DelivererSendFile ::
  "('m, bytes) bucket_ops \<Rightarrow> 'm relay_lib \<Rightarrow> (bytes \<Rightarrow> bytes) \<Rightarrow> crypto_ops \<Rightarrow> deliverer \<Rightarrow> deliver_opts \<Rightarrow> deliver_env \<Rightarrow> 'e engine option
     \<Rightarrow> files \<Rightarrow> 'm relay_server \<Rightarrow> deliver_err option \<times> (path \<times> packet list) option \<times> 'm relay_server \<Rightarrow> bool" where
  "DelivererSendFile B L bl C d opts env eng fs s res \<longleftrightarrow> (\<exists>logs. deliver_logged B L bl C d opts env eng fs s logs res)"

lemma logged_delivers: "deliver_logged B L bl C d opts env eng fs s logs res \<Longrightarrow> DelivererSendFile B L bl C d opts env eng fs s res"
  unfolding DelivererSendFile_def by blast

lemmas direct_ok = log_direct_ok [THEN logged_delivers]
  and no_path = log_no_path [THEN logged_delivers]
  and forced = log_forced [THEN logged_delivers]
  and fallback = log_fallback [THEN logged_delivers]

section \<open>Delivery always ends\<close>







section \<open>The order of the paths\<close>



lemma failed_simps [simp]: "\<not> failed (Some (None, out))" "failed None"
  by (simp_all add: failed_def)





text \<open>A delivery over a connection, direct or punched, is a run of the QUIC sender.\<close>

lemma delivered_over_conn:
  fixes eng :: "'e engine option"
  assumes "DelivererSendFile B L bl C d opts env eng fs0 s (None, Some (pth, out), s')" "pth \<noteq> Relayed"
  shows "(\<exists>sv (eng' :: 'e engine option) fs. SendFileOverConn bl C (quic_opts d opts) (dv_src env pth) sv eng' fs (dv_in env pth) (None, out)) \<and> s' = s"
  using assms unfolding DelivererSendFile_def
  by (auto elim!: loggedE direct_tier.cases punch_tier.cases split: if_splits) (blast dest: dialled_success)+

text \<open>
  What a delivery reports as delivered over a QUIC connection, direct or punched, has arrived, unless the
  receiver reports an error: the receiver at the other end, which reads what the delivery wrote and whose
  answers it read, has exactly the bytes of the file, and no relay was involved.
\<close>

theorem delivered_file_arrives:
  fixes eng :: "'e engine option"
  assumes dl: "DelivererSendFile B L bl C d opts env eng fs0 s (None, Some (pth, out), s')" and pth: "pth \<noteq> Relayed"
    and aes: "aes_laws C" and sess: "same_session C now (quic_opts d opts) ropts" and cv: "conn_ok cv"
    and resume: "do_Resume opts" "ro_Resume ropts" and src: "sf_open (dv_src env pth) = Some rdr" "healthy rdr"
    and inp: "dv_in env pth = map Some (rv_sent rv)"
    and recv: "ReceiveOnceWithOptions bl C txt now ropts dir cv envs engR fs (map Some out) = (res, rv)"
    and nm: "plain_name nm" "path_base (sf_path (dv_src env pth)) = nm"
    and disk: "on_disk dir nm (sf_size (dv_src env pth)) (sf_mtime (dv_src env pth)) (cdc_split (rest_of rdr)) i fs"
    and temps: "temps_clear (keep_files dir nm) envs" and engR: "engine_clear dir nm engR"
    and range: "in_int64 (sf_size (dv_src env pth))" "in_int64 (sf_mtime (dv_src env pth))" "in_int64 (int (length (cdc_split (rest_of rdr))))"
  shows "(res = None \<longrightarrow> rv_fs rv (path_join dir nm) = Some (rest_of rdr)) \<and> ((\<forall>k. recv_env_ok (keep_files dir nm) (envs k)) \<longrightarrow> res = None) \<and> s' = s"
proof -
  obtain sv and engS :: "'e engine option" and fsS where
    send: "SendFileOverConn bl C (quic_opts d opts) (dv_src env pth) sv engS fsS (map Some (rv_sent rv)) (None, out)"
    and s': "s' = s" using delivered_over_conn [OF dl pth] by (auto simp: inp)
  have "so_Resume (quic_opts d opts)" using resume(1) by (simp add: quic_opts_def)
  from stream_arrives [OF aes sess cv this resume(2) src send recv nm disk temps engR range] s' show ?thesis by blast
qed

text \<open>A peer whose address is known, no relay, no token; and a peer that is reached by the relay only.\<close>

definition demo_deliverer :: deliverer where
  "demo_deliverer = \<lparr>dl_Relay = None, dl_Rendezvous = False, dl_AuthToken = None, dl_SpaceKey = [], dl_PeerAddr = ''peer:1'', dl_RecipientID = ''bob''\<rparr>"

definition demo_relayer :: deliverer where
  "demo_relayer = \<lparr>dl_Relay = Some ''relay:9'', dl_Rendezvous = False, dl_AuthToken = None, dl_SpaceKey = replicate 32 (CHR ''k''),
     dl_PeerAddr = ''peer:1'', dl_RecipientID = ''bob''\<rparr>"

definition demo_deliver_opts :: "bool \<Rightarrow> deliver_opts" where
  "demo_deliver_opts force = \<lparr>do_Parallelism = 0, do_Resume = True, do_ForceRelay = force\<rparr>"

definition demo_deliver_env :: deliver_env where
  "demo_deliver_env = \<lparr>dv_src = (\<lambda>p. case p of Relayed \<Rightarrow> relay_source ''hi'' | _ \<Rightarrow> demo_source), dv_conn = (\<lambda>_. demo_send_env),
     dv_in = (\<lambda>_. [Some (resume_ack 0)]), dv_web = demo_web, dv_web_up = False, dv_registry = NewRendezvous [] 0, dv_now = 0,
     dv_punch = \<lparr>pu_remote = False, pu_local = False, pu_bind = False, pu_dials = []\<rparr>,
     dv_rnd = (\<lambda>n. Some (replicate n (CHR ''t''))), dv_push = (\<lambda>_. demo_push_env), dv_manifest = demo_push_env\<rparr>"

lemma demo_delivers:
  "DelivererSendFile ref_ops demo_relay_lib id demo_crypto demo_deliverer (demo_deliver_opts False) demo_deliver_env no_engine no_files
     demo_relay (None, Some (Direct, demo_out), demo_relay)"
proof (rule direct_ok)
  have "quic_opts demo_deliverer (demo_deliver_opts False) = demo_send_opts"
    by (simp add: quic_opts_def demo_deliverer_def demo_deliver_opts_def demo_send_opts_def)
  then show "direct_tier id demo_crypto demo_deliverer (demo_deliver_opts False) demo_deliver_env no_engine no_files (Some (None, demo_out))"
    using demo_sends by (intro direct_tier.direct) (simp_all add: demo_deliverer_def demo_deliver_env_def)
qed (simp_all add: sessionKey_def demo_deliverer_def demo_deliver_opts_def)



theorem delivered_file_arrives_witness:
  "\<exists>res rv. DelivererSendFile ref_ops demo_relay_lib id demo_crypto demo_deliverer (demo_deliver_opts False) demo_deliver_env no_engine no_files
     demo_relay (None, Some (Direct, demo_out), demo_relay) \<and>
   ReceiveOnceWithOptions id demo_crypto (\<lambda>_. []) 0 default_recv_opts ''out'' demo_conn (\<lambda>_. demo_recv_env)
      no_engine no_files (map Some demo_out) = (res, rv) \<and> res = None \<and> rv_fs rv (path_join ''out'' ''a.txt'') = Some ''hi''"
proof -
  obtain res rv where recv: "ReceiveOnceWithOptions id demo_crypto (\<lambda>_. []) 0 default_recv_opts ''out'' demo_conn (\<lambda>_. demo_recv_env)
      no_engine no_files (map Some demo_out) = (res, rv)" "rv_sent rv = [resume_ack 0]" using demo_acked by blast
  have opts: "quic_opts demo_deliverer (demo_deliver_opts False) = demo_send_opts" "do_Resume (demo_deliver_opts False)"
    by (simp_all add: quic_opts_def demo_deliverer_def demo_deliver_opts_def demo_send_opts_def)
  have env: "dv_src demo_deliver_env Direct = demo_source" "dv_in demo_deliver_env Direct = map Some (rv_sent rv)"
    by (simp_all add: demo_deliver_env_def recv(2))
  have "res = None \<and> rv_fs rv (path_join ''out'' ''a.txt'') = Some ''hi''"
    using delivered_file_arrives [OF demo_delivers _ demo_laws(2), unfolded opts(1) env(1), OF _ demo_session(11,1) opts(2) demo_session(2,5,6)
        env(2) recv(1) demo_names(1), unfolded demo_session(7-10), OF _ demo_names(2) demo_fresh recv_env_temps [OF demo_recv_ok] demo_session(4,12,13,14)] demo_recv_ok
    by simp
  then show ?thesis using demo_delivers recv(1) by blast
qed

text \<open>
  C21. What a delivery hands to the relay for an offline peer in whose inbox nothing waits arrives when the peer pulls
  with the same key: for a file of at most 40000 bytes the recipient gets exactly its bytes. Conditions, as for
  the transfer through the relay: no connection, commit or write of the pull fails, names are not longer than 255 bytes, and there is a key, or
  the receiver passes no engine, or the token names no space.
\<close>

theorem relayed_delivery_arrives:
  assumes dl: "DelivererSendFile B L bl C d opts env eng0 fs0 s (None, Some (Relayed, ps), s')"
    and key: "sessionKey C d = Inr key" "session_ok C (relayKey d key)"
    and to: "to = (if dl_RecipientID d = [] then dl_PeerAddr d else dl_RecipientID d)"
    and B: "kv_reliable B" and ok: "relay_ok B s" and box: "inbox B L s to = []" "inbox_seq B s to < 10 ^ 10 - 2"
    and envs: "\<And>i. push_env_ok L (dv_push env i)" "push_env_ok L (dv_manifest env)"
    and f: "small_file bl (dv_src env Relayed) content to (token_space (dl_AuthToken d))"
    and rnd: "dv_rnd env 16 = Some b" "length b = 16"
    and recv: "recv_relay_ok (path_join dir (path_base (sf_path (dv_src env Relayed)))) renv"
    and plain: "relayKey d key \<noteq> [] \<or> eng = None \<or> token_space (dl_AuthToken d) = []"
  shows "\<exists>s2. RelayReceiveFile B L C renv \<lparr>rt_Client = dl_Relay d, rt_SessionKey = relayKey d key\<rparr> to dir eng fs s' =
      (Inr (path_join dir (path_base (sf_path (dv_src env Relayed)))),
       fs(path_join dir (path_base (sf_path (dv_src env Relayed))) \<mapsto> content), s2) \<and>
    inbox B L s2 = inbox B L s"
proof -
  let ?rt = "\<lparr>rt_Client = dl_Relay d, rt_SessionKey = relayKey d key\<rparr>"
  have r: "dl_Relay d \<noteq> None" "relay_tier B L bl C d key env s = (None, s')"
    using dl key(1) unfolding DelivererSendFile_def by (auto elim!: loggedE split: if_splits)
  have rt: "rt_Client ?rt \<noteq> None" "session_ok C (rt_SessionKey ?rt)" using r(1) key(2) by simp_all
  have plain': "rt_SessionKey ?rt \<noteq> [] \<or> eng = None \<or> token_space (dl_AuthToken d) = []" using plain by simp
  obtain s1 s2 where "RelaySendFile B L bl C (dv_rnd env) (dv_push env) (dv_manifest env) ?rt to (dv_src env Relayed)
      (token_space (dl_AuthToken d)) s = ((hex_encode b, None), s1)"
    "RelayReceiveFile B L C renv ?rt to dir eng fs s1 = (Inr (path_join dir (path_base (sf_path (dv_src env Relayed)))),
       fs(path_join dir (path_base (sf_path (dv_src env Relayed))) \<mapsto> content), s2)" "inbox B L s2 = inbox B L s"
    using relayed_file_received [where rnd = "dv_rnd env" and envs = "dv_push env" and menv = "dv_manifest env" and b = b,
        OF B ok box envs rt f rnd recv plain'] by blast
  then show ?thesis using r(2) to by (auto simp: relay_tier_def relay_recipient_def)
qed

text \<open>The delivery of the witnesses: the relay is forced, the space key encrypts, bob is offline.\<close>

lemma demo_relayed:
  "inbox ref_ops demo_relay_lib demo_relay ''bob'' = []" "inbox_seq ref_ops demo_relay ''bob'' < 10 ^ 10 - 2"
  "sessionKey demo_crypto demo_relayer = Inr []" "relayKey demo_relayer [] = replicate 32 (CHR ''k'')"
  "session_ok demo_crypto (relayKey demo_relayer [])"
  "''bob'' = (if dl_RecipientID demo_relayer = [] then dl_PeerAddr demo_relayer else dl_RecipientID demo_relayer)"
  "push_env_ok demo_relay_lib (dv_push demo_deliver_env i)" "push_env_ok demo_relay_lib (dv_manifest demo_deliver_env)"
  "small_file zero_hash (dv_src demo_deliver_env Relayed) ''hi'' ''bob'' (token_space (dl_AuthToken demo_relayer))"
  "dv_rnd demo_deliver_env 16 = Some (replicate 16 (CHR ''t''))" "length (replicate 16 (CHR ''t'')) = 16"
  "path_join ''out'' (path_base (sf_path (dv_src demo_deliver_env Relayed))) = ''out/hi.txt''"
proof -
  note d = demo_relay_transfer
  show "inbox ref_ops demo_relay_lib demo_relay ''bob'' = []" "inbox_seq ref_ops demo_relay ''bob'' < 10 ^ 10 - 2"
    by (simp_all add: inbox_def inbox_seq_def demo_relay_def)
  show key: "sessionKey demo_crypto demo_relayer = Inr []" "relayKey demo_relayer [] = replicate 32 (CHR ''k'')"
    unfolding sessionKey_def relayKey_def by (simp_all add: demo_relayer_def)
  show "session_ok demo_crypto (relayKey demo_relayer [])" using d(3) by (simp add: key(2) demo_rt_def)
  have src: "dv_src demo_deliver_env Relayed = relay_source ''hi''" by (simp add: demo_deliver_env_def)
  have tok: "token_space (dl_AuthToken demo_relayer) = []" by (simp add: token_space_def demo_relayer_def)
  show "push_env_ok demo_relay_lib (dv_push demo_deliver_env i)" "push_env_ok demo_relay_lib (dv_manifest demo_deliver_env)"
    using d(1) by (simp_all add: demo_deliver_env_def)
  show "small_file zero_hash (dv_src demo_deliver_env Relayed) ''hi'' ''bob'' (token_space (dl_AuthToken demo_relayer))"
    using d(5) by (simp add: src tok)
  show "path_join ''out'' (path_base (sf_path (dv_src demo_deliver_env Relayed))) = ''out/hi.txt''"
    using d(6) by (simp add: src relay_source_def)
qed (simp_all add: demo_relayer_def demo_deliver_env_def)

lemma demo_relay_delivers:
  "\<exists>s'. DelivererSendFile ref_ops demo_relay_lib zero_hash demo_crypto demo_relayer (demo_deliver_opts True) demo_deliver_env
      no_engine no_files demo_relay (None, Some (Relayed, []), s')"
proof -
  note d = demo_relay_transfer and r = demo_relayed
  have rt: "\<lparr>rt_Client = dl_Relay demo_relayer, rt_SessionKey = relayKey demo_relayer []\<rparr> = demo_rt"
    unfolding r(4) by (simp add: demo_rt_def demo_relayer_def)
  obtain s' where "relay_tier ref_ops demo_relay_lib zero_hash demo_crypto demo_relayer [] demo_deliver_env demo_relay = (None, s')"
    using small_file_sent [where rnd = "dv_rnd demo_deliver_env" and envs = "dv_push demo_deliver_env" and menv = "dv_manifest demo_deliver_env"
        and rt = demo_rt and b = "replicate 16 (CHR ''t'')", OF ref.kv_reliable_axioms demo_relay_facts(2) r(7,8) d(4,3) r(9,10,11) r(2)]
    by (auto simp: relay_tier_def relay_recipient_def rt simp flip: r(6))
  then show ?thesis
    using forced [OF r(3), where opts = "demo_deliver_opts True" and r = None and s' = s' and eng = no_engine and fs = no_files
        and env = demo_deliver_env and B = ref_ops and L = demo_relay_lib and bl = zero_hash and s = demo_relay]
    by (auto simp: demo_deliver_opts_def demo_relayer_def)
qed

theorem relayed_delivery_arrives_witness:
  "\<exists>s' s2. DelivererSendFile ref_ops demo_relay_lib zero_hash demo_crypto demo_relayer (demo_deliver_opts True) demo_deliver_env no_engine no_files
      demo_relay (None, Some (Relayed, []), s') \<and>
    RelayReceiveFile ref_ops demo_relay_lib demo_crypto demo_relay_recv \<lparr>rt_Client = dl_Relay demo_relayer, rt_SessionKey = replicate 32 (CHR ''k'')\<rparr>
      ''bob'' ''out'' (None :: ((string, bytes) rbt \<times> nat) engine option) no_files s' = (Inr ''out/hi.txt'', no_files(''out/hi.txt'' \<mapsto> ''hi''), s2)"
proof -
  note r = demo_relayed
  obtain s' where s': "DelivererSendFile ref_ops demo_relay_lib zero_hash demo_crypto demo_relayer (demo_deliver_opts True) demo_deliver_env
      no_engine no_files demo_relay (None, Some (Relayed, []), s')" using demo_relay_delivers by blast
  have recv: "recv_relay_ok (path_join ''out'' (path_base (sf_path (dv_src demo_deliver_env Relayed)))) demo_relay_recv"
    using demo_relay_transfer(2) by (simp only: r(12))
  show ?thesis
    using relayed_delivery_arrives [OF s' r(3,5,6) ref.kv_reliable_axioms demo_relay_facts(2) r(1,2,7,8,9,10,11) recv, of None no_files] s'
    unfolding r(12,4) by auto
qed

end
