(* ===== verification/Discovery.thy ===== *)
theory Discovery
  imports Coordinator
begin

text \<open>
  \<open>internal/network/discovery.go\<close>: what the mDNS browser of a node does with an announcement, and the
  run of the coordinator inside a node, which learns that a peer is online from the browser alone.
  \<open>net.IP\<close> is the list of its 4 or 16 bytes with Go's text form; the answer of \<open>net.LookupHost\<close> is a
  parameter. Registering and browsing are the library's: what the program asks of it is \<open>StartmDNS\<close> and
  \<open>BrowsePeers\<close>, and a step of the run is one announcement.

  Lemmas: a node delivers to the peers that were announced under exactly the name their entries were
  queued for, and to nobody else.
\<close>

section \<open>Addresses\<close>

definition To4 :: "bytes \<Rightarrow> bytes option" where
  "To4 ip =
     (if length ip = 4 then Some ip
      else if length ip = 16 \<and> take 12 ip = replicate 10 (CHR 0x00) @ [CHR 0xFF, CHR 0xFF] then Some (drop 12 ip)
      else None)"

definition IsLoopback :: "bytes \<Rightarrow> bool" where
  "IsLoopback ip = (case To4 ip of
     Some b \<Rightarrow> hd b = CHR 0x7F
   | None \<Rightarrow> ip = replicate 15 (CHR 0x00) @ [CHR 0x01])"

fun join_with :: "string \<Rightarrow> string list \<Rightarrow> string" where
  "join_with sep [] = []"
| "join_with sep [s] = s"
| "join_with sep (s # ss) = s @ sep @ join_with sep ss"

fun words16 :: "bytes \<Rightarrow> nat list" where
  "words16 (a # b # r) = (byte_val a * 256 + byte_val b) # words16 r"
| "words16 _ = []"

fun hex_nat :: "nat \<Rightarrow> string" where
  "hex_nat n = (if n < 16 then [] else hex_nat (n div 16)) @ [hex_digit (n mod 16)]"

declare hex_nat.simps [simp del]

text \<open>The first of the longest runs of at least two zero groups is written as two colons.\<close>

definition zero_run :: "nat list \<Rightarrow> nat \<Rightarrow> nat" where
  "zero_run gs i = length (takeWhile (\<lambda>g. g = 0) (drop i gs))"

fun best_run :: "nat list \<Rightarrow> nat list \<Rightarrow> nat \<times> nat \<Rightarrow> nat \<times> nat" where
  "best_run gs [] best = best"
| "best_run gs (i # is) best =
     best_run gs is (if 2 \<le> zero_run gs i \<and> snd best < zero_run gs i then (i, zero_run gs i) else best)"

definition ip6_text :: "bytes \<Rightarrow> string" where
  "ip6_text ip =
     (let gs = words16 ip; (start, n) = best_run gs [0..<8] (0, 0); text = (\<lambda>ws. join_with '':'' (map hex_nat ws))
      in if n = 0 then text gs else text (take start gs) @ ''::'' @ text (drop (start + n) gs))"

definition ip_String :: "bytes \<Rightarrow> string" where
  "ip_String ip =
     (if ip = [] then ''<nil>''
      else case To4 ip of
        Some b \<Rightarrow> join_with ''.'' (map (\<lambda>c. dec_digits (byte_val c)) b)
      | None \<Rightarrow> if length ip = 16 then ip6_text ip else CHR ''?'' # hex_encode ip)"

record service_entry =
  se_Instance :: string
  se_HostName :: string
  se_Port :: int
  se_AddrIPv4 :: "bytes list"
  se_AddrIPv6 :: "bytes list"

definition resolveAddr :: "(string \<Rightarrow> string list option) \<Rightarrow> service_entry \<Rightarrow> string" where
  "resolveAddr lookup entry =
     (let port = CHR '':'' # fmt_int (se_Port entry) in
      case find (\<lambda>ip. \<not> IsLoopback ip) (se_AddrIPv4 entry) of
        Some ip \<Rightarrow> ip_String ip @ port
      | None \<Rightarrow>
          (case se_AddrIPv4 entry of
             ip # _ \<Rightarrow> ip_String ip @ port
           | [] \<Rightarrow>
               (case se_AddrIPv6 entry of
                  ip # _ \<Rightarrow> CHR ''['' # ip_String ip @ '']'' @ port
                | [] \<Rightarrow>
                    if se_HostName entry = [] then []
                    else (case lookup (se_HostName entry) of Some (a # _) \<Rightarrow> a @ port | _ \<Rightarrow> []))))"

section \<open>The browser and the coordinator\<close>

text \<open>
  \<open>MarkOnline\<close> starts a drain of the peer. The addresses are a Go map; \<open>ds_found\<close> is the history of
  the names under which peers were announced.
\<close>

definition MarkOnline :: "string \<Rightarrow> 's cstate \<Rightarrow> 's cstate" where
  "MarkOnline peerID c = c\<lparr>cs_online := (cs_online c)(peerID \<mapsto> True), cs_threads := cs_threads c @ [FetchPeer peerID]\<rparr>"

record 's discovery =
  ds_addrs :: "(string \<times> string) list"
  ds_coord :: "'s cstate"
  ds_found :: "string list"

definition NewDiscovery :: "'s cstate \<Rightarrow> 's discovery" where
  "NewDiscovery c = \<lparr>ds_addrs = [], ds_coord = c, ds_found = []\<rparr>"

definition PeerAddr :: "'s discovery \<Rightarrow> string \<Rightarrow> string" where
  "PeerAddr d peerID = (case map_of (ds_addrs d) peerID of None \<Rightarrow> [] | Some a \<Rightarrow> a)"

definition browse_entry :: "(string \<Rightarrow> string list option) \<Rightarrow> service_entry \<Rightarrow> 's discovery \<Rightarrow> 's discovery" where
  "browse_entry lookup entry d =
     (let peerID = se_Instance entry; addr = resolveAddr lookup entry in
      if addr = [] then d
      else \<lparr>ds_addrs = AList.update peerID addr (ds_addrs d), ds_coord = MarkOnline peerID (ds_coord d),
            ds_found = ds_found d @ [peerID]\<rparr>)"

text \<open>
  What a node registers, and what it browses for; \<open>register\<close> is whether \<open>zeroconf.Register\<close> takes a registration,
  \<open>resolver\<close> and \<open>browsing\<close> whether \<open>NewResolver\<close> and \<open>Browse\<close> succeed.
\<close>

record mdns_registration =
  mr_instance :: string
  mr_service :: string
  mr_domain :: string
  mr_port :: int
  mr_text :: "string list"

datatype mdns_err = MdnsRegisterErr | MdnsResolverErr | MdnsBrowseErr

definition StartmDNS :: "(mdns_registration \<Rightarrow> bool) \<Rightarrow> string \<Rightarrow> int \<Rightarrow> mdns_err + mdns_registration" where
  "StartmDNS register inst port =
     (let r = \<lparr>mr_instance = inst, mr_service = ''_vault._udp'', mr_domain = ''local.'', mr_port = port, mr_text = [''txtv=1'']\<rparr>
      in if register r then Inr r else Inl MdnsRegisterErr)"

definition BrowsePeers :: "bool \<Rightarrow> (string \<Rightarrow> string \<Rightarrow> bool) \<Rightarrow> mdns_err option" where
  "BrowsePeers resolver browsing =
     (if \<not> resolver then Some MdnsResolverErr
      else if \<not> browsing ''_vault._udp'' ''local.'' then Some MdnsBrowseErr
      else None)"

text \<open>
  The goroutine of a node around them: what it does to its own announcement, and the error it reports.
  \<open>Browse\<close> of the library starts the browsing and returns; the deferred \<open>Shutdown\<close> then withdraws the
  announcement, while the goroutine of \<open>BrowsePeers\<close> goes on receiving.
\<close>

datatype mdns_action = Announces mdns_registration | Withdraws mdns_registration

definition mdns_worker ::
  "(mdns_registration \<Rightarrow> bool) \<Rightarrow> bool \<Rightarrow> (string \<Rightarrow> string \<Rightarrow> bool) \<Rightarrow> bool \<Rightarrow> string \<Rightarrow> int \<Rightarrow> mdns_action list \<times> mdns_err option" where
  "mdns_worker register resolver browsing cancelled inst port = (case StartmDNS register inst port of
     Inl e \<Rightarrow> ([], Some e)
   | Inr r \<Rightarrow> ([Announces r, Withdraws r], if cancelled then None else BrowsePeers resolver browsing))"

lemma registered_is_browsed:
  "StartmDNS register inst port = Inr r \<Longrightarrow> BrowsePeers True (\<lambda>s d. s = mr_service r \<and> d = mr_domain r) = None"
  by (auto simp: StartmDNS_def BrowsePeers_def Let_def split: if_splits)

lemma announcement_withdrawn: "mdns_worker register resolver browsing cancelled inst port = (acts, e) \<Longrightarrow>
    acts = [] \<or> (\<exists>r. last acts = Withdraws r \<and> mr_instance r = inst)"
  by (auto simp: mdns_worker_def StartmDNS_def Let_def split: if_splits)

text \<open>
  The run of a node: announcements, the steps of the goroutines of the coordinator, its ticker, what other
  processes queue in the same log, and restarts. Unlike in \<open>cstep\<close>, nobody else calls \<open>MarkOnline\<close>,
  \<open>MarkOffline\<close> or \<open>DrainPeer\<close>: \<open>internal/node\<close> does not.
\<close>

inductive node_step :: "'s wal_api \<Rightarrow> 's discovery \<Rightarrow> 's discovery \<Rightarrow> bool" for api where
  announced: "node_step api d (browse_entry lookup entry d)"
| works: "i < length (cs_threads (ds_coord d)) \<Longrightarrow> in_int64 now \<Longrightarrow>
     tstep api (\<lambda>p. cs_online (ds_coord d) p = Some True) now canc okd (cs_engine (ds_coord d)) (cs_threads (ds_coord d) ! i) =
       (ph, s', sent) \<Longrightarrow>
     node_step api d (d\<lparr>ds_coord := (ds_coord d)\<lparr>cs_engine := s', cs_threads := (cs_threads (ds_coord d))[i := ph],
       cs_sent := cs_sent (ds_coord d) @ sent\<rparr>\<rparr>)"
| ticks: "node_step api d (d\<lparr>ds_coord := (ds_coord d)\<lparr>cs_threads := cs_threads (ds_coord d) @ [FetchAll]\<rparr>\<rparr>)"
| queued: "api_enqueue api now (cs_engine (ds_coord d)) p q (Some t) = (Inr e, s') \<Longrightarrow> in_int64 now \<Longrightarrow>
     node_step api d (d\<lparr>ds_coord := (ds_coord d)\<lparr>cs_engine := s', cs_queued := cs_queued (ds_coord d) @ [canon_entry e]\<rparr>\<rparr>)"
| not_queued: "api_enqueue api now (cs_engine (ds_coord d)) p q (Some t) = (Inl er, s') \<Longrightarrow>
     node_step api d (d\<lparr>ds_coord := (ds_coord d)\<lparr>cs_engine := s'\<rparr>\<rparr>)"
| restarts: "node_step api d (d\<lparr>ds_addrs := [], ds_coord := (ds_coord d)\<lparr>cs_online := Map.empty, cs_threads := []\<rparr>\<rparr>)"

text \<open>A goroutine that can only deliver to the peers in \<open>F\<close>; the poll loop looks at the online map itself.\<close>

fun serves :: "string set \<Rightarrow> phase \<Rightarrow> bool" where
  "serves F (FetchPeer p) = (p \<in> F)"
| "serves F (Loop poll es) = (poll \<or> we_PeerID ` set es \<subseteq> F)"
| "serves F (Begin e poll es) = (we_PeerID e \<in> F \<and> (poll \<or> we_PeerID ` set es \<subseteq> F))"
| "serves F (Sending e poll es) = (we_PeerID e \<in> F \<and> (poll \<or> we_PeerID ` set es \<subseteq> F))"
| "serves F (NotSent e poll es) = (we_PeerID e \<in> F \<and> (poll \<or> we_PeerID ` set es \<subseteq> F))"
| "serves F (Sent e poll es) = (we_PeerID e \<in> F \<and> (poll \<or> we_PeerID ` set es \<subseteq> F))"
| "serves F (Deleting e poll es) = (we_PeerID e \<in> F \<and> (poll \<or> we_PeerID ` set es \<subseteq> F))"
| "serves F _ = True"

lemma serves_mono: "serves F ph \<Longrightarrow> F \<subseteq> F' \<Longrightarrow> serves F' ph"
  by (cases "(F, ph)" rule: serves.cases) auto

definition serves_found :: "'s discovery \<Rightarrow> bool" where
  "serves_found d \<longleftrightarrow> (\<forall>p. cs_online (ds_coord d) p = Some True \<longrightarrow> p \<in> set (ds_found d)) \<and>
     (\<forall>ph \<in> set (cs_threads (ds_coord d)). serves (set (ds_found d)) ph) \<and> fst ` set (cs_sent (ds_coord d)) \<subseteq> set (ds_found d)"

context wal_engine begin

lemma tstep_serves:
  assumes "tstep api up now canc okd s ph = (ph', s', d)" "inv s" "serves F ph" "\<And>p. up p \<Longrightarrow> p \<in> F"
  shows "serves F ph' \<and> fst ` set d \<subseteq> F"
proof -
  have "we_PeerID ` set es \<subseteq> {p}" if "api_pending api s p = (es, eo)" for p es eo
    using pending [OF assms(2) that] by auto
  then show ?thesis
    using assms by (cases "(api, up, now, canc, okd, s, ph)" rule: tstep.cases)
      (fastforce split: prod.splits option.splits sum.splits if_splits)+
qed

lemma node_step_coordinator: "node_step api d d' \<Longrightarrow> (cstep api)\<^sup>*\<^sup>* (ds_coord d) (ds_coord d')"
proof (induction rule: node_step.induct)
  case (announced d lookup entry)
  have "cstep api c (MarkOnline p c)" for p c unfolding MarkOnline_def by (rule cstep.mark_online)
  then show ?case by (simp add: browse_entry_def Let_def r_into_rtranclp)
next
  case (works i d now canc okd ph s' sent)
  then have "cstep api (ds_coord d) ((ds_coord d)\<lparr>cs_engine := s', cs_threads := (cs_threads (ds_coord d))[i := ph],
       cs_sent := cs_sent (ds_coord d) @ sent\<rparr>)" by (rule cstep.thread)
  then show ?case by simp
qed (auto intro!: r_into_rtranclp intro: cstep.intros)

lemma serves_found_step:
  assumes "node_step api d d'" "inv (cs_engine (ds_coord d))" "serves_found d"
  shows "serves_found d'"
  using assms
proof (induction rule: node_step.induct)
  case (announced d lookup entry)
  then show ?case by (auto simp: browse_entry_def Let_def serves_found_def MarkOnline_def intro: serves_mono)
next
  case (works i d now canc okd ph s' sent)
  let ?F = "set (ds_found d)"
  have "serves ?F (cs_threads (ds_coord d) ! i)" "\<And>p. cs_online (ds_coord d) p = Some True \<Longrightarrow> p \<in> ?F"
    using works.prems(2) works.hyps(1) by (simp_all add: serves_found_def)
  from tstep_serves [OF works.hyps(3) works.prems(1) this]
  have "serves ?F ph" "fst ` set sent \<subseteq> ?F" by blast+
  then show ?case
    using works.prems(2) set_update_subset_insert [of "cs_threads (ds_coord d)" i ph]
    by (auto simp: serves_found_def image_Un)
qed (auto simp: serves_found_def)

lemma node_run_serves:
  assumes "(node_step api)\<^sup>*\<^sup>* (NewDiscovery (cstart (log s) s)) d" "inv s"
  shows "serves_found d \<and> cinv (ds_coord d)"
  using assms(1)
proof (induction rule: rtranclp_induct)
  case base
  then show ?case using cinv_start [OF assms(2)] by (simp add: NewDiscovery_def serves_found_def cstart_def)
next
  case (step d d')
  then show ?case
    using serves_found_step cinv_reach [OF node_step_coordinator] cinvD(1) by blast
qed

end

text \<open>
  C25. A node delivers only to peers that were announced to it under exactly the name their entries are
  queued for: whatever is announced, queued and restarted, every delivery of a run goes to a name that
  an earlier announcement carried. An entry that \<open>vault send\<close> queues under an address stays where it is,
  unless a peer announces that address as its instance name.
\<close>

theorem only_announced_peers_served:
  assumes "wal_bucket B" "engine_inv B s" and run: "(node_step (engine_api B))\<^sup>*\<^sup>* (NewDiscovery (cstart (engine_log B s) s)) d"
  shows "fst ` set (cs_sent (ds_coord d)) \<subseteq> set (ds_found d) \<and>
    (\<forall>e \<in> set (cs_queued (ds_coord d)). we_PeerID e \<notin> set (ds_found d) \<longrightarrow>
       (\<exists>e' \<in> set (engine_log B (cs_engine (ds_coord d))). entry_core e' = entry_core e))"
proof -
  note wal = engine_wal [OF assms(1)]
  have d: "serves_found d" "wal_engine.cinv (engine_inv B) (engine_log B) (engine_used B) (ds_coord d)"
    using wal_engine.node_run_serves [OF wal run assms(2)] by blast+
  have sent: "fst ` set (cs_sent (ds_coord d)) \<subseteq> set (ds_found d)" using d(1) by (simp add: serves_found_def)
  have "\<exists>e' \<in> set (engine_log B (cs_engine (ds_coord d))). entry_core e' = entry_core e"
    if e: "e \<in> set (cs_queued (ds_coord d))" "we_PeerID e \<notin> set (ds_found d)" for e
  proof -
    have "\<not> delivered (ds_coord d) e" using sent e(2) by (force simp: delivered_def)
    then have "entry_core e \<in> entry_core ` set (engine_log B (cs_engine (ds_coord d)))"
      using wal_engine.cinvD(9) [OF wal d(2) e(1)] by blast
    then show ?thesis by force
  qed
  then show ?thesis using sent by blast
qed

text \<open>A peer that announces itself as bob, on two networks.\<close>

definition demo_service :: service_entry where
  "demo_service = \<lparr>se_Instance = ''bob'', se_HostName = ''bob.local.'', se_Port = 4242,
     se_AddrIPv4 = [[CHR 0x7F, CHR 0x00, CHR 0x00, CHR 0x01], [CHR 0xC0, CHR 0xA8, CHR 0x01, CHR 0x07]], se_AddrIPv6 = []\<rparr>"

lemma demo_service: "resolveAddr (\<lambda>_. None) demo_service = ''192.168.1.7:4242''"
  by code_simp

theorem only_announced_peers_served_witness:
  "\<exists>d. (node_step (engine_api ref_ops))\<^sup>*\<^sup>* (NewDiscovery (cstart (engine_log ref_ops busy_engine) busy_engine)) d \<and>
    ds_found d = [''bob''] \<and> PeerAddr d ''bob'' = ''192.168.1.7:4242'' \<and> fst ` set (cs_sent (ds_coord d)) \<subseteq> set (ds_found d)"
proof -
  let ?start = "NewDiscovery (cstart (engine_log ref_ops busy_engine) busy_engine)"
  let ?d = "browse_entry (\<lambda>_. None) demo_service ?start"
  have run: "(node_step (engine_api ref_ops))\<^sup>*\<^sup>* ?start ?d"
    using node_step.announced by (rule r_into_rtranclp)
  have d: "ds_found ?d = [''bob'']" "PeerAddr ?d ''bob'' = ''192.168.1.7:4242''"
    by (simp_all add: browse_entry_def demo_service NewDiscovery_def PeerAddr_def) (simp_all add: demo_service_def Let_def)
  show ?thesis using only_announced_peers_served [OF wal_bucket_ref busy_engine(1) run] run d by blast
qed

end
