(* ===== verification/Node.thy ===== *)
theory Node
  imports Payload Delivery Discovery
begin

text \<open>
  \<open>internal/node/node.go\<close> and \<open>internal/api/server.go\<close>: the node that joins storage, coordinator,
  discovery, relay and delivery, and the HTTP status it serves. The function that the coordinator calls
  to deliver an entry (\<open>makeDeliveryFunc\<close>) is a relation, like the delivery it ends in; the run of the
  coordinator in a node is \<open>Discovery\<close>'s \<open>node_step\<close>.

  Lemmas: what the status reports, the token that a node issues to itself and nobody accepts, and the
  encrypted file that a node pulls from the relay and loses.
\<close>

section \<open>Configuration and start\<close>

record node_config =
  nc_DBPath :: string
  nc_WALPath :: string
  nc_ChunkPath :: string
  nc_IdentityPath :: string
  nc_OutputDir :: string
  nc_PeerID :: string
  nc_APIPort :: int
  nc_MDNSPort :: int
  nc_RelayAddr :: string
  nc_SpaceID :: string

text \<open>The engine of the coordinator is the engine of the node; its state is that of \<open>Discovery\<close>.\<close>

record 'm node =
  nd_cfg :: node_config
  nd_engine :: "'m engine option"
  nd_identity :: "identity option"
  nd_space :: "space option"
  nd_relay :: "string option"
  nd_coord :: bool
  nd_online :: bool

definition NewNode :: "node_config \<Rightarrow> 'm node" where
  "NewNode cfg = \<lparr>nd_cfg = cfg, nd_engine = None, nd_identity = None, nd_space = None, nd_relay = None,
     nd_coord = False, nd_online = False\<rparr>"

text \<open>What \<open>Init\<close> meets: the three directories, the two databases, the files of the identity, the driver.\<close>

record 'm init_env =
  nv_dirs :: "string \<Rightarrow> bool"
  nv_sqlite :: bool
  nv_schema :: bool
  nv_tables :: sqlite_db
  nv_bolt :: "'m option option"
  nv_identity :: identity_env
  nv_driver :: bool

datatype node_err = NodeDirErr | NodeEngineErr engine_err | NodeIdentityErr identity_err | NodeSpaceErr space_err

definition path_dir :: "string \<Rightarrow> string" where
  "path_dir p = path_clean (rev (dropWhile (\<lambda>c. c \<noteq> CHR ''/'') (rev p)))"

definition node_Init ::
  "('m, bytes) bucket_ops \<Rightarrow> crypto_ops \<Rightarrow> 'm init_env \<Rightarrow> 'm node \<Rightarrow> files \<Rightarrow> node_err option \<times> 'm node \<times> files" where
  "node_Init B C env n fs =
     (let cfg = nd_cfg n in
      if \<not> nv_dirs env (path_dir (nc_DBPath cfg)) \<or> \<not> nv_dirs env (path_dir (nc_WALPath cfg)) \<or> \<not> nv_dirs env (nc_OutputDir cfg)
      then (Some NodeDirErr, n, fs)
      else
        let (r, e) = engine_Init B (nv_sqlite env) (nv_schema env) (nv_tables env) (nv_bolt env)
              (NewEngineWithChunkDir (nc_DBPath cfg) (nc_WALPath cfg) (nc_ChunkPath cfg));
            n1 = n\<lparr>nd_engine := Some e\<rparr>
        in case r of
          Some er \<Rightarrow> (Some (NodeEngineErr er), n1, fs)
        | None \<Rightarrow>
            (case loadOrGenerateIdentity C (nv_identity env) (nc_IdentityPath cfg) fs of
               (Inl er, fs1) \<Rightarrow> (Some (NodeIdentityErr er), n1, fs1)
             | (Inr me, fs1) \<Rightarrow>
                 let n2 = n1\<lparr>nd_identity := Some me\<rparr> in
                 (case (if nc_SpaceID cfg = [] then Inr (nd_space n2)
                        else case GetSpace (nv_driver env) e (nc_SpaceID cfg) of Inl er \<Rightarrow> Inl er | Inr (sp, _) \<Rightarrow> Inr (Some sp)) of
                    Inl er \<Rightarrow> (Some (NodeSpaceErr er), n2, fs1)
                  | Inr sp \<Rightarrow>
                      (None, n2\<lparr>nd_space := sp, nd_coord := True,
                         nd_relay := (if nc_RelayAddr cfg = [] then nd_relay n2 else Some (nc_RelayAddr cfg))\<rparr>, fs1))))"

text \<open>The goroutines of \<open>Run\<close>, which it starts once \<open>Init\<close> has succeeded.\<close>

datatype worker = CoordinatorRun | Mdns | RelayPoll | ApiServer

definition node_workers :: "'m node \<Rightarrow> worker list" where
  "node_workers n =
     [CoordinatorRun] @ (if nc_MDNSPort (nd_cfg n) > 0 \<and> nc_PeerID (nd_cfg n) \<noteq> [] then [Mdns] else []) @
     (if nd_relay n \<noteq> None \<and> nc_PeerID (nd_cfg n) \<noteq> [] then [RelayPoll] else []) @ [ApiServer]"

definition node_start ::
  "('m, bytes) bucket_ops \<Rightarrow> crypto_ops \<Rightarrow> 'm init_env \<Rightarrow> 'm node \<Rightarrow> files \<Rightarrow> (node_err + worker list) \<times> 'm node \<times> files" where
  "node_start B C env n fs =
     (case (if nd_engine n = None then node_Init B C env n fs else (None, n, fs)) of
        (Some e, n1, fs1) \<Rightarrow> (Inl e, n1, fs1)
      | (None, n1, fs1) \<Rightarrow> (Inr (node_workers n1), n1\<lparr>nd_online := True\<rparr>, fs1))"

definition node_stop :: "bool \<Rightarrow> 'm node \<Rightarrow> 'm node" where
  "node_stop sq_ok n = n\<lparr>nd_engine := map_option (\<lambda>e. snd (engine_Close sq_ok e)) (nd_engine n), nd_online := False\<rparr>"

section \<open>Delivery of an entry\<close>

datatype auth_err = AuthTokenErr crypto_err | AuthSpaceErr space_err

definition loadTransferAuth ::
  "crypto_ops \<Rightarrow> int \<Rightarrow> bool \<Rightarrow> 'm node \<Rightarrow> 'm engine \<Rightarrow> payload \<Rightarrow> auth_err + (signed_token option \<times> bytes \<times> string)" where
  "loadTransferAuth C now drv n eng p =
     (let recipientID = (if payload_get p ''recipient_id'' = [] then payload_get p ''peer_addr'' else payload_get p ''recipient_id'') in
      if payload_get p ''auth_token'' \<noteq> [] then
        (case UnmarshalToken (payload_get p ''auth_token'') of
           Inl e \<Rightarrow> Inl (AuthTokenErr e)
         | Inr tok \<Rightarrow>
             (case GetSpace drv eng (token_space (Some tok)) of
                Inr (sp, _) \<Rightarrow> Inr (Some tok, sp_SymmetricKey sp, recipientID)
              | Inl e \<Rightarrow>
                  (case nd_space n of
                     Some sp \<Rightarrow> if sp_ID sp = token_space (Some tok) then Inr (Some tok, sp_SymmetricKey sp, recipientID) else Inl (AuthSpaceErr e)
                   | None \<Rightarrow> Inl (AuthSpaceErr e))))
      else case nd_space n of
          None \<Rightarrow> Inr (None, [], recipientID)
        | Some sp \<Rightarrow>
            (case nd_identity n of
               None \<Rightarrow> Inr (None, sp_SymmetricKey sp, recipientID)
             | Some me \<Rightarrow>
                 (case IssueToken C now me (PublicKey me) (sp_ID sp) PermWrite (24 * 3600 * 1000000000) of
                    Inl e \<Rightarrow> Inl (AuthTokenErr e)
                  | Inr tok \<Rightarrow> Inr (Some tok, sp_SymmetricKey sp, recipientID))))"

definition node_deliverer :: "'m node \<Rightarrow> string \<Rightarrow> payload \<Rightarrow> signed_token option \<times> bytes \<times> string \<Rightarrow> deliverer" where
  "node_deliverer n peerID p auth =
     \<lparr>dl_Relay = nd_relay n, dl_Rendezvous = False, dl_AuthToken = fst auth, dl_SpaceKey = fst (snd auth),
      dl_PeerAddr = (if payload_get p ''peer_addr'' = [] then peerID else payload_get p ''peer_addr''),
      dl_RecipientID = snd (snd auth)\<rparr>"

definition queue_opts :: deliver_opts where
  "queue_opts = \<lparr>do_Parallelism = 1, do_Resume = True, do_ForceRelay = False\<rparr>"

text \<open>What is opened on every path is the file that the payload names.\<close>

definition opens_file :: "deliver_env \<Rightarrow> string \<Rightarrow> bool" where
  "opens_file env path \<longleftrightarrow> (\<forall>p. sf_path (dv_src env p) = path)"

datatype deliver_fn_err = BadPayload | DeliverAuthErr auth_err | DeliveryErr deliver_err

inductive node_deliver ::
  "('r, bytes) bucket_ops \<Rightarrow> 'r relay_lib \<Rightarrow> (bytes \<Rightarrow> bytes) \<Rightarrow> crypto_ops \<Rightarrow> int \<Rightarrow> bool \<Rightarrow> 'm node \<Rightarrow> 'm engine \<Rightarrow> deliver_env \<Rightarrow> files
     \<Rightarrow> 'r relay_server \<Rightarrow> string \<Rightarrow> wal_entry \<Rightarrow> deliver_fn_err option \<times> (path \<times> packet list) option \<times> 'r relay_server \<Rightarrow> bool"
  for B L bl C now drv n eng env fs s peerID entry where
  bad_payload: "entry_payload (we_Payload entry) = None \<Longrightarrow>
    node_deliver B L bl C now drv n eng env fs s peerID entry (Some BadPayload, None, s)"
| no_auth: "entry_payload (we_Payload entry) = Some p \<Longrightarrow> loadTransferAuth C now drv n eng p = Inl e \<Longrightarrow>
    node_deliver B L bl C now drv n eng env fs s peerID entry (Some (DeliverAuthErr e), None, s)"
| delivers: "entry_payload (we_Payload entry) = Some p \<Longrightarrow> loadTransferAuth C now drv n eng p = Inr auth \<Longrightarrow>
    opens_file env (payload_get p ''file_path'') \<Longrightarrow>
    DelivererSendFile B L bl C (node_deliverer n peerID p auth) queue_opts env (Some eng) fs s (r, via, s') \<Longrightarrow>
    node_deliver B L bl C now drv n eng env fs s peerID entry (map_option DeliveryErr r, via, s')"

section \<open>The relay poll\<close>

text \<open>One tick of \<open>relayPollLoop\<close>: no session key is given, and an error is dropped.\<close>

definition node_poll ::
  "('r, bytes) bucket_ops \<Rightarrow> 'r relay_lib \<Rightarrow> crypto_ops \<Rightarrow> relay_recv_env \<Rightarrow> 'm node \<Rightarrow> files \<Rightarrow> 'r relay_server
     \<Rightarrow> (relay_recv_err + string) \<times> files \<times> 'r relay_server" where
  "node_poll B L C renv n fs s =
     RelayReceiveFile B L C renv \<lparr>rt_Client = nd_relay n, rt_SessionKey = []\<rparr> (nc_PeerID (nd_cfg n)) (nc_OutputDir (nd_cfg n)) (nd_engine n) fs s"

section \<open>The status\<close>

record status_snapshot =
  ss_Online :: bool
  ss_Version :: string
  ss_PeerID :: string
  ss_PendingQueue :: int
  ss_RelayAddr :: string
  ss_IdentityPubKey :: string

definition omit_empty :: "string \<Rightarrow> string \<Rightarrow> (string \<times> json) list" where
  "omit_empty k v = (if v = [] then [] else [(k, JStr v)])"

definition status_fields :: "status_snapshot \<Rightarrow> (string \<times> json) list" where
  "status_fields st =
     [(''online'', JBool (ss_Online st)), (''version'', JStr (ss_Version st)), (''peer_id'', JStr (ss_PeerID st)),
      (''pending_queue'', jint (ss_PendingQueue st))] @ omit_empty ''relay_addr'' (ss_RelayAddr st) @
     omit_empty ''identity_pubkey'' (ss_IdentityPubKey st)"

definition status_of_fields :: "(string \<times> json) list \<Rightarrow> status_snapshot option" where
  "status_of_fields kvs = do {
     b \<leftarrow> bool_field ''online'' kvs;
     v \<leftarrow> str_field ''version'' kvs;
     p \<leftarrow> str_field ''peer_id'' kvs;
     q \<leftarrow> int_field ''pending_queue'' kvs;
     r \<leftarrow> str_field ''relay_addr'' kvs;
     k \<leftarrow> str_field ''identity_pubkey'' kvs;
     Some \<lparr>ss_Online = b, ss_Version = v, ss_PeerID = p, ss_PendingQueue = q, ss_RelayAddr = r, ss_IdentityPubKey = k\<rparr>
   }"

interpretation status_json: json_struct status_fields status_of_fields "\<lambda>st. in_int64 (ss_PendingQueue st)"
  by unfold_locales
    (simp_all add: status_fields_def status_of_fields_def omit_empty_def field_simps_json jint_def parse_int64_fmt_int)

definition StatusSnapshot :: "('m, bytes) bucket_ops \<Rightarrow> 'm node \<Rightarrow> status_snapshot" where
  "StatusSnapshot B n =
     (let pending = (case nd_engine n of
            None \<Rightarrow> 0
          | Some e \<Rightarrow> (case GetAllPendingEntries B (en_bolt e) of (es, None) \<Rightarrow> int (length es) | _ \<Rightarrow> 0))
      in \<lparr>ss_Online = nd_online n, ss_Version = ''1.0.0-mvp'', ss_PeerID = nc_PeerID (nd_cfg n), ss_PendingQueue = pending,
          ss_RelayAddr = nc_RelayAddr (nd_cfg n),
          ss_IdentityPubKey = (case nd_identity n of None \<Rightarrow> [] | Some me \<Rightarrow> hex_encode (PublicKey me))\<rparr>)"

text \<open>The handlers of the API; without a provider the server answers with a fixed status.\<close>

definition handleStatus :: "status_snapshot option \<Rightarrow> http_response" where
  "handleStatus provider =
     \<lparr>ht_status = 200, ht_body = marshal status_fields (case provider of
          Some st \<Rightarrow> st
        | None \<Rightarrow> \<lparr>ss_Online = True, ss_Version = ''1.0.0'', ss_PeerID = [], ss_PendingQueue = 0, ss_RelayAddr = [], ss_IdentityPubKey = []\<rparr>)
        @ [CHR 0x0A]\<rparr>"

definition queue_fields :: "int \<Rightarrow> (string \<times> json) list" where
  "queue_fields k = [(''pending'', jint k)]"

definition handleQueue :: "status_snapshot option \<Rightarrow> http_response" where
  "handleQueue provider =
     \<lparr>ht_status = 200, ht_body = marshal queue_fields (case provider of Some st \<Rightarrow> ss_PendingQueue st | None \<Rightarrow> 0) @ [CHR 0x0A]\<rparr>"

text \<open>The port on which \<open>Start\<close> listens.\<close>

definition api_port :: "int \<Rightarrow> int" where
  "api_port port = (if port \<le> 0 then 8080 else port)"

text \<open>The server: \<open>provider\<close> is the snapshot that its provider gives at the request. The mux of \<open>Handler\<close> knows two
  patterns; the paths are clean ones, which \<open>net/http\<close> does not redirect.\<close>

record api_server =
  as_port :: int
  as_provider :: "status_snapshot option"

definition NewApiServer :: "int \<Rightarrow> status_snapshot option \<Rightarrow> api_server" where
  "NewApiServer port provider = \<lparr>as_port = port, as_provider = provider\<rparr>"

definition api_handler :: "api_server \<Rightarrow> string \<Rightarrow> http_response" where
  "api_handler s path =
     (if path = ''/api/status'' then handleStatus (as_provider s)
      else if path = ''/api/queue'' then handleQueue (as_provider s)
      else \<lparr>ht_status = 404, ht_body = ''404 page not found'' @ [CHR 0x0A]\<rparr>)"

text \<open>\<open>Start\<close>: the address it listens on.\<close>

definition api_address :: "api_server \<Rightarrow> string" where
  "api_address s = CHR '':'' # fmt_int (api_port (as_port s))"

definition formatPort :: "int \<Rightarrow> string" where
  "formatPort port = fmt_int port"

section \<open>The status reports the queue\<close>

interpretation queue_json: json_struct queue_fields "int_field ''pending''" in_int64
  by unfold_locales (simp_all add: queue_fields_def field_simps_json jint_def parse_int64_fmt_int)

lemma api_handler_simps [simp]:
  "api_handler s ''/api/status'' = handleStatus (as_provider s)" "api_handler s ''/api/queue'' = handleQueue (as_provider s)"
  by (simp_all add: api_handler_def)

text \<open>
  The dashboard shows the truth: what \<open>/api/status\<close> and \<open>/api/queue\<close> answer decodes to the number of
  entries of the log that are pending, whatever state storage is in, next to the node's own name.
\<close>

theorem status_counts_pending:
  assumes "wal_bucket B" "nd_engine n = Some e" "engine_inv B e"
    and pend: "pend = filter (\<lambda>x. we_Status x = WALStatusPending) (engine_log B e)" "in_int64 (int (length pend))"
  shows "(\<exists>st. unmarshal status_of_fields (ht_body (handleStatus (Some (StatusSnapshot B n)))) = Some st \<and>
      ss_PendingQueue st = int (length pend) \<and> ss_PeerID st = nc_PeerID (nd_cfg n) \<and> ss_Online st = nd_online n) \<and>
    unmarshal (int_field ''pending'') (ht_body (handleQueue (Some (StatusSnapshot B n)))) = Some (int (length pend))"
proof -
  let ?st = "StatusSnapshot B n"
  have all: "GetAllPendingEntries B (en_bolt e) = (pend, case db (en_bolt e) of NilDB \<Rightarrow> Some WalNotInit | ClosedDB \<Rightarrow> Some WalClosed | _ \<Rightarrow> None)"
    using wal_bucket.store_read [OF assms(1)] assms(3) pend(1)
    by (simp add: GetAllPendingEntries_def engine_inv_def engine_log_def)
  have "pend = []" if "db (en_bolt e) = NilDB \<or> db (en_bolt e) = ClosedDB"
    using that pend(1) by (auto simp: engine_log_def store_log_def)
  then have st: "ss_PendingQueue ?st = int (length pend)" "ss_PeerID ?st = nc_PeerID (nd_cfg n)" "ss_Online ?st = nd_online n"
    using assms(2) by (auto simp: StatusSnapshot_def all Let_def split: bolt_handle.splits)
  have "unmarshal status_of_fields (ht_body (handleStatus (Some ?st))) = Some ?st"
    using status_json.unmarshal_marshal_nl [of ?st] st(1) pend(2) by (simp add: handleStatus_def)
  moreover have "unmarshal (int_field ''pending'') (ht_body (handleQueue (Some ?st))) = Some (int (length pend))"
    using queue_json.unmarshal_marshal_nl [OF pend(2)] st(1) by (simp add: handleQueue_def)
  ultimately show ?thesis using st by blast
qed

section \<open>A token for oneself\<close>

lemma successful_setup:
  assumes "SendFileOverConn bl C opts src sv eng fs inp (None, out)"
  shows "\<exists>kr pre rest. send_setup C opts src sv inp = (Inr kr, pre) \<and> out = pre @ rest"
  using assms by cases (auto elim!: send_streamE simp: send_finish_def split: option.splits if_splits)

text \<open>A receiver that does not accept the token of the first packet answers once at most.\<close>

lemma refused_token:
  assumes "\<And>v. VerifyToken C t st (Some (PublicKey you)) \<noteq> Inr v" "ro_Identity ropts = Some you"
    and "ReceiveOnceWithOptions bl C txt t ropts dir cv envs eng fs (Some (auth_packet st) # r) = (res, rv)"
  shows "length (rv_sent rv) \<le> 1 \<and> res \<noteq> None"
proof -
  have un: "UnmarshalToken (pk_Data (auth_packet st)) = Inr st" "pk_Type (auth_packet st) = ''auth''"
    by (simp_all add: auth_packet_def plain_packet_def UnmarshalToken_def MarshalToken_def signed_json.unmarshal_marshal)
  obtain e where e: "VerifyToken C t st (Some (PublicKey you)) = Inl e"
    using assms(1) by (cases "VerifyToken C t st (Some (PublicKey you))") auto
  show ?thesis
    using assms(3)
    by (auto simp: ReceiveOnceWithOptions_def serverAuthHandshake_def assms(2) un e Let_def new_receiver_def split: if_splits)
qed

text \<open>
  A delivery whose token the receiver does not accept is made by the relay, if at all: on a QUIC connection
  the sender needs two answers and gets one at most.
\<close>

lemma refused_never_direct:
  fixes eng :: "'e engine option"
  assumes d: "DelivererSendFile B L bl C d opts env eng fs s (None, Some (pth, out), s')"
    and st: "dl_AuthToken d = Some st" "do_Resume opts"
    and no: "\<And>v. VerifyToken C t st (Some (PublicKey you)) \<noteq> Inr v" and you: "ro_Identity ropts = Some you"
    and inp: "dv_in env pth = map Some (rv_sent rv)"
    and recv: "ReceiveOnceWithOptions bl C txt t ropts dir cv envs engR fsR (map Some out) = (res, rv)"
  shows "pth = Relayed"
proof (rule ccontr)
  assume direct: "pth \<noteq> Relayed"
  have opts: "so_AuthToken (quic_opts d opts) = Some st" "so_Resume (quic_opts d opts)" by (simp_all add: quic_opts_def st)
  obtain sv eng' fs' where send: "SendFileOverConn bl C (quic_opts d opts) (dv_src env pth) sv (eng' :: 'e engine option) fs'
      (map Some (rv_sent rv)) (None, out)" using delivered_over_conn [OF d direct] by (auto simp: inp)
  obtain kr pre rest where su: "send_setup C (quic_opts d opts) (dv_src env pth) sv (map Some (rv_sent rv)) = (Inr kr, pre)"
    and out: "out = pre @ rest" using successful_setup [OF send] by auto
  obtain x y zs where acks: "rv_sent rv = x # y # zs" and pre: "hd pre = auth_packet st" "pre \<noteq> []"
    using auth_setup [OF _ opts, of C "dv_src env pth" sv "rv_sent rv" "fst kr" "snd kr" pre] su by auto
  obtain out' where out': "map Some out = Some (auth_packet st) # out'" using out pre by (cases pre) auto
  from refused_token [OF no you recv [unfolded out']] show False by (simp add: acks)
qed

lemma issued_payload:
  assumes "IssueToken C now i grantee sid perm ttl = Inr st" "in_int64 (unix now)" "in_int64 (unix (now + ttl))"
  shows "unmarshal token_of_fields (st_Payload st) = Some \<lparr>ct_PeerPubKey = encodeKey grantee, ct_SpaceID = sid, ct_Permission = perm,
    ct_IssuedAt = unix now, ct_Expiry = (if ttl \<noteq> 0 then unix (now + ttl) else 0)\<rparr>"
proof -
  let ?tok = "\<lparr>ct_PeerPubKey = encodeKey grantee, ct_SpaceID = sid, ct_Permission = perm,
    ct_IssuedAt = unix now, ct_Expiry = (if ttl \<noteq> 0 then unix (now + ttl) else 0)\<rparr>"
  have "token_ok ?tok" using assms(2,3) by (simp add: token_ok_def in_int64_def int64_min_def int64_max_def)
  then have "unmarshal token_of_fields (marshal token_fields ?tok) = Some ?tok" by (rule token_json.unmarshal_marshal)
  moreover have "st_Payload st = marshal token_fields ?tok"
    using assms(1) by (auto simp: IssueToken_def Let_def rbind_Inr_iff)
  ultimately show ?thesis by simp
qed

text \<open>
  C36. The token that a node issues for an entry without one is made out to the node itself, so nobody else
  accepts it: when such an entry is delivered at all, it was by the relay. A receiver with any other
  identity, whether it requires tokens or not, refuses the transfer, at every time.
\<close>

theorem self_issued_token_refused:
  assumes dl: "node_deliver B L bl C now drv n eng env fs s peerID entry (None, Some (pth, out), s')"
    and p: "entry_payload (we_Payload entry) = Some p" "payload_get p ''auth_token'' = []"
    and n: "nd_space n = Some sp" "nd_identity n = Some me"
    and now: "in_int64 (unix now)" "in_int64 (unix (now + 86400000000000))"
    and you: "ro_Identity ropts = Some you" "PublicKey you \<noteq> PublicKey me"
    and inp: "dv_in env pth = map Some (rv_sent rv)"
    and recv: "ReceiveOnceWithOptions bl C txt t ropts dir cv envs engR fsR (map Some out) = (res, rv)"
  shows "pth = Relayed"
proof -
  obtain auth where a: "loadTransferAuth C now drv n eng p = Inr auth"
    and d: "DelivererSendFile B L bl C (node_deliverer n peerID p auth) queue_opts env (Some eng) fs s (None, Some (pth, out), s')"
    using dl p(1) by (auto elim: node_deliver.cases)
  obtain st where st: "IssueToken C now me (PublicKey me) (sp_ID sp) PermWrite 86400000000000 = Inr st" "fst auth = Some st"
    using a p(2) n by (auto simp: loadTransferAuth_def Let_def split: sum.splits)
  have opts: "dl_AuthToken (node_deliverer n peerID p auth) = Some st" "do_Resume queue_opts"
    by (simp_all add: node_deliverer_def queue_opts_def st(2))
  have "VerifyToken C t st (Some (PublicKey you)) \<noteq> Inr v" for v
    using VerifyToken_Inr [of C t st "Some (PublicKey you)"] issued_payload [OF st(1) now] you(2) by fastforce
  from refused_never_direct [OF d opts this you(1) inp recv] show ?thesis .
qed

section \<open>What a poll loses\<close>

text \<open>What the encryption makes of a manifest does not read as a manifest.\<close>

definition seals_opaquely :: "crypto_ops \<Rightarrow> (nat \<Rightarrow> bytes option) \<Rightarrow> bytes \<Rightarrow> bool" where
  "seals_opaquely C rnd key \<longleftrightarrow>
     (\<forall>m c. ProtectChunk C rnd key (marshal manifest_fields m) = Inr c \<longrightarrow> unmarshal manifest_of_fields c = None)"

text \<open>
  C37. A file that a delivery hands to the relay encrypted is lost on a node: the poll of the node has no
  session key, cannot read the sealed manifest, and returns without a file; but the pull has emptied
  the inbox. The only assumption on the encryption is that what it makes of a manifest is no JSON of one.
\<close>

theorem node_poll_loses_encrypted:
  assumes dl: "DelivererSendFile B L bl C d opts env eng0 fs0 s (None, Some (Relayed, ps), s')"
    and key: "sessionKey C d = Inr key" "session_ok C (relayKey d key)" "relayKey d key \<noteq> []"
    and to: "to = (if dl_RecipientID d = [] then dl_PeerAddr d else dl_RecipientID d)"
    and B: "kv_reliable B" and ok: "relay_ok B s" and box: "inbox B L s to = []" "inbox_seq B s to < 10 ^ 10 - 2"
    and envs: "\<And>i. push_env_ok L (dv_push env i)" "push_env_ok L (dv_manifest env)"
    and f: "small_file bl (dv_src env Relayed) content to (token_space (dl_AuthToken d))"
    and rnd: "dv_rnd env 16 = Some b" "length b = 16"
    and sealed: "seals_opaquely C (pe_rnd (dv_manifest env)) (relayKey d key)"
    and n: "nc_PeerID (nd_cfg n) = to" "nd_relay n \<noteq> None"
    and renv: "ve_mkdir renv" "ve_commit renv" "link_up (ve_link renv)"
  shows "\<exists>s2. node_poll B L C renv n fs s' = (Inl ManifestParseErr, fs, s2) \<and> inbox B L s2 = inbox B L s"
proof -
  let ?rt = "\<lparr>rt_Client = dl_Relay d, rt_SessionKey = relayKey d key\<rparr>" and ?sp = "token_space (dl_AuthToken d)"
  let ?m = "sent_manifest (hex_encode b) (dv_src env Relayed) content ?sp" and ?now = "ve_now renv"
  have r: "dl_Relay d \<noteq> None" "relay_tier B L bl C d key env s = (None, s')"
    using dl key(1) unfolding DelivererSendFile_def by (auto elim!: loggedE split: if_splits)
  have rt: "rt_Client ?rt \<noteq> None" "session_ok C (rt_SessionKey ?rt)" using r(1) key(2) by simp_all
  obtain s1 s2 cs c where sent: "RelaySendFile B L bl C (dv_rnd env) (dv_push env) (dv_manifest env) ?rt to (dv_src env Relayed) ?sp s =
      ((hex_encode b, None), s1)"
    and pull: "PullChunks B L True ?now (ve_link renv) to s1 =
      (Inr (cs @ [\<lparr>rc_ChunkHash = relayManifestPrefix @ hex_encode b, rc_Data = c, rc_PushedAt = ?now\<rparr>]), s2)" "inbox B L s2 = inbox B L s"
    and c: "protect_with C (pe_rnd (dv_manifest env)) (rt_SessionKey ?rt) (marshal manifest_fields ?m) = Inr c"
    and cs: "if content = [] then cs = [] else \<exists>d. cs = [\<lparr>rc_ChunkHash = relayChunkKey (hex_encode b) 0 (HashChunk bl content), rc_Data = d,
       rc_PushedAt = ?now\<rparr>] \<and> unprotect_with C (rt_SessionKey ?rt) d = Inr content"
    using small_file_pulled [where rnd = "dv_rnd env" and b = b and envs = "dv_push env" and menv = "dv_manifest env" and now = ?now,
        OF B ok box envs rt f rnd renv(3)] by blast
  have s1: "s1 = s'" using r(2) sent to by (simp add: relay_tier_def relay_recipient_def)
  have un: "unmarshal manifest_of_fields c = None" using c sealed key(3) by (simp add: protect_with_def seals_opaquely_def)
  have b: "b \<noteq> []" "in_int64 0" using rnd(2) by (auto simp: in_int64_def int64_min_def int64_max_def)
  have man: "sort_inbox C [] [\<lparr>rc_ChunkHash = relayManifestPrefix @ hex_encode b, rc_Data = c, rc_PushedAt = ?now\<rparr>] im = Inl ManifestParseErr" for im
    using un by (simp add: unprotect_with_def)
  have "sort_inbox C [] (cs @ [\<lparr>rc_ChunkHash = relayManifestPrefix @ hex_encode b, rc_Data = c, rc_PushedAt = ?now\<rparr>]) im = Inl ManifestParseErr" for im
    using cs sort_chunk [OF b] man by (cases "content = []") (auto simp del: sort_inbox.simps(2))
  then show ?thesis
    using renv n pull by (simp add: node_poll_def RelayReceiveFile_def flip: s1)
qed

section \<open>A node for the witnesses\<close>

text \<open>A node called alice with a space, an identity, a relay and one entry in its log.\<close>

definition demo_node :: "((string, bytes) rbt \<times> nat) node" where
  "demo_node = (NewNode \<lparr>nc_DBPath = ''v.db'', nc_WALPath = ''w.db'', nc_ChunkPath = ''chunks'', nc_IdentityPath = ''id.key'',
     nc_OutputDir = ''in'', nc_PeerID = ''alice'', nc_APIPort = 0, nc_MDNSPort = 0, nc_RelayAddr = ''relay:9'', nc_SpaceID = ''f00d''\<rparr>)
     \<lparr>nd_engine := Some busy_engine, nd_identity := Some (demo_identity (CHR ''a'')), nd_space := Some demo_space, nd_relay := Some ''relay:9'',
       nd_coord := True, nd_online := True\<rparr>"

theorem status_counts_pending_witness:
  "\<exists>st. unmarshal status_of_fields (ht_body (handleStatus (Some (StatusSnapshot ref_ops demo_node)))) = Some st \<and>
    ss_PendingQueue st = 1 \<and> ss_PeerID st = ''alice'' \<and> ss_Online st"
proof -
  have e: "nd_engine demo_node = Some busy_engine" "nc_PeerID (nd_cfg demo_node) = ''alice''" "nd_online demo_node"
    by (simp_all add: demo_node_def NewNode_def)
  have p: "[busy_entry] = filter (\<lambda>x. we_Status x = WALStatusPending) (engine_log ref_ops busy_engine)"
    by (simp add: busy_engine) (simp add: busy_entry_def)
  have i: "in_int64 (int (length [busy_entry]))" by (simp add: in_int64_def int64_min_def int64_max_def)
  show ?thesis using status_counts_pending [OF wal_bucket_ref e(1) busy_engine(1) p i] e by auto
qed

lemma issued_session:
  assumes "IssueToken C now i grantee sid perm ttl = Inr st" "in_int64 (unix now)" "in_int64 (unix (now + ttl))"
    and "hkdf_laws C" "length spaceKey = SpaceKeySize"
  shows "token_space (Some st) = sid" "\<exists>k. DeriveTransferSessionKey C spaceKey st = Inr k \<and> length k = 32"
proof -
  obtain tok where tok: "unmarshal token_of_fields (st_Payload st) = Some tok" "ct_SpaceID tok = sid"
    using issued_payload [OF assms(1-3)] by auto
  show "token_space (Some st) = sid" using token_space_decoded [OF tok(1)] tok(2) by simp
  have "\<exists>k. hkdf C spaceKey transferSessionInfo (transferSessionInfo @ '':'' @ ct_SpaceID tok @ '':'' @ st_IssuerPubKey st @ '':'' @ ct_PeerPubKey tok)
      SpaceKeySize = Some k \<and> length k = SpaceKeySize"
    by (rule hkdfD [OF assms(4)]) (simp add: SpaceKeySize_def)
  then show "\<exists>k. DeriveTransferSessionKey C spaceKey st = Inr k \<and> length k = 32"
    using assms(5) by (auto simp: DeriveTransferSessionKey_def tok(1) SpaceKeySize_def)
qed

definition demo_payload :: payload where
  "demo_payload = [(''file_path'', ''docs/hi.txt''), (''peer_addr'', ''peer:1''), (''recipient_id'', ''bob'')]"

definition demo_queued :: wal_entry where
  "demo_queued = canon_entry (busy_entry\<lparr>we_Payload := Some (marshal payload_fields demo_payload)\<rparr>)"

text \<open>The peer cannot be dialled; the relay works.\<close>

definition demo_queue_env :: deliver_env where
  "demo_queue_env = demo_deliver_env\<lparr>dv_src := \<lambda>_. relay_source ''hi'', dv_conn := \<lambda>_. demo_send_env\<lparr>sv_dial := False\<rparr>, dv_in := \<lambda>_. []\<rparr>"

lemma demo_queued:
  "entry_payload (we_Payload demo_queued) = Some demo_payload" "payload_get demo_payload ''auth_token'' = []"
  "payload_get demo_payload ''file_path'' = ''docs/hi.txt''" "payload_get demo_payload ''peer_addr'' = ''peer:1''"
  "payload_get demo_payload ''recipient_id'' = ''bob''"
proof -
  have "distinct (map fst demo_payload)" "sorted (map fst demo_payload)" "payload_utf8 demo_payload" by code_simp+
  then show "entry_payload (we_Payload demo_queued) = Some demo_payload"
    using payload_stored(2) [of demo_payload busy_entry] by (simp add: demo_queued_def sort_key_id_if_sorted)
qed (simp_all add: demo_payload_def payload_get_def)

text \<open>Any deliverer with a token and a space key, in that environment.\<close>

lemma demo_relay_fallback:
  assumes d: "dl_Relay d = Some ''relay:9''" "dl_RecipientID d = ''bob''" "dl_AuthToken d = Some st" "dl_PeerAddr d \<noteq> []" "dl_Rendezvous d = False"
    and sk: "length (dl_SpaceKey d) = SpaceKeySize" and sid: "length (token_space (Some st)) \<le> 255"
    and k: "DeriveTransferSessionKey demo_crypto (dl_SpaceKey d) st = Inr k" "length k = 32"
  shows "\<exists>s'. DelivererSendFile ref_ops demo_relay_lib zero_hash demo_crypto d queue_opts demo_queue_env (Some (eng :: 'e engine)) no_files
    demo_relay (None, Some (Relayed, []), s')"
proof -
  note r = demo_relayed
  let ?rt = "\<lparr>rt_Client = Some ''relay:9'', rt_SessionKey = k\<rparr>"
  have key: "sessionKey demo_crypto d = Inr k" using k(1) sk by (auto simp: sessionKey_def d SpaceKeySize_def)
  have so: "session_ok demo_crypto k" using demo_relay_transfer(3) k(2) by (auto simp: session_ok_def demo_rt_def)
  have f: "small_file zero_hash (relay_source ''hi'') ''hi'' ''bob'' (token_space (Some st))"
    using demo_relay_transfer(5) sid by (simp add: small_file_def)
  have q: "dv_src demo_queue_env p = relay_source ''hi''" "dv_conn demo_queue_env p = demo_send_env\<lparr>sv_dial := False\<rparr>"
    "dv_push demo_queue_env = dv_push demo_deliver_env" "dv_manifest demo_queue_env = dv_manifest demo_deliver_env"
    "dv_rnd demo_queue_env = dv_rnd demo_deliver_env" for p by (simp_all add: demo_queue_env_def)
  have rt: "rt_Client ?rt \<noteq> None" "session_ok demo_crypto (rt_SessionKey ?rt)" using so by simp_all
  obtain s' where "RelaySendFile ref_ops demo_relay_lib zero_hash demo_crypto (dv_rnd demo_deliver_env) (dv_push demo_deliver_env)
      (dv_manifest demo_deliver_env) ?rt ''bob'' (relay_source ''hi'') (token_space (Some st)) demo_relay =
        ((hex_encode (replicate 16 (CHR ''t'')), None), s')"
    using small_file_sent [where rnd = "dv_rnd demo_deliver_env" and envs = "dv_push demo_deliver_env" and menv = "dv_manifest demo_deliver_env"
        and rt = ?rt and b = "replicate 16 (CHR ''t'')", OF ref.kv_reliable_axioms demo_relay_facts(2) r(7,8) rt f r(10,11,2)]
    by blast
  moreover have "k \<noteq> []" using k(2) by auto
  ultimately have s': "relay_tier ref_ops demo_relay_lib zero_hash demo_crypto d k demo_queue_env demo_relay = (None, s')"
    by (simp add: relay_tier_def relay_recipient_def d q relayKey_def)
  have tier: "direct_tier zero_hash demo_crypto d queue_opts demo_queue_env (Some eng) no_files (Some (Some QuicDialErr, []))"
    by (rule direct_tier.direct) (auto simp: d q relay_source_def intro!: SendFileWithOptions.intros(1))
  have "punch_tier zero_hash demo_crypto d queue_opts demo_queue_env (Some eng) no_files None"
    by (rule punch_tier.not_punched) (simp add: punched_def d)
  then have "DelivererSendFile ref_ops demo_relay_lib zero_hash demo_crypto d queue_opts demo_queue_env (Some eng) no_files demo_relay
      (map_option RelayTransferErr None, if (None :: relay_send_err option) = None then Some (Relayed, []) else None, s')"
    using key tier s' by (intro fallback) (auto simp: queue_opts_def failed_def d)
  then show ?thesis by auto
qed

lemma demo_delivers_by_relay:
  "\<exists>s'. node_deliver ref_ops demo_relay_lib zero_hash demo_crypto 5000000000 True demo_node busy_engine demo_queue_env no_files
     demo_relay ''bob'' demo_queued (None, Some (Relayed, []), s')"
proof -
  have ints: "in_int64 (unix 5000000000)" "in_int64 (unix (5000000000 + 86400000000000))"
    by (simp_all add: unix_def in_int64_def int64_min_def int64_max_def)
  obtain st where st: "IssueToken demo_crypto 5000000000 (demo_identity (CHR ''a'')) (replicate 32 (CHR ''a'')) ''f00d'' PermWrite 86400000000000 = Inr st"
    using identity_sign(1) [OF demo_laws(1) demo_identity(1)] by (simp add: IssueToken_def Let_def)
  have sk: "length (sp_SymmetricKey demo_space) = SpaceKeySize" by (simp add: demo_space_def SpaceKeySize_def)
  obtain k where k: "token_space (Some st) = ''f00d''" "DeriveTransferSessionKey demo_crypto (sp_SymmetricKey demo_space) st = Inr k" "length k = 32"
    using issued_session [OF st ints demo_laws(3) sk] by blast
  let ?auth = "(Some st, sp_SymmetricKey demo_space, ''bob'')"
  let ?d = "node_deliverer demo_node ''bob'' demo_payload ?auth"
  have auth: "loadTransferAuth demo_crypto 5000000000 True demo_node busy_engine demo_payload = Inr ?auth"
    using st demo_queued by (simp add: loadTransferAuth_def demo_node_def NewNode_def demo_space_def demo_identity(2))
  have d: "dl_Relay ?d = Some ''relay:9''" "dl_RecipientID ?d = ''bob''" "dl_AuthToken ?d = Some st" "dl_PeerAddr ?d \<noteq> []"
    "dl_Rendezvous ?d = False" "dl_SpaceKey ?d = sp_SymmetricKey demo_space"
    by (simp_all add: node_deliverer_def demo_node_def NewNode_def demo_queued)
  obtain s' where "DelivererSendFile ref_ops demo_relay_lib zero_hash demo_crypto ?d queue_opts demo_queue_env (Some busy_engine) no_files
      demo_relay (None, Some (Relayed, []), s')"
    using demo_relay_fallback [OF d(1-5), of k busy_engine] sk k by (auto simp: d(6))
  moreover have "opens_file demo_queue_env (payload_get demo_payload ''file_path'')"
    by (simp add: opens_file_def demo_queue_env_def demo_queued relay_source_def)
  ultimately show ?thesis using node_deliver.delivers [OF demo_queued(1) auth] by fastforce
qed

theorem self_issued_token_refused_witness:
  "\<exists>pth out s' res rv. node_deliver ref_ops demo_relay_lib zero_hash demo_crypto 5000000000 True demo_node busy_engine demo_queue_env no_files
      demo_relay ''bob'' demo_queued (None, Some (pth, out), s') \<and>
    ReceiveOnceWithOptions zero_hash demo_crypto (\<lambda>_. []) 5 (default_recv_opts\<lparr>ro_Identity := Some (demo_identity (CHR ''b''))\<rparr>) ''out''
      demo_conn (\<lambda>_. demo_recv_env) no_engine no_files (map Some out) = (res, rv) \<and> pth = Relayed"
proof -
  let ?ropts = "default_recv_opts\<lparr>ro_Identity := Some (demo_identity (CHR ''b''))\<rparr>"
  obtain s' where dl: "node_deliver ref_ops demo_relay_lib zero_hash demo_crypto 5000000000 True demo_node busy_engine demo_queue_env no_files
      demo_relay ''bob'' demo_queued (None, Some (Relayed, []), s')" using demo_delivers_by_relay by blast
  let ?run = "ReceiveOnceWithOptions zero_hash demo_crypto (\<lambda>_. []) 5 ?ropts ''out'' demo_conn (\<lambda>_. demo_recv_env) no_engine no_files (map Some [])"
  have "rv_sent (snd ?run) = []" by (simp add: ReceiveOnceWithOptions_def serverAuthHandshake_def new_receiver_def Let_def)
  then obtain res rv where recv: "?run = (res, rv)" "rv_sent rv = []" by (metis prod.collapse)
  have n: "nd_space demo_node = Some demo_space" "nd_identity demo_node = Some (demo_identity (CHR ''a''))"
    by (simp_all add: demo_node_def NewNode_def)
  have ints: "in_int64 (unix 5000000000)" "in_int64 (unix (5000000000 + 86400000000000))"
    by (simp_all add: unix_def in_int64_def int64_min_def int64_max_def)
  have you: "ro_Identity ?ropts = Some (demo_identity (CHR ''b''))" "PublicKey (demo_identity (CHR ''b'')) \<noteq> PublicKey (demo_identity (CHR ''a''))"
    by (simp_all add: demo_identity(2))
  have inp: "dv_in demo_queue_env Relayed = map Some (rv_sent rv)" by (simp add: recv(2) demo_queue_env_def)
  show ?thesis
    using self_issued_token_refused [OF dl demo_queued(1,2) n ints you inp recv(1)] dl recv(1) by blast
qed

lemma sealed_is_no_json: "unmarshal manifest_of_fields (CHR ''n'' # CHR ''n'' # r) = None"
  by (simp add: unmarshal_def json_parse_def parse_value.simps [of "CHR ''n'' # CHR ''n'' # r"] is_ws_def is_num_lit_def is_num_char_def is_digit_def)

theorem node_poll_loses_encrypted_witness:
  "\<exists>s' s2. DelivererSendFile ref_ops demo_relay_lib zero_hash demo_crypto demo_relayer (demo_deliver_opts True) demo_deliver_env no_engine no_files
      demo_relay (None, Some (Relayed, []), s') \<and>
    node_poll ref_ops demo_relay_lib demo_crypto demo_relay_recv (demo_node\<lparr>nd_cfg := (nd_cfg demo_node)\<lparr>nc_PeerID := ''bob''\<rparr>\<rparr>) no_files s' =
      (Inl ManifestParseErr, no_files, s2) \<and> inbox ref_ops demo_relay_lib s2 ''bob'' = []"
proof -
  note r = demo_relayed
  let ?n = "demo_node\<lparr>nd_cfg := (nd_cfg demo_node)\<lparr>nc_PeerID := ''bob''\<rparr>\<rparr>"
  obtain s' where s': "DelivererSendFile ref_ops demo_relay_lib zero_hash demo_crypto demo_relayer (demo_deliver_opts True) demo_deliver_env
      no_engine no_files demo_relay (None, Some (Relayed, []), s')" using demo_relay_delivers by blast
  have ne: "relayKey demo_relayer [] \<noteq> []" by (simp add: r(4))
  have sealed: "seals_opaquely demo_crypto (pe_rnd (dv_manifest demo_deliver_env)) (relayKey demo_relayer [])"
    unfolding seals_opaquely_def
  proof (intro allI impI)
    fix m c assume "ProtectChunk demo_crypto (pe_rnd (dv_manifest demo_deliver_env)) (relayKey demo_relayer []) (marshal manifest_fields m) = Inr c"
    then have "c = replicate 12 (CHR ''n'') @ aes_seal demo_crypto (replicate 32 (CHR ''k'')) (replicate 12 (CHR ''n'')) (marshal manifest_fields m)"
      by (simp add: r(4) ProtectChunk_def SpaceKeySize_def Encrypt_def demo_deliver_env_def demo_push_env_def)
    then show "unmarshal manifest_of_fields c = None" using sealed_is_no_json by (simp add: numeral_eq_Suc)
  qed
  have n: "nc_PeerID (nd_cfg ?n) = ''bob''" "nd_relay ?n \<noteq> None" by (simp_all add: demo_node_def NewNode_def)
  have renv: "ve_mkdir demo_relay_recv" "ve_commit demo_relay_recv" "link_up (ve_link demo_relay_recv)"
    using demo_relay_facts(1) by (simp_all add: demo_relay_recv_def)
  obtain s2 where s2: "node_poll ref_ops demo_relay_lib demo_crypto demo_relay_recv ?n no_files s' = (Inl ManifestParseErr, no_files, s2)"
    "inbox ref_ops demo_relay_lib s2 = inbox ref_ops demo_relay_lib demo_relay"
    using node_poll_loses_encrypted [where fs = no_files,
        OF s' r(3,5) ne r(6) ref.kv_reliable_axioms demo_relay_facts(2) r(1,2,7,8,9,10,11) sealed n renv] by blast
  have "inbox ref_ops demo_relay_lib s2 ''bob'' = []" by (simp only: s2(2) r(1))
  then show ?thesis using s' s2(1) by blast
qed

end
