(* ===== verification/Cli.thy ===== *)
theory Cli
  imports Node
begin

text \<open>
  \<open>cmd/vault\<close>: what the commands do; the theory \<open>Commands\<close> adds their output and exit status. A command takes the flags
  (\<open>cli_flags\<close>), the opened engine and what it meets, and returns the outcome that it prints with the state it
  leaves; \<open>vault send\<close> is a relation, since the delivery in it is one. \<open>vault queue retry\<close> is a state of
  the coordinator with two goroutines.
  \<open>vault receive\<close> is the function \<open>receive_cmd\<close>, which the root theory runs against \<open>vault send\<close>.

  Lemmas: a queued transfer is retried with everything it was sent with but the relay, \<open>vault send\<close> leaves the log as the
  outcome says, a queued token expires, a retry may send a file twice, an invite is for anybody.
\<close>

section \<open>Flags and storage\<close>

record cli_flags =
  fl_relay :: string
  fl_identity :: string
  fl_space :: string
  fl_recipientPubkey :: string
  fl_recipientID :: string
  fl_parallel :: int
  fl_resume :: bool

definition initEngine ::
  "('m, bytes) bucket_ops \<Rightarrow> 'm init_env \<Rightarrow> string \<Rightarrow> string \<Rightarrow> string \<Rightarrow> node_err + 'm engine" where
  "initEngine W env dbp walp chunkp =
     (if \<not> nv_dirs env (path_dir dbp) \<or> \<not> nv_dirs env (path_dir walp) then Inl NodeDirErr
      else case engine_Init W (nv_sqlite env) (nv_schema env) (nv_tables env) (nv_bolt env) (NewEngineWithChunkDir dbp walp chunkp) of
          (Some e, _) \<Rightarrow> Inl (NodeEngineErr e)
        | (None, eng) \<Rightarrow> Inr eng)"

definition optionalRelayClient :: "cli_flags \<Rightarrow> string option" where
  "optionalRelayClient fl = (if fl_relay fl = [] then None else Some (fl_relay fl))"

section \<open>vault send\<close>

datatype build_err = BuildIdentityErr identity_err | BuildSpaceErr space_err | BuildKeyErr crypto_err | BuildTokenErr crypto_err

definition send_base :: "cli_flags \<Rightarrow> string \<Rightarrow> string \<Rightarrow> payload" where
  "send_base fl filePath peerAddr =
     [(''file_path'', filePath), (''peer_addr'', peerAddr)] @
     (if fl_recipientID fl \<noteq> [] then [(''recipient_id'', fl_recipientID fl)] else [])"

definition buildSendPayload ::
  "crypto_ops \<Rightarrow> identity_env \<Rightarrow> int \<Rightarrow> bool \<Rightarrow> cli_flags \<Rightarrow> 'm engine \<Rightarrow> files \<Rightarrow> string \<Rightarrow> string
     \<Rightarrow> (build_err + payload \<times> signed_token option \<times> bytes) \<times> files" where
  "buildSendPayload C ie now drv fl eng fs filePath peerAddr =
     (if fl_space fl = [] then (Inr (send_base fl filePath peerAddr, None, []), fs)
      else case loadOrGenerateIdentity C ie (fl_identity fl) fs of
          (Inl e, fs1) \<Rightarrow> (Inl (BuildIdentityErr e), fs1)
        | (Inr me, fs1) \<Rightarrow>
            (case GetSpace drv eng (fl_space fl) of
               Inl e \<Rightarrow> (Inl (BuildSpaceErr e), fs1)
             | Inr (sp, _) \<Rightarrow>
                 (case (if fl_recipientPubkey fl = [] then Inr (PublicKey me) else decodeKey (fl_recipientPubkey fl)) of
                    Inl e \<Rightarrow> (Inl (BuildKeyErr e), fs1)
                  | Inr grantee \<Rightarrow>
                      (case IssueToken C now me grantee (sp_ID sp) PermWrite (24 * 3600 * 1000000000) of
                         Inl e \<Rightarrow> (Inl (BuildTokenErr e), fs1)
                       | Inr tok \<Rightarrow>
                           (Inr (send_base fl filePath peerAddr @ [(''auth_token'', MarshalToken tok), (''space_id'', sp_ID sp)],
                              Some tok, sp_SymmetricKey sp), fs1)))))"

definition send_deliverer :: "cli_flags \<Rightarrow> string \<Rightarrow> signed_token option \<Rightarrow> bytes \<Rightarrow> deliverer" where
  "send_deliverer fl peerAddr tok key =
     \<lparr>dl_Relay = optionalRelayClient fl, dl_Rendezvous = False, dl_AuthToken = tok, dl_SpaceKey = key, dl_PeerAddr = peerAddr,
      dl_RecipientID = (if fl_recipientID fl = [] then peerAddr else fl_recipientID fl)\<rparr>"

definition send_deliver_opts :: "cli_flags \<Rightarrow> deliver_opts" where
  "send_deliver_opts fl = \<lparr>do_Parallelism = fl_parallel fl, do_Resume = fl_resume fl, do_ForceRelay = False\<rparr>"

datatype send_outcome = SendNotPrepared build_err | SendNotQueued wal_err | SendWillRetry deliver_err | SendCompleted

text \<open>
  The command after \<open>initEngine\<close> and before the deferred \<open>Close\<close>. The delivery may add chunks to the tables of the engine, so the engine
  afterwards is any one with the same log; \<open>t1\<close> and \<open>t2\<close> are the Unix times of the two writes to the log. Beside the
  outcome it gives the lines that the deliverer has logged.
\<close>

inductive send_cmd ::
  "('m, bytes) bucket_ops \<Rightarrow> ('r, bytes) bucket_ops \<Rightarrow> 'r relay_lib \<Rightarrow> (bytes \<Rightarrow> bytes) \<Rightarrow> crypto_ops \<Rightarrow> cli_flags \<Rightarrow> identity_env \<Rightarrow> int \<Rightarrow> int
     \<Rightarrow> int \<Rightarrow> bool \<Rightarrow> deliver_env \<Rightarrow> string \<Rightarrow> string \<Rightarrow> 'm engine \<Rightarrow> files \<Rightarrow> 'r relay_server \<Rightarrow> send_outcome \<times> deliver_log list \<times> 'm engine \<times> 'r relay_server
     \<Rightarrow> bool"
  for W B L bl C fl ie now t1 t2 drv env filePath peerAddr eng fs s where
  not_prepared: "buildSendPayload C ie now drv fl eng fs filePath peerAddr = (Inl e, fs1) \<Longrightarrow>
    send_cmd W B L bl C fl ie now t1 t2 drv env filePath peerAddr eng fs s (SendNotPrepared e, [], eng, s)"
| not_queued: "buildSendPayload C ie now drv fl eng fs filePath peerAddr = (Inr (p, tok, key), fs1) \<Longrightarrow>
    api_enqueue (engine_api W) t1 eng peerAddr ''send_file'' (Some (marshal payload_fields p)) = (Inl e, eng1) \<Longrightarrow>
    send_cmd W B L bl C fl ie now t1 t2 drv env filePath peerAddr eng fs s (SendNotQueued e, [], eng1, s)"
| will_retry: "buildSendPayload C ie now drv fl eng fs filePath peerAddr = (Inr (p, tok, key), fs1) \<Longrightarrow>
    api_enqueue (engine_api W) t1 eng peerAddr ''send_file'' (Some (marshal payload_fields p)) = (Inr entry, eng1) \<Longrightarrow>
    opens_file env filePath \<Longrightarrow>
    deliver_logged B L bl C (send_deliverer fl peerAddr tok key) (send_deliver_opts fl) env (Some eng1) fs1 s logs
      (Some e, via, s') \<Longrightarrow>
    en_bolt eng2 = en_bolt eng1 \<Longrightarrow>
    send_cmd W B L bl C fl ie now t1 t2 drv env filePath peerAddr eng fs s (SendWillRetry e, logs, eng2, s')"
| completed: "buildSendPayload C ie now drv fl eng fs filePath peerAddr = (Inr (p, tok, key), fs1) \<Longrightarrow>
    api_enqueue (engine_api W) t1 eng peerAddr ''send_file'' (Some (marshal payload_fields p)) = (Inr entry, eng1) \<Longrightarrow>
    opens_file env filePath \<Longrightarrow>
    deliver_logged B L bl C (send_deliverer fl peerAddr tok key) (send_deliver_opts fl) env (Some eng1) fs1 s logs
      (None, via, s') \<Longrightarrow>
    en_bolt eng2 = en_bolt eng1 \<Longrightarrow>
    api_done (engine_api W) t2 eng2 (we_ID entry) = (r3, eng3) \<Longrightarrow>
    api_delete (engine_api W) eng3 (we_ID entry) = (r4, eng4) \<Longrightarrow>
    send_cmd W B L bl C fl ie now t1 t2 drv env filePath peerAddr eng fs s (SendCompleted, logs, eng4, s')"

section \<open>vault queue retry\<close>

definition authFromPayload :: "bool \<Rightarrow> 'm engine \<Rightarrow> payload \<Rightarrow> auth_err + (signed_token option \<times> bytes)" where
  "authFromPayload drv eng p =
     (if payload_get p ''auth_token'' \<noteq> [] then
        (case UnmarshalToken (payload_get p ''auth_token'') of
           Inl e \<Rightarrow> Inl (AuthTokenErr e)
         | Inr tok \<Rightarrow>
             (case GetSpace drv eng (if payload_get p ''space_id'' = [] then token_space (Some tok) else payload_get p ''space_id'') of
                Inl e \<Rightarrow> Inl (AuthSpaceErr e)
              | Inr (sp, _) \<Rightarrow> Inr (Some tok, sp_SymmetricKey sp)))
      else Inr (None, []))"

definition retry_deliverer :: "string option \<Rightarrow> string \<Rightarrow> payload \<Rightarrow> signed_token option \<times> bytes \<Rightarrow> deliverer" where
  "retry_deliverer relayClient peerID p auth =
     (let peerAddr = (if payload_get p ''peer_addr'' = [] then peerID else payload_get p ''peer_addr'') in
      \<lparr>dl_Relay = relayClient, dl_Rendezvous = False, dl_AuthToken = fst auth, dl_SpaceKey = snd auth, dl_PeerAddr = peerAddr,
       dl_RecipientID = (if payload_get p ''recipient_id'' = [] then peerAddr else payload_get p ''recipient_id'')\<rparr>)"

text \<open>\<open>makeDeliverFn\<close>.\<close>

inductive retry_deliver ::
  "('r, bytes) bucket_ops \<Rightarrow> 'r relay_lib \<Rightarrow> (bytes \<Rightarrow> bytes) \<Rightarrow> crypto_ops \<Rightarrow> bool \<Rightarrow> string option \<Rightarrow> 'm engine \<Rightarrow> deliver_env \<Rightarrow> files
     \<Rightarrow> 'r relay_server \<Rightarrow> string \<Rightarrow> wal_entry \<Rightarrow> deliver_fn_err option \<times> (path \<times> packet list) option \<times> 'r relay_server \<Rightarrow> bool"
  for B L bl C drv relayClient eng env fs s peerID entry where
  bad_payload: "entry_payload (we_Payload entry) = None \<Longrightarrow>
    retry_deliver B L bl C drv relayClient eng env fs s peerID entry (Some BadPayload, None, s)"
| no_auth: "entry_payload (we_Payload entry) = Some p \<Longrightarrow> authFromPayload drv eng p = Inl e \<Longrightarrow>
    retry_deliver B L bl C drv relayClient eng env fs s peerID entry (Some (DeliverAuthErr e), None, s)"
| delivers: "entry_payload (we_Payload entry) = Some p \<Longrightarrow> authFromPayload drv eng p = Inr auth \<Longrightarrow>
    opens_file env (payload_get p ''file_path'') \<Longrightarrow>
    DelivererSendFile B L bl C (retry_deliverer relayClient peerID p auth) queue_opts env (Some eng) fs s (r, via, s') \<Longrightarrow>
    retry_deliver B L bl C drv relayClient eng env fs s peerID entry (map_option DeliveryErr r, via, s')"

text \<open>The command: \<open>MarkOnline\<close>, whose drain runs in its own goroutine, then \<open>DrainPeer\<close>.\<close>

definition queue_retry :: "string \<Rightarrow> 's cstate \<Rightarrow> 's cstate" where
  "queue_retry peer c = (let c1 = MarkOnline peer c in c1\<lparr>cs_threads := cs_threads c1 @ [FetchPeer peer]\<rparr>)"

section \<open>vault receive and vault share\<close>

definition receive_opts :: "cli_flags \<Rightarrow> bool \<Rightarrow> bool \<Rightarrow> identity \<Rightarrow> bytes \<Rightarrow> recv_opts" where
  "receive_opts fl resume requireAuth me spaceKey =
     \<lparr>ro_Resume = resume, ro_RequireAuth = requireAuth \<or> fl_space fl \<noteq> [], ro_Identity = Some me, ro_SpaceKey = spaceKey\<rparr>"

datatype command_err = CmdIdentityErr identity_err | CmdSpaceErr space_err | CmdCryptoErr crypto_err | CmdSqlErr sql_err
  | CmdWalErr wal_err | CmdReceiveErr receive_err

definition receive_cmd ::
  "(bytes \<Rightarrow> bytes) \<Rightarrow> crypto_ops \<Rightarrow> (crypto_err \<Rightarrow> string) \<Rightarrow> identity_env \<Rightarrow> int \<Rightarrow> bool \<Rightarrow> cli_flags \<Rightarrow> bool \<Rightarrow> bool \<Rightarrow> string \<Rightarrow> conn_env
     \<Rightarrow> (nat \<Rightarrow> recv_env) \<Rightarrow> 'm engine \<Rightarrow> files \<Rightarrow> instream \<Rightarrow> command_err option \<times> files" where
  "receive_cmd bl C txt ie now drv fl resume requireAuth dir cv envs eng fs inp =
     (case loadOrGenerateIdentity C ie (fl_identity fl) fs of
        (Inl e, fs1) \<Rightarrow> (Some (CmdIdentityErr e), fs1)
      | (Inr me, fs1) \<Rightarrow>
          (case (if fl_space fl = [] then Inr [] else case GetSpace drv eng (fl_space fl) of Inl e \<Rightarrow> Inl e | Inr (sp, _) \<Rightarrow> Inr (sp_SymmetricKey sp)) of
             Inl e \<Rightarrow> (Some (CmdSpaceErr e), fs1)
           | Inr key \<Rightarrow>
               (let (r, rv) = ReceiveOnceWithOptions bl C txt now (receive_opts fl resume requireAuth me key) dir cv envs (Some eng) fs1 inp
                in (map_option CmdReceiveErr r, rv_fs rv))))"

definition share_create ::
  "crypto_ops \<Rightarrow> identity_env \<Rightarrow> (nat \<Rightarrow> bytes option) \<Rightarrow> (nat \<Rightarrow> bytes option) \<Rightarrow> int \<Rightarrow> bool \<Rightarrow> cli_flags \<Rightarrow> string \<Rightarrow> 'm engine \<Rightarrow> files
     \<Rightarrow> (command_err + space) \<times> 'm engine \<times> files" where
  "share_create C ie rnd1 rnd2 now drv fl spaceName eng fs =
     (case loadOrGenerateIdentity C ie (fl_identity fl) fs of
        (Inl e, fs1) \<Rightarrow> (Inl (CmdIdentityErr e), eng, fs1)
      | (Inr me, fs1) \<Rightarrow>
          (case NewSpace rnd1 rnd2 now spaceName of
             Inl e \<Rightarrow> (Inl (CmdCryptoErr e), eng, fs1)
           | Inr sp \<Rightarrow>
               (case SaveSpace drv eng sp (hex_encode (PublicKey me)) of
                  (Some e, eng1) \<Rightarrow> (Inl (CmdSqlErr e), eng1, fs1)
                | (None, eng1) \<Rightarrow> (Inr sp, eng1, fs1))))"

definition share_invite ::
  "crypto_ops \<Rightarrow> identity_env \<Rightarrow> int \<Rightarrow> bool \<Rightarrow> cli_flags \<Rightarrow> string \<Rightarrow> string \<Rightarrow> 'm engine \<Rightarrow> files \<Rightarrow> (command_err + bytes) \<times> files" where
  "share_invite C ie now drv fl sid granteeHex eng fs =
     (case loadOrGenerateIdentity C ie (fl_identity fl) fs of
        (Inl e, fs1) \<Rightarrow> (Inl (CmdIdentityErr e), fs1)
      | (Inr issuer, fs1) \<Rightarrow>
          (case decodeKey granteeHex of
             Inl e \<Rightarrow> (Inl (CmdCryptoErr e), fs1)
           | Inr granteeKey \<Rightarrow>
               (case GetSpace drv eng sid of
                  Inl e \<Rightarrow> (Inl (CmdSpaceErr e), fs1)
                | Inr (sp, _) \<Rightarrow>
                    (case CreateInvite C now issuer sp PermWrite (24 * 3600 * 1000000000) of
                       Inl e \<Rightarrow> (Inl (CmdCryptoErr e), fs1)
                     | Inr invite \<Rightarrow> (Inr (MarshalInvite invite), fs1)))))"

section \<open>Listings\<close>

text \<open>\<open>vault queue list\<close>: the columns; the last one is a time of the entry.\<close>

definition queue_list :: "('m, bytes) bucket_ops \<Rightarrow> 'm engine \<Rightarrow> command_err + (string \<times> string \<times> string \<times> int \<times> int) list" where
  "queue_list W eng = (case GetAllPendingEntries W (en_bolt eng) of
     (_, Some e) \<Rightarrow> Inl (CmdWalErr e)
   | (es, None) \<Rightarrow> Inr (map (\<lambda>e. (we_ID e, we_PeerID e, we_Op e, we_Retries e, we_CreatedAt e)) es))"

definition ellipsis :: string where
  "ellipsis = [CHR 0xE2, CHR 0x80, CHR 0xA6]"

text \<open>\<open>s[:max-1]\<close> cuts bytes.\<close>

definition truncate_to :: "string \<Rightarrow> nat \<Rightarrow> string" where
  "truncate_to s k = (if length s \<le> k then s else take (k - 1) s @ ellipsis)"

text \<open>
  \<open>vault peers list\<close>: one row for each peer of the log, with the stored address and latency; \<open>order\<close> is the
  order in which Go iterates over the map.
\<close>

definition peers_list ::
  "('m, bytes) bucket_ops \<Rightarrow> bool \<Rightarrow> (string list \<Rightarrow> string list) \<Rightarrow> 'm engine \<Rightarrow> command_err + (string \<times> string \<times> string) list" where
  "peers_list W drv order eng = (case GetAllPendingEntries W (en_bolt eng) of
     (_, Some e) \<Rightarrow> Inl (CmdWalErr e)
   | (es, None) \<Rightarrow>
       Inr (map (\<lambda>i.
         let (addrs, latency) = (case Sqlite.GetPeer drv (en_sqlite eng) i of Inl _ \<Rightarrow> (''(not stored)'', -1) | Inr r \<Rightarrow> snd r);
             lat = (if latency < 0 then [CHR 0xE2, CHR 0x80, CHR 0x94] else fmt_int latency @ '' ms'')
         in (truncate_to i 36, truncate_to addrs 30, lat)) (order (remdups (map we_PeerID es)))))"

definition status_relay :: "string \<Rightarrow> bool \<Rightarrow> string" where
  "status_relay relayAddr reachable =
     (let text = (if relayAddr = [] then ''not configured''
            else if reachable then [CHR 0xE2, CHR 0x9C, CHR 0x93] @ '' reachable ('' @ relayAddr @ '')''
            else [CHR 0xE2, CHR 0x9C, CHR 0x97] @ '' unreachable ('' @ relayAddr @ '')'')
      in if length text > 25 then take 24 text @ ellipsis else text)"

text \<open>\<open>vault status\<close>: identity, number of pending entries, relay and database.\<close>

definition status_cmd ::
  "('m, bytes) bucket_ops \<Rightarrow> crypto_ops \<Rightarrow> identity_env \<Rightarrow> cli_flags \<Rightarrow> bool \<Rightarrow> string \<Rightarrow> 'm engine \<Rightarrow> files
     \<Rightarrow> (command_err + string \<times> nat \<times> string \<times> string) \<times> files" where
  "status_cmd W C ie fl reachable dbp eng fs =
     (case loadOrGenerateIdentity C ie (fl_identity fl) fs of
        (Inl e, fs1) \<Rightarrow> (Inl (CmdIdentityErr e), fs1)
      | (Inr me, fs1) \<Rightarrow>
          (case GetAllPendingEntries W (en_bolt eng) of
             (_, Some e) \<Rightarrow> (Inl (CmdWalErr e), fs1)
           | (es, None) \<Rightarrow>
               (let pub = hex_encode (PublicKey me); short = (if length pub > 16 then take 16 pub @ ellipsis else pub)
                in (Inr (short, length es, status_relay (fl_relay fl) reachable, truncate_to dbp 25), fs1))))"

section \<open>vault run, vault relay, vault rendezvous and the pings\<close>

text \<open>\<open>vault run\<close> up to the call of \<open>Run\<close>: the node it makes, none without a name for the peer.\<close>

definition run_cmd :: "node_config \<Rightarrow> 'm node option" where
  "run_cmd flags =
     (if nc_PeerID flags = [] then None
      else Some (NewNode (flags\<lparr>nc_OutputDir := (if nc_OutputDir flags = [] then ''data/inbox'' else nc_OutputDir flags)\<rparr>)))"

definition relay_serve :: "string \<Rightarrow> 'r relay_server" where
  "relay_serve listenAddr = NewRelayServer listenAddr ''data/relay.db'' (24 * 3600 * 1000000000)"

datatype rendezvous_outcome = NoServerFlag | RendezvousFailed rv_err | PeerUnknown | PeerRegistered | PeerAt string

definition rendezvous_register ::
  "web_lib \<Rightarrow> bool \<Rightarrow> int \<Rightarrow> string \<Rightarrow> string \<Rightarrow> string \<Rightarrow> rv_server \<Rightarrow> rendezvous_outcome \<times> rv_server" where
  "rendezvous_register W up now server peerID addr s =
     (if server = [] then (NoServerFlag, s)
      else case client_Register W up now peerID addr s of
          (Some e, s') \<Rightarrow> (RendezvousFailed e, s')
        | (None, s') \<Rightarrow> (PeerRegistered, s'))"

definition rendezvous_lookup :: "web_lib \<Rightarrow> bool \<Rightarrow> int \<Rightarrow> string \<Rightarrow> string \<Rightarrow> rv_server \<Rightarrow> rendezvous_outcome" where
  "rendezvous_lookup W up now server peerID s =
     (if server = [] then NoServerFlag
      else case client_Lookup W up now peerID s of
          Inl e \<Rightarrow> RendezvousFailed e
        | Inr addr \<Rightarrow> if addr = [] then PeerUnknown else PeerAt addr)"

text \<open>\<open>vault peers ping\<close>: \<open>dial\<close> is whether \<open>net.Dialer\<close> connects over a network.\<close>

definition peers_ping :: "(string \<Rightarrow> bool) \<Rightarrow> bool" where
  "peers_ping dial = (if dial ''udp'' then True else dial ''tcp'')"

text \<open>The size that the last line of the progress shows.\<close>

definition fileSize :: "files \<Rightarrow> (string \<Rightarrow> bool) \<Rightarrow> string \<Rightarrow> int" where
  "fileSize fs stat path = (if stat path then (case fs path of None \<Rightarrow> 0 | Some b \<Rightarrow> int (length b)) else 0)"

section \<open>A queued transfer is the transfer that was sent\<close>

lemma send_payload:
  assumes "buildSendPayload C ie now drv fl eng fs filePath peerAddr = (Inr (p, tok, key), fs1)"
  shows "distinct (map fst p)" "payload_get p ''file_path'' = filePath" "payload_get p ''peer_addr'' = peerAddr"
    "payload_get p ''recipient_id'' = fl_recipientID fl"
    "if fl_space fl = [] then tok = None \<and> key = [] \<and> payload_get p ''auth_token'' = []
     else \<exists>st sp owner me grantee. tok = Some st \<and> GetSpace drv eng (fl_space fl) = Inr (sp, owner) \<and> key = sp_SymmetricKey sp \<and>
       IssueToken C now me grantee (fl_space fl) PermWrite 86400000000000 = Inr st \<and>
       payload_get p ''auth_token'' = MarshalToken st \<and> payload_get p ''space_id'' = fl_space fl"
proof -
  have sid: "sp_ID sp = i" if "GetSpace drv eng i = Inr (sp, owner)" for sp owner i
    using that by (auto simp: GetSpace_def split: sum.splits sql_err.splits option.splits if_splits)
  note d = send_base_def payload_get_def
  have "p = send_base fl filePath peerAddr \<and> tok = None \<and> key = []" if "fl_space fl = []"
    using assms that by (simp add: buildSendPayload_def)
  then have plain: "p = send_base fl filePath peerAddr" "tok = None" "key = []" if "fl_space fl = []" using that by blast+
  have spaced: "\<exists>st sp owner me grantee. p = send_base fl filePath peerAddr @ [(''auth_token'', MarshalToken st), (''space_id'', fl_space fl)] \<and>
      tok = Some st \<and> key = sp_SymmetricKey sp \<and> GetSpace drv eng (fl_space fl) = Inr (sp, owner) \<and>
      IssueToken C now me grantee (fl_space fl) PermWrite 86400000000000 = Inr st" if ne: "fl_space fl \<noteq> []"
  proof -
    obtain st sp owner me grantee where "p = send_base fl filePath peerAddr @ [(''auth_token'', MarshalToken st), (''space_id'', sp_ID sp)]"
      "tok = Some st" "key = sp_SymmetricKey sp" "GetSpace drv eng (fl_space fl) = Inr (sp, owner)"
      "IssueToken C now me grantee (sp_ID sp) PermWrite 86400000000000 = Inr st"
      using assms ne by (auto simp: buildSendPayload_def split: prod.splits sum.splits if_splits)
    then show ?thesis using sid by fastforce
  qed
  consider (none) "fl_space fl = []" "p = send_base fl filePath peerAddr"
    | (some) st where "fl_space fl \<noteq> []" "p = send_base fl filePath peerAddr @ [(''auth_token'', MarshalToken st), (''space_id'', fl_space fl)]"
    using plain spaced by blast
  then show "distinct (map fst p)" "payload_get p ''file_path'' = filePath" "payload_get p ''peer_addr'' = peerAddr"
    "payload_get p ''recipient_id'' = fl_recipientID fl"
    by (cases; simp add: d)+
  show "if fl_space fl = [] then tok = None \<and> key = [] \<and> payload_get p ''auth_token'' = []
     else \<exists>st sp owner me grantee. tok = Some st \<and> GetSpace drv eng (fl_space fl) = Inr (sp, owner) \<and> key = sp_SymmetricKey sp \<and>
       IssueToken C now me grantee (fl_space fl) PermWrite 86400000000000 = Inr st \<and>
       payload_get p ''auth_token'' = MarshalToken st \<and> payload_get p ''space_id'' = fl_space fl"
  proof (cases "fl_space fl = []")
    case True
    then show ?thesis using plain by (simp add: d)
  next
    case False
    have "payload_get (send_base fl filePath peerAddr @ [(''auth_token'', v), (''space_id'', w)]) ''auth_token'' = v"
      "payload_get (send_base fl filePath peerAddr @ [(''auth_token'', v), (''space_id'', w)]) ''space_id'' = w" for v w
      by (simp_all add: d)
    then show ?thesis using spaced False by (simp only: if_False) blast
  qed
qed

text \<open>The payload of arguments that are valid UTF-8 is so: the rest of it is ASCII.\<close>

lemma send_payload_utf8:
  assumes send: "buildSendPayload C ie now drv fl eng fs filePath peerAddr = (Inr (p, tok, key), fs1)"
    and utf8: "utf8_valid filePath" "utf8_valid peerAddr" "utf8_valid (fl_recipientID fl)" "utf8_valid (fl_space fl)"
  shows "payload_utf8 p"
proof -
  have sid: "sp_ID sp = i" if "GetSpace drv eng i = Inr (sp, owner)" for sp owner i
    using that by (auto simp: GetSpace_def split: sum.splits sql_err.splits option.splits if_splits)
  have names: "utf8_valid ''file_path''" "utf8_valid ''peer_addr''" "utf8_valid ''recipient_id''" "utf8_valid ''auth_token''" "utf8_valid ''space_id''"
    by code_simp+
  have base: "payload_utf8 (send_base fl filePath peerAddr)" using utf8 names by (simp add: payload_utf8_def send_base_def)
  show ?thesis
  proof (cases "fl_space fl = []")
    case True
    then show ?thesis using send base by (simp add: buildSendPayload_def)
  next
    case False
    then obtain st sp owner me grantee where "p = send_base fl filePath peerAddr @ [(''auth_token'', MarshalToken st), (''space_id'', sp_ID sp)]"
      "GetSpace drv eng (fl_space fl) = Inr (sp, owner)" "IssueToken C now me grantee (sp_ID sp) PermWrite 86400000000000 = Inr st"
      using send by (auto simp: buildSendPayload_def split: prod.splits sum.splits if_splits)
    moreover have "utf8_valid (MarshalToken st)" using calculation(3) by (intro ascii_utf8 token_text_ascii)
    ultimately show ?thesis using base utf8(4) sid names by (simp add: payload_utf8_def)
  qed
qed

text \<open>
  C23. What \<open>vault send\<close> could not deliver is retried as it was sent: from the entry as the log gives it back,
  the delivery function of \<open>vault queue retry\<close> recovers the file, and the same deliverer, with token, space
  key, address and recipient, as long as the space is still in the database with the same key. The relay is not in the payload: it
  is whatever the retry's own flag names. Condition: the path, the address, the recipient and the name of
  the space are valid UTF-8 (other bytes are replaced when the payload is written).
\<close>

theorem queued_send_recovered:
  assumes "wal_bucket W" "engine_inv W eng" "in_int64 t"
    and send: "buildSendPayload C ie now True fl eng fs filePath peerAddr = (Inr (p, tok, key), fs1)"
    and utf8: "utf8_valid filePath" "utf8_valid peerAddr" "utf8_valid (fl_recipientID fl)" "utf8_valid (fl_space fl)"
    and queue: "api_enqueue (engine_api W) t eng peerAddr ''send_file'' (Some (marshal payload_fields p)) = (Inr e, eng1)"
    and space: "GetSpace True eng2 (fl_space fl) = GetSpace True eng (fl_space fl)"
  shows "canon_entry e \<in> set (engine_log W eng1) \<and>
    (\<exists>q. entry_payload (we_Payload (canon_entry e)) = Some q \<and> payload_get q ''file_path'' = filePath \<and>
       authFromPayload True eng2 q = Inr (tok, key) \<and>
       (\<forall>relayClient. retry_deliverer relayClient (we_PeerID (canon_entry e)) q (tok, key) =
          (send_deliverer fl peerAddr tok key)\<lparr>dl_Relay := relayClient\<rparr>))"
proof -
  note b = send_payload [OF send]
  have e: "canon_entry e \<in> set (engine_log W eng1)" "we_PeerID e = peerAddr" "we_Payload e = Some (marshal payload_fields p)"
    using wal_engine.enqueue_Inr [OF engine_wal [OF assms(1)] queue assms(2,3)] by auto
  then have e': "e = e\<lparr>we_Payload := Some (marshal payload_fields p)\<rparr>" by (cases e) simp
  let ?q = "sort_key fst p"
  have get: "payload_get ?q k = payload_get p k" for k by (rule payload_stored(3) [OF b(1)])
  have "entry_payload (we_Payload (canon_entry e)) = Some ?q"
    by (subst e') (rule payload_stored(2) [OF b(1) send_payload_utf8 [OF send utf8]])
  moreover have "authFromPayload True eng2 ?q = Inr (tok, key)"
  proof (cases "fl_space fl = []")
    case True
    then show ?thesis using b(5) by (simp add: authFromPayload_def get)
  next
    case False
    then obtain st sp owner where s: "tok = Some st" "GetSpace True eng2 (fl_space fl) = Inr (sp, owner)" "key = sp_SymmetricKey sp"
      "payload_get p ''auth_token'' = MarshalToken st" "payload_get p ''space_id'' = fl_space fl" using b(5) space by auto
    have "UnmarshalToken (MarshalToken st) = Inr st" "MarshalToken st \<noteq> []"
      by (simp_all add: UnmarshalToken_def MarshalToken_def signed_json.unmarshal_marshal last_marshal)
    then show ?thesis using s False by (simp add: authFromPayload_def get)
  qed
  moreover have "retry_deliverer relayClient (we_PeerID (canon_entry e)) ?q (tok, key) = (send_deliverer fl peerAddr tok key)\<lparr>dl_Relay := relayClient\<rparr>"
    for relayClient using e(2) by (simp add: retry_deliverer_def send_deliverer_def get b)
  ultimately show ?thesis using e(1) b(2) get by auto
qed

section \<open>The log after a send\<close>

text \<open>
  \<open>vault send\<close> leaves the log as its outcome says. Completed: the log has the entries it had before. To be
  retried: exactly one entry more, pending, with no retry counted, for the address that was given. Not
  prepared or not queued: nothing has changed.
\<close>

theorem send_settles_queue:
  assumes W: "wal_bucket_reliable W" and inv: "engine_inv W eng" and t: "in_int64 t1" "in_int64 t2"
    and send: "send_cmd W B L bl C fl ie now t1 t2 drv env filePath peerAddr eng fs s (oc, logs, eng', s')"
  shows "engine_inv W eng' \<and> (case oc of
      SendCompleted \<Rightarrow> set (engine_log W eng') = set (engine_log W eng)
    | SendWillRetry _ \<Rightarrow> (\<exists>e. set (engine_log W eng') = insert e (set (engine_log W eng)) \<and> we_ID e \<notin> we_ID ` set (engine_log W eng) \<and>
        we_PeerID e = peerAddr \<and> we_Status e = WALStatusPending \<and> we_Retries e = 0)
    | _ \<Rightarrow> eng' = eng)"
proof -
  have wb: "wal_bucket W" using W by (simp add: wal_bucket_reliable_def)
  note wal = engine_wal [OF wb] and rel = engine_wal_reliable [OF W]
  note same = engine_inv_def engine_log_def engine_used_def Engine.engine_ready_def
  show ?thesis
    using send
  proof cases
    case (not_queued p tok key fs1 e)
    then show ?thesis using inv wal_engine.enqueue_Inl [OF wal not_queued(5)] by simp
  next
    case (will_retry p tok key fs1 entry eng1 e via)
    have q: "engine_inv W eng1" "set (engine_log W eng1) = insert (canon_entry entry) (set (engine_log W eng))" "we_ID entry \<notin> engine_used W eng"
      "we_PeerID entry = peerAddr" "we_Status entry = WALStatusPending" "we_Retries entry = 0"
      using wal_engine.enqueue_Inr [OF wal will_retry(3) inv t(1)] by blast+
    have e: "engine_inv W eng' = engine_inv W eng1" "engine_log W eng' = engine_log W eng1" using will_retry(6) by (simp_all add: same)
    have "we_ID (canon_entry entry) \<notin> we_ID ` set (engine_log W eng)" using wal_engine.ids_used [OF wal inv] q(3) by auto
    then show ?thesis using will_retry(1) q e by (auto intro!: exI [of _ "canon_entry entry"])
  next
    case (completed p tok key fs1 entry eng1 via eng2 r3 eng3 r4)
    let ?i = "we_ID entry"
    have q: "engine_inv W eng1" "set (engine_log W eng1) = insert (canon_entry entry) (set (engine_log W eng))" "?i \<notin> engine_used W eng"
      using wal_engine.enqueue_Inr [OF wal completed(3) inv t(1)] by blast+
    have "Engine.engine_ready eng1" using completed(3) by (auto elim!: with_bolt_cases simp: EnqueueEntry_def wal_update_Inr Engine.engine_ready_def)
    then have e2: "engine_inv W eng2" "engine_log W eng2 = engine_log W eng1" "Engine.engine_ready eng2" using completed(6) q(1) by (simp_all add: same)
    have "?i \<in> we_ID ` set (engine_log W eng2)" unfolding e2(2) q(2) by simp
    from wal_engine_reliable.ready_done [OF rel e2(3,1) t(2) this] have e3: "r3 = Inr ()" "Engine.engine_ready eng3" using completed(7) by auto
    have d: "engine_inv W eng3" "engine_log W eng3 = update_log ?i (set_status WALStatusDone t2) (engine_log W eng2)"
      using wal_engine.done_Inr [OF wal _ e2(1) t(2)] completed(7) e3(1) by blast+
    from wal_engine_reliable.ready_delete [OF rel e3(2) d(1)] have "r4 = Inr ()" using completed(8) by (metis Pair_inject)
    then have l: "engine_inv W eng'" "engine_log W eng' = filter (\<lambda>e. we_ID e \<noteq> ?i) (engine_log W eng3)"
      using wal_engine.delete_Inr [OF wal _ d(1)] completed(8) by blast+
    have "engine_log W eng' = filter (\<lambda>e. we_ID e \<noteq> ?i) (engine_log W eng1)" unfolding l(2) d(2) e2(2) by (rule filter_update_log) simp
    then have "set (engine_log W eng') = set (engine_log W eng)" using q(2,3) wal_engine.ids_used [OF wal inv] by auto
    then show ?thesis using completed(1) l(1) by simp
  qed (use inv in simp)
qed

section \<open>A token in the queue expires\<close>

text \<open>
  The token of a queued transfer is issued once, for a day: a retry after that is never taken by a receiver
  that knows the time, whoever it is, so what succeeds is the relay. (A node that delivers an entry without
  a token issues a new one each time.)
\<close>

theorem queued_token_expires:
  assumes send: "buildSendPayload C ie now drv0 fl eng0 fs0 filePath peerAddr = (Inr (p, Some st, key), fs1)"
    and now: "in_int64 (unix now)" "in_int64 (unix (now + 86400000000000))" "unix (now + 86400000000000) \<noteq> 0"
    and late: "unix (now + 86400000000000) < t"
    and dl: "retry_deliver B L bl C drv relayClient eng env fs s peerID entry (None, Some (pth, out), s')"
    and entry: "entry_payload (we_Payload entry) = Some q" "payload_get q ''auth_token'' = payload_get p ''auth_token''"
    and you: "ro_Identity ropts = Some you" and inp: "dv_in env pth = map Some (rv_sent rv)"
    and recv: "ReceiveOnceWithOptions bl C txt t ropts dir cv envs engR fsR (map Some out) = (res, rv)"
  shows "pth = Relayed"
proof -
  obtain me grantee where st: "IssueToken C now me grantee (fl_space fl) PermWrite 86400000000000 = Inr st"
    and tok: "payload_get q ''auth_token'' = MarshalToken st"
    using send_payload(5) [OF send] entry(2) by (auto split: if_splits)
  have un: "UnmarshalToken (MarshalToken st) = Inr st" "MarshalToken st \<noteq> []"
    by (simp_all add: UnmarshalToken_def MarshalToken_def signed_json.unmarshal_marshal last_marshal)
  obtain auth where a: "authFromPayload drv eng q = Inr auth"
    and d: "DelivererSendFile B L bl C (retry_deliverer relayClient peerID q auth) queue_opts env (Some eng) fs s (None, Some (pth, out), s')"
    using dl entry(1) by (auto elim: retry_deliver.cases)
  have "fst auth = Some st" using a un by (auto simp: authFromPayload_def tok split: sum.splits)
  then have opts: "dl_AuthToken (retry_deliverer relayClient peerID q auth) = Some st" "do_Resume queue_opts"
    by (simp_all add: retry_deliverer_def Let_def queue_opts_def)
  have "VerifyToken C t st (Some (PublicKey you)) \<noteq> Inr v" for v
    using VerifyToken_Inr [of C t st "Some (PublicKey you)"] issued_payload [OF st now(1,2)] now(3) late by fastforce
  from refused_never_direct [OF d opts this you inp recv] show ?thesis .
qed

section \<open>A retry may send twice\<close>

lemma thread_move:
  "i < length ts \<Longrightarrow> in_int64 now \<Longrightarrow> tstep api (\<lambda>p. on p = Some True) now canc okd s (ts ! i) = (ph, s', d) \<Longrightarrow>
   cstep api \<lparr>cs_engine = s, cs_online = on, cs_threads = ts, cs_queued = q, cs_sent = sn\<rparr>
     \<lparr>cs_engine = s', cs_online = on, cs_threads = ts[i := ph], cs_queued = q, cs_sent = sn @ d\<rparr>"
  using cstep.thread [of i "\<lparr>cs_engine = s, cs_online = on, cs_threads = ts, cs_queued = q, cs_sent = sn\<rparr>" now api canc okd ph s' d] by simp

context wal_engine_reliable begin

text \<open>Two drains that have both read the queue: the second marks and sends what the first has not removed yet.\<close>

lemma double_drain:
  assumes inv: "inv s" and rd: "ready s" and pend: "filter (\<lambda>e. we_PeerID e = p \<and> we_Status e = WALStatusPending) (log s) = [e]"
    and r: "we_Retries e < MaxRetries"
  shows "\<exists>c. (cstep api)\<^sup>*\<^sup>* (queue_retry p (cstart (log s) s)) c \<and> cs_sent c = [(p, e), (p, e)]"
proof -
  have now: "in_int64 5" by (simp add: in_int64_def int64_min_def int64_max_def)
  have "e \<in> set (filter (\<lambda>e. we_PeerID e = p \<and> we_Status e = WALStatusPending) (log s))" by (simp only: pend list.set_intros)
  then have e: "e \<in> set (log s)" "we_PeerID e = p" by simp_all
  have p: "api_pending api s p = ([e], None)"
    using pending [OF inv prod.collapse [symmetric]] ready_pending [OF rd inv] pend by (metis prod.collapse)
  have ids: "we_ID e \<in> we_ID ` set (log s)" using e(1) by blast
  obtain s1 where s1: "api_inflight api 5 s (we_ID e) = (Inr (), s1)" "ready s1" using ready_inflight [OF rd inv now ids] by blast
  have i1: "inv s1" "we_ID e \<in> we_ID ` set (log s1)" using inflight_Inr [OF s1(1) inv now] ids by simp_all
  obtain s2 where s2: "api_inflight api 5 s1 (we_ID e) = (Inr (), s2)" using ready_inflight [OF s1(2) i1(1) now i1(2)] by blast
  have move: "(cstep api)\<^sup>*\<^sup>* c0 \<lparr>cs_engine = s', cs_online = on, cs_threads = ts[i := ph], cs_queued = q, cs_sent = sn @ d\<rparr>"
    if "(cstep api)\<^sup>*\<^sup>* c0 \<lparr>cs_engine = t, cs_online = on, cs_threads = ts, cs_queued = q, cs_sent = sn\<rparr>" "i < length ts"
      "tstep api (\<lambda>p. on p = Some True) 5 False True t (ts ! i) = (ph, s', d)" for c0 s' on ts i ph q sn d t
    using that(1) thread_move [OF that(2) now that(3)] by (rule rtranclp.rtrancl_into_rtrancl)
  let ?start = "queue_retry p (cstart (log s) s)" and ?L = "Loop False [e]"
  have "?start = \<lparr>cs_engine = s, cs_online = [p \<mapsto> True], cs_threads = [FetchPeer p, FetchPeer p], cs_queued = log s, cs_sent = []\<rparr>"
    by (simp add: queue_retry_def MarkOnline_def cstart_def)
  then have c0: "(cstep api)\<^sup>*\<^sup>* ?start \<lparr>cs_engine = s, cs_online = [p \<mapsto> True], cs_threads = [FetchPeer p, FetchPeer p], cs_queued = log s, cs_sent = []\<rparr>"
    by simp
  have "(cstep api)\<^sup>*\<^sup>* ?start \<lparr>cs_engine = s, cs_online = [p \<mapsto> True], cs_threads = [?L, FetchPeer p], cs_queued = log s, cs_sent = []\<rparr>"
    using move [OF c0, of 0 ?L s "[]"] p by simp
  from move [OF this, of 1 ?L s "[]"] p
  have "(cstep api)\<^sup>*\<^sup>* ?start \<lparr>cs_engine = s, cs_online = [p \<mapsto> True], cs_threads = [?L, ?L], cs_queued = log s, cs_sent = []\<rparr>" by simp
  from move [OF this, of 0 "Begin e False []" s "[]"]
  have "(cstep api)\<^sup>*\<^sup>* ?start \<lparr>cs_engine = s, cs_online = [p \<mapsto> True], cs_threads = [Begin e False [], ?L], cs_queued = log s, cs_sent = []\<rparr>" by simp
  from move [OF this, of 0 "Sending e False []" s1 "[]"] s1(1) r
  have "(cstep api)\<^sup>*\<^sup>* ?start \<lparr>cs_engine = s1, cs_online = [p \<mapsto> True], cs_threads = [Sending e False [], ?L], cs_queued = log s, cs_sent = []\<rparr>" by simp
  from move [OF this, of 0 "Sent e False []" s1 "[(p, e)]"] e(2)
  have "(cstep api)\<^sup>*\<^sup>* ?start \<lparr>cs_engine = s1, cs_online = [p \<mapsto> True], cs_threads = [Sent e False [], ?L], cs_queued = log s, cs_sent = [(p, e)]\<rparr>" by simp
  from move [OF this, of 1 "Begin e False []" s1 "[]"]
  have "(cstep api)\<^sup>*\<^sup>* ?start \<lparr>cs_engine = s1, cs_online = [p \<mapsto> True], cs_threads = [Sent e False [], Begin e False []], cs_queued = log s, cs_sent = [(p, e)]\<rparr>" by simp
  from move [OF this, of 1 "Sending e False []" s2 "[]"] s2 r
  have "(cstep api)\<^sup>*\<^sup>* ?start \<lparr>cs_engine = s2, cs_online = [p \<mapsto> True], cs_threads = [Sent e False [], Sending e False []], cs_queued = log s, cs_sent = [(p, e)]\<rparr>" by simp
  from move [OF this, of 1 "Sent e False []" s2 "[(p, e)]"] e(2)
  have "(cstep api)\<^sup>*\<^sup>* ?start \<lparr>cs_engine = s2, cs_online = [p \<mapsto> True], cs_threads = [Sent e False [], Sent e False []], cs_queued = log s, cs_sent = [(p, e), (p, e)]\<rparr>"
    by simp
  moreover have "cs_sent \<lparr>cs_engine = s2, cs_online = [p \<mapsto> True], cs_threads = [Sent e False [], Sent e False []],
      cs_queued = log s, cs_sent = [(p, e), (p, e)]\<rparr> = [(p, e), (p, e)]" by simp
  ultimately show ?thesis by blast
qed

end

text \<open>
  C38. \<open>vault queue retry\<close> may send a file twice: \<open>MarkOnline\<close> starts a drain and the command runs another, and
  since \<open>MarkInFlight\<close> does not look at the status, there is always a schedule in which both deliver the
  one entry that is pending for the peer. The state the command starts in is one the coordinator reaches.
\<close>

theorem retry_sends_twice:
  assumes "wal_bucket_reliable W" "engine_inv W eng" "Engine.engine_ready eng"
    and "filter (\<lambda>e. we_PeerID e = p \<and> we_Status e = WALStatusPending) (engine_log W eng) = [e]" "we_Retries e < MaxRetries"
  shows "(cstep (engine_api W))\<^sup>*\<^sup>* (cstart (engine_log W eng) eng) (queue_retry p (cstart (engine_log W eng) eng)) \<and>
    (\<exists>c. (cstep (engine_api W))\<^sup>*\<^sup>* (queue_retry p (cstart (engine_log W eng) eng)) c \<and> cs_sent c = [(p, e), (p, e)])"
proof
  let ?c = "cstart (engine_log W eng) eng"
  have "cstep (engine_api W) ?c (MarkOnline p ?c)" unfolding MarkOnline_def by (rule cstep.mark_online)
  moreover have "cstep (engine_api W) (MarkOnline p ?c) (queue_retry p ?c)" unfolding queue_retry_def Let_def by (rule cstep.drain)
  ultimately show "(cstep (engine_api W))\<^sup>*\<^sup>* ?c (queue_retry p ?c)" by (meson r_into_rtranclp rtranclp.rtrancl_into_rtrancl)
  show "\<exists>c. (cstep (engine_api W))\<^sup>*\<^sup>* (queue_retry p ?c) c \<and> cs_sent c = [(p, e), (p, e)]"
    by (rule wal_engine_reliable.double_drain [OF engine_wal_reliable [OF assms(1)] assms(2-5)])
qed

theorem retry_sends_twice_witness:
  "\<exists>c. (cstep (engine_api ref_ops))\<^sup>*\<^sup>* (queue_retry ''bob'' (cstart (engine_log ref_ops busy_engine) busy_engine)) c \<and>
     cs_sent c = [(''bob'', busy_entry), (''bob'', busy_entry)]"
proof -
  have p: "filter (\<lambda>e. we_PeerID e = ''bob'' \<and> we_Status e = WALStatusPending) (engine_log ref_ops busy_engine) = [busy_entry]"
    "we_Retries busy_entry < MaxRetries"
    by (simp_all add: busy_engine(2)) (simp_all add: busy_entry_def MaxRetries_def)
  show ?thesis using retry_sends_twice [OF ref_wal.wal_bucket_reliable_axioms busy_engine(1,3) p] by blast
qed

section \<open>Invites\<close>

text \<open>
  An invite is for anybody: \<open>vault share invite\<close> checks the key of the grantee and forgets it, so for every
  two grantees it prints the same invite; and whoever reads that text has the space with its symmetric
  key, until the invite expires.
\<close>

theorem invite_is_for_anybody:
  assumes C: "ed_laws C" "identity_ok C me" and me: "loadOrGenerateIdentity C ie (fl_identity fl) fs = (Inr me, fs1)"
    and sp: "GetSpace drv eng sid = Inr (sp, owner)" and g: "decodeKey g1 = Inr k1" "decodeKey g2 = Inr k2"
    and x: "x = unix (now + 86400000000000)" "x \<noteq> 0" "in_int64 (unix now)" "in_int64 x"
  shows "\<exists>text. share_invite C ie now drv fl sid g1 eng fs = (Inr text, fs1) \<and>
    share_invite C ie now drv fl sid g2 eng fs = (Inr text, fs1) \<and>
    (\<exists>si iv. UnmarshalInvite text = Inr si \<and> inv_GrantedPermission iv = PermWrite \<and>
      (\<forall>t1 t2. AcceptInvite C t1 t2 si (PublicKey me) = (if x < t1 then Inl Expired else Inr (sp\<lparr>sp_CreatedAt := t2\<rparr>, iv))))"
proof -
  have key: "length (sp_SymmetricKey sp) = SpaceKeySize"
    using sp by (auto simp: GetSpace_def split: sum.splits sql_err.splits option.splits if_splits)
  have ttl: "x = unix (now + (if (86400000000000 :: int) = 0 then InviteTokenTTL else 86400000000000))" using x(1) by simp
  obtain si iv where si: "CreateInvite C now me sp PermWrite 86400000000000 = Inr si" "UnmarshalInvite (MarshalInvite si) = Inr si"
    "inv_GrantedPermission iv = PermWrite"
    "\<forall>t1 t2. AcceptInvite C t1 t2 si (PublicKey me) = (if x < t1 then Inl Expired else Inr (sp\<lparr>sp_CreatedAt := t2\<rparr>, iv))"
    using invite_transfers_space [OF C key ttl x(2,3,4), of PermWrite] by blast
  have "share_invite C ie now drv fl sid g eng fs = (Inr (MarshalInvite si), fs1)" if "decodeKey g = Inr k" for g k
    using that by (simp add: share_invite_def me sp si(1))
  then show ?thesis using g si(2-4) by blast
qed

section \<open>A run for the witnesses\<close>

text \<open>The database of \<open>Coordinator\<close>'s example with a space in it, and a sender that names it.\<close>

definition demo_spaced :: "((string, bytes) rbt \<times> nat) engine" where
  "demo_spaced = snd (SaveSpace True busy_engine demo_space ''alice'')"

definition demo_flags :: "string \<Rightarrow> cli_flags" where
  "demo_flags sid = \<lparr>fl_relay = ''relay:9'', fl_identity = ''id.key'', fl_space = sid, fl_recipientPubkey = [], fl_recipientID = ''bob'',
     fl_parallel = 1, fl_resume = True\<rparr>"

lemma demo_spaced:
  "engine_inv ref_ops demo_spaced" "Engine.engine_ready demo_spaced" "GetSpace True demo_spaced ''f00d'' = Inr (demo_space\<lparr>sp_CreatedAt := 0\<rparr>, ''alice'')"
proof -
  have b: "en_bolt demo_spaced = en_bolt busy_engine" by (simp add: demo_spaced_def SaveSpace_def Let_def split: prod.split)
  show "engine_inv ref_ops demo_spaced" "Engine.engine_ready demo_spaced"
    using busy_engine(1,3) by (simp_all add: engine_inv_def Engine.engine_ready_def b)
  show "GetSpace True demo_spaced ''f00d'' = Inr (demo_space\<lparr>sp_CreatedAt := 0\<rparr>, ''alice'')"
    by (simp add: demo_spaced_def SaveSpace_def Let_def sql_exec_def busy_engine_def demo_engine_def GetSpace_def sql_query_def demo_space_def
        hex_decode_encode SpaceKeySize_def)
qed

definition demo_me :: identity where
  "demo_me = \<lparr>PublicKey = replicate 32 (CHR ''r''), PrivateKey = replicate 64 (CHR ''r'')\<rparr>"

lemma demo_me:
  "loadOrGenerateIdentity demo_crypto demo_identity_env ''id.key'' Map.empty = (Inr demo_me, [''id.key'' \<mapsto> replicate 64 (CHR ''r'')])"
  "identity_ok demo_crypto demo_me"
  by (simp_all add: loadOrGenerateIdentity_def demo_identity_env_def GenerateIdentity_def SaveIdentity_def demo_me_def demo_crypto_def
      identity_ok_def min_def replicate_add [symmetric])

lemma demo_built:
  "\<exists>p st fs1. buildSendPayload demo_crypto demo_identity_env 5000000000 True (demo_flags ''f00d'') demo_spaced Map.empty ''docs/hi.txt'' ''peer:1'' =
     (Inr (p, Some st, sp_SymmetricKey demo_space), fs1)"
proof -
  obtain st where "IssueToken demo_crypto 5000000000 demo_me (PublicKey demo_me) ''f00d'' PermWrite 86400000000000 = Inr st"
    using identity_sign(1) [OF demo_laws(1) demo_me(2)] by (simp add: IssueToken_def Let_def)
  then show ?thesis by (simp add: buildSendPayload_def demo_flags_def demo_me(1) demo_spaced(3)) (simp add: demo_space_def)
qed

lemma demo_enqueue:
  "raw_valid (Some pl) \<Longrightarrow> \<exists>e eng1. api_enqueue (engine_api ref_ops) 5 demo_spaced ''peer:1'' ''send_file'' (Some pl) = (Inr e, eng1)"
proof -
  assume v: "raw_valid (Some pl)"
  obtain m where "db (en_bolt demo_spaced) = OpenDB (Some m)"
    using demo_spaced(2) by (auto simp: Engine.engine_ready_def split: bolt_handle.splits option.splits)
  from ref_wal.enqueue_ok [OF this v, of 5 "''peer:1''" "''send_file''"]
  show ?thesis by (auto simp: is_ok_iff with_bolt_def)
qed

lemma demo_times: "in_int64 5" "in_int64 6" by (simp_all add: in_int64_def int64_min_def int64_max_def)

lemma demo_utf8: "utf8_valid ''docs/hi.txt''" "utf8_valid ''peer:1''" "utf8_valid (fl_recipientID (demo_flags ''f00d''))"
    "utf8_valid (fl_space (demo_flags ''f00d''))" by code_simp+

theorem queued_send_recovered_witness:
  "\<exists>p st fs1 e eng1 q.
     buildSendPayload demo_crypto demo_identity_env 5000000000 True (demo_flags ''f00d'') demo_spaced Map.empty ''docs/hi.txt'' ''peer:1'' =
       (Inr (p, Some st, sp_SymmetricKey demo_space), fs1) \<and>
     api_enqueue (engine_api ref_ops) 5 demo_spaced ''peer:1'' ''send_file'' (Some (marshal payload_fields p)) = (Inr e, eng1) \<and>
     entry_payload (we_Payload (canon_entry e)) = Some q \<and> authFromPayload True demo_spaced q = Inr (Some st, sp_SymmetricKey demo_space) \<and>
     retry_deliverer None (we_PeerID (canon_entry e)) q (Some st, sp_SymmetricKey demo_space) =
       (send_deliverer (demo_flags ''f00d'') ''peer:1'' (Some st) (sp_SymmetricKey demo_space))\<lparr>dl_Relay := None\<rparr>"
proof -
  obtain p st fs1 where b: "buildSendPayload demo_crypto demo_identity_env 5000000000 True (demo_flags ''f00d'') demo_spaced Map.empty
      ''docs/hi.txt'' ''peer:1'' = (Inr (p, Some st, sp_SymmetricKey demo_space), fs1)" using demo_built by blast
  obtain e eng1 where q: "api_enqueue (engine_api ref_ops) 5 demo_spaced ''peer:1'' ''send_file'' (Some (marshal payload_fields p)) = (Inr e, eng1)"
    using demo_enqueue payload_stored(1) [OF send_payload(1) [OF b]] by blast
  show ?thesis
    using queued_send_recovered [OF wal_bucket_ref demo_spaced(1) demo_times(1) b demo_utf8 q refl] b q by auto
qed

theorem send_settles_queue_witness:
  "\<exists>logs eng'. send_cmd ref_ops ref_ops demo_relay_lib zero_hash demo_crypto ((demo_flags [])\<lparr>fl_relay := []\<rparr>) demo_identity_env 5000000000 5 6 True
      demo_queue_env ''docs/hi.txt'' ''peer:1'' demo_spaced Map.empty demo_relay (SendWillRetry AllPathsFailed, logs, eng', demo_relay) \<and>
    (\<exists>e. set (engine_log ref_ops eng') = insert e (set (engine_log ref_ops demo_spaced)) \<and> we_PeerID e = ''peer:1'' \<and>
       we_Status e = WALStatusPending)"
proof -
  let ?fl = "(demo_flags [])\<lparr>fl_relay := []\<rparr>"
  let ?p = "send_base ?fl ''docs/hi.txt'' ''peer:1''" and ?d = "send_deliverer ?fl ''peer:1'' None []"
  have b: "buildSendPayload demo_crypto demo_identity_env 5000000000 True ?fl demo_spaced Map.empty ''docs/hi.txt'' ''peer:1'' = (Inr (?p, None, []), Map.empty)"
    by (simp add: buildSendPayload_def demo_flags_def)
  obtain e eng1 where q: "api_enqueue (engine_api ref_ops) 5 demo_spaced ''peer:1'' ''send_file'' (Some (marshal payload_fields ?p)) = (Inr e, eng1)"
    using demo_enqueue payload_stored(1) [OF send_payload(1) [OF b]] by blast
  have d: "dl_Relay ?d = None" "dl_AuthToken ?d = None" "dl_Rendezvous ?d = False" "dl_PeerAddr ?d = ''peer:1''"
    by (simp_all add: send_deliverer_def optionalRelayClient_def)
  have src: "dv_src demo_queue_env x = relay_source ''hi''" "dv_conn demo_queue_env x = demo_send_env\<lparr>sv_dial := False\<rparr>" for x
    by (simp_all add: demo_queue_env_def)
  have tier: "direct_tier zero_hash demo_crypto ?d (send_deliver_opts ?fl) demo_queue_env (Some eng1) Map.empty (Some (Some QuicDialErr, []))"
    by (rule direct_tier.direct) (auto simp: d src relay_source_def intro!: SendFileWithOptions.intros(1))
  have tier': "punch_tier zero_hash demo_crypto ?d (send_deliver_opts ?fl) demo_queue_env (Some eng1) Map.empty None"
    by (rule punch_tier.not_punched) (simp add: punched_def d)
  have "deliver_logged ref_ops demo_relay_lib zero_hash demo_crypto ?d (send_deliver_opts ?fl) demo_queue_env (Some eng1) Map.empty
      demo_relay (tier1_log ?d (Some (Some QuicDialErr, [])) @ tier2_log ?d demo_queue_env None) (Some AllPathsFailed, None, demo_relay)"
    by (rule log_no_path [OF _ _ tier _ tier']) (simp_all add: sessionKey_def d send_deliver_opts_def failed_def)
  moreover have "opens_file demo_queue_env ''docs/hi.txt''" by (simp add: opens_file_def src relay_source_def)
  ultimately obtain logs where "send_cmd ref_ops ref_ops demo_relay_lib zero_hash demo_crypto ?fl demo_identity_env 5000000000 5 6 True
      demo_queue_env ''docs/hi.txt'' ''peer:1'' demo_spaced Map.empty demo_relay (SendWillRetry AllPathsFailed, logs, eng1, demo_relay)"
    using will_retry [OF b q] by blast
  then show ?thesis
    using send_settles_queue [OF ref_wal.wal_bucket_reliable_axioms demo_spaced(1) demo_times] by fastforce
qed

theorem queued_token_expires_witness:
  "\<exists>eng entry pth out s' res rv. retry_deliver ref_ops demo_relay_lib zero_hash demo_crypto True (Some ''relay:9'') (eng :: ((string, bytes) rbt \<times> nat) engine)
      demo_queue_env no_files demo_relay ''peer:1'' entry (None, Some (pth, out), s') \<and>
    ReceiveOnceWithOptions zero_hash demo_crypto (\<lambda>_. []) 86406 (default_recv_opts\<lparr>ro_Identity := Some demo_me\<rparr>) ''out''
      demo_conn (\<lambda>_. demo_recv_env) no_engine no_files (map Some out) = (res, rv) \<and> pth = Relayed"
proof -
  let ?ropts = "default_recv_opts\<lparr>ro_Identity := Some demo_me\<rparr>" and ?key = "sp_SymmetricKey demo_space"
  obtain p st fs1 where b: "buildSendPayload demo_crypto demo_identity_env 5000000000 True (demo_flags ''f00d'') demo_spaced Map.empty
      ''docs/hi.txt'' ''peer:1'' = (Inr (p, Some st, ?key), fs1)" using demo_built by blast
  obtain e eng1 where q: "api_enqueue (engine_api ref_ops) 5 demo_spaced ''peer:1'' ''send_file'' (Some (marshal payload_fields p)) = (Inr e, eng1)"
    using demo_enqueue payload_stored(1) [OF send_payload(1) [OF b]] by blast
  note bp = send_payload [OF b]
  have e: "e = e\<lparr>we_Payload := Some (marshal payload_fields p)\<rparr>"
    using wal_engine.enqueue_Inr [OF engine_wal [OF wal_bucket_ref] q demo_spaced(1) demo_times(1)] by (cases e) simp
  have pl: "entry_payload (we_Payload (canon_entry e)) = Some (sort_key fst p)" by (subst e) (rule payload_stored(2) [OF bp(1) send_payload_utf8 [OF b demo_utf8]])
  have get: "payload_get (sort_key fst p) k = payload_get p k" for k by (rule payload_stored(3) [OF bp(1)])
  obtain me grantee where st: "IssueToken demo_crypto 5000000000 me grantee ''f00d'' PermWrite 86400000000000 = Inr st"
    "payload_get p ''auth_token'' = MarshalToken st" "payload_get p ''space_id'' = ''f00d''"
    using bp(5) by (auto simp: demo_flags_def)
  have ints: "in_int64 (unix 5000000000)" "in_int64 (unix (5000000000 + 86400000000000))" "unix (5000000000 + 86400000000000) \<noteq> 0"
    "unix (5000000000 + 86400000000000) < 86406" by (simp_all add: unix_def in_int64_def int64_min_def int64_max_def)
  have sk: "length ?key = SpaceKeySize" by (simp add: demo_space_def SpaceKeySize_def)
  obtain k where k: "token_space (Some st) = ''f00d''" "DeriveTransferSessionKey demo_crypto ?key st = Inr k" "length k = 32"
    using issued_session [OF st(1) ints(1,2) demo_laws(3) sk] by blast
  have "UnmarshalToken (MarshalToken st) = Inr st" "MarshalToken st \<noteq> []"
    by (simp_all add: UnmarshalToken_def MarshalToken_def signed_json.unmarshal_marshal last_marshal)
  then have auth: "authFromPayload True demo_spaced (sort_key fst p) = Inr (Some st, ?key)"
    by (simp add: authFromPayload_def get st demo_spaced(3))
  let ?d = "retry_deliverer (Some ''relay:9'') ''peer:1'' (sort_key fst p) (Some st, ?key)"
  have d: "dl_Relay ?d = Some ''relay:9''" "dl_RecipientID ?d = ''bob''" "dl_AuthToken ?d = Some st" "dl_PeerAddr ?d \<noteq> []"
    "dl_Rendezvous ?d = False" "dl_SpaceKey ?d = ?key"
    by (simp_all add: retry_deliverer_def get bp Let_def demo_flags_def)
  obtain s' where "DelivererSendFile ref_ops demo_relay_lib zero_hash demo_crypto ?d queue_opts demo_queue_env (Some demo_spaced) no_files
      demo_relay (None, Some (Relayed, []), s')"
    using demo_relay_fallback [OF d(1-5), of k demo_spaced] sk k by (auto simp: d(6))
  moreover have "opens_file demo_queue_env (payload_get (sort_key fst p) ''file_path'')"
    by (simp add: opens_file_def demo_queue_env_def get bp(2) relay_source_def)
  ultimately have dl: "retry_deliver ref_ops demo_relay_lib zero_hash demo_crypto True (Some ''relay:9'') demo_spaced demo_queue_env no_files demo_relay
      ''peer:1'' (canon_entry e) (None, Some (Relayed, []), s')"
    using retry_deliver.delivers [OF pl auth] by fastforce
  let ?run = "ReceiveOnceWithOptions zero_hash demo_crypto (\<lambda>_. []) 86406 ?ropts ''out'' demo_conn (\<lambda>_. demo_recv_env) no_engine no_files (map Some [])"
  have "rv_sent (snd ?run) = []" by (simp add: ReceiveOnceWithOptions_def serverAuthHandshake_def new_receiver_def Let_def)
  then obtain res rv where recv: "?run = (res, rv)" "rv_sent rv = []" by (metis prod.collapse)
  have inp: "dv_in demo_queue_env Relayed = map Some (rv_sent rv)" by (simp add: recv(2) demo_queue_env_def)
  have you: "ro_Identity ?ropts = Some demo_me" by simp
  show ?thesis using queued_token_expires [OF b ints dl pl get you inp recv(1)] dl recv(1) by blast
qed

theorem invite_is_for_anybody_witness:
  "\<exists>text. fst (share_invite demo_crypto demo_identity_env 5000000000 True (demo_flags []) ''f00d'' (hex_encode (replicate 32 (CHR ''b''))) demo_spaced Map.empty) =
      Inr text \<and>
    fst (share_invite demo_crypto demo_identity_env 5000000000 True (demo_flags []) ''f00d'' (hex_encode (replicate 32 (CHR ''e''))) demo_spaced Map.empty) =
      Inr text \<and>
    (\<exists>si iv. UnmarshalInvite text = Inr si \<and> AcceptInvite demo_crypto 7 9 si (PublicKey demo_me) = Inr (demo_space\<lparr>sp_CreatedAt := 9\<rparr>, iv))"
proof -
  have me: "loadOrGenerateIdentity demo_crypto demo_identity_env (fl_identity (demo_flags [])) Map.empty = (Inr demo_me, [''id.key'' \<mapsto> replicate 64 (CHR ''r'')])"
    using demo_me(1) by (simp add: demo_flags_def)
  have g: "decodeKey (hex_encode (replicate 32 c)) = Inr (replicate 32 c)" for c by (simp add: decodeKey_def hex_decode_encode)
  have x: "86405 = unix (5000000000 + 86400000000000)" "(86405 :: int) \<noteq> 0" "in_int64 (unix 5000000000)" "in_int64 86405"
    by (simp_all add: unix_def in_int64_def int64_min_def int64_max_def)
  show ?thesis
    using invite_is_for_anybody [OF demo_laws(1) demo_me(2) me demo_spaced(3) g g x, of "CHR ''b''" "CHR ''e''"] by auto
qed

end
