(* ===== verification/Progress.thy ===== *)
theory Progress
  imports GoText Complex_Main
begin

text \<open>
  \<open>cmd/vault/progress.go\<close>: the progress bar and the sizes in it, as the bytes that are written to the terminal.
  \<open>float64\<close> is a parameter: a record of the operations that the code uses (\<open>float_lib\<close>), with what the lemmas need
  of them as the hypothesis \<open>float_laws\<close>, shown to hold for the rational numbers. \<open>int(x)\<close> of a float is
  truncation; \<open>strings.Repeat\<close> panics for a negative count and the index into the units panics when it is
  out of range, so those functions return an option.

  Lemmas: no panic for a size in \<open>int64\<close> and a count that is not negative, and the bar has the same width
  throughout: what is drawn covers what was drawn before.
\<close>

section \<open>Text\<close>

text \<open>\<open>fmt\<close> pads to a number of runes: the bytes that do not continue a rune, for valid UTF-8.\<close>

definition rune_count :: "string \<Rightarrow> nat" where
  "rune_count s = length (filter (\<lambda>c. byte_val c div 64 \<noteq> 2) s)"

definition pad_right :: "nat \<Rightarrow> string \<Rightarrow> string" where
  "pad_right w s = s @ replicate (w - rune_count s) (CHR '' '')"

definition strings_repeat :: "char \<Rightarrow> int \<Rightarrow> string option" where
  "strings_repeat c k = (if k < 0 then None else Some (replicate (nat k) c))"

section \<open>Sizes\<close>

record 'f float_lib =
  fl_of_int :: "int \<Rightarrow> 'f"
  fl_div :: "'f \<Rightarrow> 'f \<Rightarrow> 'f"
  fl_mul :: "'f \<Rightarrow> 'f \<Rightarrow> 'f"
  fl_trunc :: "'f \<Rightarrow> int"
  fl_fixed :: "nat \<Rightarrow> nat \<Rightarrow> 'f \<Rightarrow> string"

text \<open>\<open>fmtBytes\<close>: the loop that finds the unit.\<close>

function unit_loop :: "nat \<Rightarrow> nat \<Rightarrow> nat \<Rightarrow> nat \<times> nat" where
  "unit_loop n d e = (if n \<ge> 1024 then unit_loop (n div 1024) (d * 1024) (Suc e) else (d, e))"
  by auto
termination by (relation "measure (\<lambda>(n, d, e). n)") auto

declare unit_loop.simps [simp del]

definition fmtBytes :: "'f float_lib \<Rightarrow> int \<Rightarrow> string option" where
  "fmtBytes F b =
     (if b < 1024 then Some (fmt_int b @ '' B'')
      else let (d, e) = unit_loop (nat b div 1024) 1024 0 in
        (if e < length ''KMGTPE''
         then Some (fl_fixed F 0 1 (fl_div F (fl_of_int F b) (fl_of_int F (int d))) @ CHR '' '' # (''KMGTPE'' ! e) # ''B'')
         else None))"

section \<open>The bar\<close>

definition barWidth :: int where "barWidth = 30"

text \<open>The two branches that make the text between the brackets.\<close>

definition bar_text :: "int \<Rightarrow> string option" where
  "bar_text filled0 =
     (let filled = (if filled0 > barWidth then barWidth else filled0) in
      case strings_repeat (CHR ''='') filled of
        None \<Rightarrow> None
      | Some eqs \<Rightarrow>
          (if filled < barWidth
           then (case strings_repeat (CHR '' '') (barWidth - filled - 1) of
                   None \<Rightarrow> None
                 | Some blanks \<Rightarrow> Some (eqs @ ''>'' @ blanks))
           else Some eqs))"

definition bar_fill :: "'f float_lib \<Rightarrow> int \<Rightarrow> int \<Rightarrow> int" where
  "bar_fill F sent whole = fl_trunc F (fl_mul F (fl_div F (fl_of_int F sent) (fl_of_int F whole)) (fl_of_int F barWidth))"

definition progressBar :: "'f float_lib \<Rightarrow> string \<Rightarrow> int \<Rightarrow> int \<Rightarrow> string option" where
  "progressBar F label sent whole =
     (if whole \<le> 0 then map_option (\<lambda>s. [CHR 0x0D] @ label @ ''  '' @ s @ '' sent'') (fmtBytes F sent)
      else
        let pct = fl_div F (fl_of_int F sent) (fl_of_int F whole) in
        case (bar_text (bar_fill F sent whole), fmtBytes F sent, fmtBytes F whole) of
          (Some bar, Some s, Some t) \<Rightarrow>
            Some ([CHR 0x0D] @ pad_right 10 label @ '' ['' @ bar @ ''] '' @ fl_fixed F 3 0 (fl_mul F pct (fl_of_int F 100)) @
              CHR ''%'' # ''  '' @ s @ '' / '' @ t)
        | _ \<Rightarrow> None)"

definition progressDone :: "'f float_lib \<Rightarrow> string \<Rightarrow> int \<Rightarrow> string option" where
  "progressDone F label whole =
     (case (strings_repeat (CHR ''='') barWidth, fmtBytes F whole) of
        (Some bar, Some t) \<Rightarrow>
          Some ([CHR 0x0D] @ pad_right 10 label @ '' ['' @ bar @ ''] 100'' @ CHR ''%'' # ''  '' @ t @ [CHR 0x0A])
      | _ \<Rightarrow> None)"

section \<open>Lemmas\<close>

text \<open>What is used of \<open>float64\<close>: a quotient of numbers that are not negative, scaled by the width, is not
  negative when truncated, and reaches the width when everything is sent.\<close>

definition float_laws :: "'f float_lib \<Rightarrow> bool" where
  "float_laws F \<longleftrightarrow> (\<forall>sent whole. 0 \<le> sent \<longrightarrow> 0 < whole \<longrightarrow> 0 \<le> bar_fill F sent whole) \<and>
     (\<forall>sent whole. 0 < whole \<longrightarrow> whole \<le> sent \<longrightarrow> barWidth \<le> bar_fill F sent whole)"

definition rat_float :: "rat float_lib" where
  "rat_float = \<lparr>fl_of_int = of_int, fl_div = (/), fl_mul = (*), fl_trunc = (\<lambda>x. if x < 0 then \<lceil>x\<rceil> else \<lfloor>x\<rfloor>),
     fl_fixed = (\<lambda>w d x. fmt_int \<lfloor>x\<rfloor>)\<rparr>"

lemma rat_float_laws: "float_laws rat_float"
proof -
  have "0 \<le> bar_fill rat_float sent whole" if "0 \<le> sent" "0 < whole" for sent whole
  proof -
    have "0 \<le> rat_of_int sent * 30 / rat_of_int whole" using that by simp
    then show ?thesis by (simp add: bar_fill_def rat_float_def barWidth_def)
  qed
  moreover have "barWidth \<le> bar_fill rat_float sent whole" if "0 < whole" "whole \<le> sent" for sent whole
  proof -
    have "(30 :: rat) \<le> of_int sent * 30 / of_int whole" using that by (simp add: le_divide_eq)
    then show ?thesis by (simp add: bar_fill_def rat_float_def barWidth_def le_floor_iff)
  qed
  ultimately show ?thesis by (simp add: float_laws_def)
qed

lemma unit_loop_exp: "n < 1024 ^ Suc k \<Longrightarrow> snd (unit_loop n d e) \<le> e + k"
proof (induction k arbitrary: n d e)
  case 0
  then show ?case by (simp add: unit_loop.simps [of n])
next
  case (Suc k)
  show ?case
  proof (cases "n \<ge> 1024")
    case True
    have "n div 1024 < 1024 ^ Suc k" using Suc.prems by (simp add: less_mult_imp_div_less mult.commute)
    from Suc.IH [OF this, of "d * 1024" "Suc e"] show ?thesis using True by (simp add: unit_loop.simps [of n])
  qed (simp add: unit_loop.simps [of n])
qed

lemma fmtBytes_total: "in_int64 b \<Longrightarrow> fmtBytes F b \<noteq> None"
proof -
  assume b: "in_int64 b"
  then have "b < 2 ^ 63" by (simp add: in_int64_def int64_max_def)
  then have "nat b < 2 ^ 63" by (simp add: nat_less_iff)
  then have "nat b div 1024 < 1024 ^ Suc 5" by simp
  from unit_loop_exp [OF this, of 1024 0] show ?thesis by (auto simp: fmtBytes_def split: prod.splits)
qed

text \<open>The bar always has the width of \<open>barWidth\<close> characters, and a negative count is a panic.\<close>

lemma bar_text_iff: "bar_text k = None \<longleftrightarrow> k < 0"
  by (auto simp: bar_text_def strings_repeat_def barWidth_def Let_def)

lemma bar_text_width: "bar_text k = Some bar \<Longrightarrow> length bar = 30"
  by (auto simp: bar_text_def strings_repeat_def barWidth_def Let_def split: if_splits)

lemma progressBar_total:
  "float_laws F \<Longrightarrow> in_int64 sent \<Longrightarrow> in_int64 whole \<Longrightarrow> 0 \<le> sent \<Longrightarrow> progressBar F label sent whole \<noteq> None"
proof -
  assume f: "float_laws F" and i: "in_int64 sent" "in_int64 whole" and n: "0 \<le> sent"
  have "bar_text (bar_fill F sent whole) \<noteq> None" if "0 < whole"
    using f n that by (simp add: bar_text_iff float_laws_def not_less)
  then show ?thesis using fmtBytes_total [OF i(1), of F] fmtBytes_total [OF i(2), of F]
    by (auto simp: progressBar_def Let_def not_le)
qed

lemma progressDone_total: "in_int64 whole \<Longrightarrow> progressDone F label whole \<noteq> None"
  using fmtBytes_total [of whole F] by (auto simp: progressDone_def strings_repeat_def barWidth_def)

text \<open>When all is sent the bar is the bar of \<open>progressDone\<close>.\<close>

lemma full_bar: "float_laws F \<Longrightarrow> 0 < whole \<Longrightarrow> whole \<le> sent \<Longrightarrow> bar_text (bar_fill F sent whole) = strings_repeat (CHR ''='') barWidth"
proof -
  assume f: "float_laws F" and w: "0 < whole" "whole \<le> sent"
  then have "barWidth \<le> bar_fill F sent whole" by (simp add: float_laws_def)
  then show ?thesis by (simp add: bar_text_def Let_def barWidth_def strings_repeat_def)
qed

end
