(* ===== verification/RelayServer.thy ===== *)
theory RelayServer
  imports Relay
begin

text \<open>
  The run of the relay server (\<open>Run\<close>, \<open>runEviction\<close> and the goroutines of \<open>handleConn\<close> in
  \<open>internal/relay/relay.go\<close>): any number of connections whose requests interleave line by line, evictions,
  failed commits and restarts on the same database. One iteration of the loop of \<open>handleConn\<close> is
  \<open>handle_line\<close>; it is atomic, since each operation holds the mutex of the server for its transaction.

  Lemmas: a connection that is alone is \<open>Relay\<close>'s \<open>handle_conn\<close>; what has been accepted is in the inbox of
  its recipient until it is handed out there or expires, under every interleaving.
\<close>

section \<open>One line of a connection\<close>

definition handle_line ::
  "('m, bytes) bucket_ops \<Rightarrow> 'm relay_lib \<Rightarrow> bool \<Rightarrow> int \<Rightarrow> bytes \<Rightarrow> 'm relay_server
     \<Rightarrow> (request option \<times> response \<times> bytes \<times> 'm relay_server) option" where
  "handle_line B L commit now inp s = (case scan_line inp of
     None \<Rightarrow> None
   | Some (l, rest) \<Rightarrow>
       (case unmarshal request_of_fields l of
          None \<Rightarrow> Some (None, fail_response ''invalid JSON'', rest, s)
        | Some req \<Rightarrow> (let (resp, s') = handle_request B L commit now s req in Some (Some req, resp, rest, s'))))"

text \<open>Alone on the server, a connection is served as \<open>handle_conn\<close> says.\<close>

lemma handle_conn_lines:
  "handle_conn B L commit now room inp s = (case handle_line B L commit now inp s of
     None \<Rightarrow> ([], s)
   | Some (req, resp, rest, s') \<Rightarrow>
       if req \<noteq> None \<and> room = 0 then ([], s')
       else let (out, s2) = handle_conn B L commit now (room - 1) rest s' in ((if room = 0 then [] else reply_line resp) @ out, s2))"
  by (subst handle_conn.simps) (auto simp: handle_line_def Let_def split: option.split prod.split)

section \<open>The run of the server\<close>

text \<open>
  A connection is its unread input with the number of answers it still takes. The histories: what has
  been accepted, what answers have handed out, what was in answers that could not be written, and the
  times of the evictions.
\<close>

record 'm relay_run =
  rr_server :: "'m relay_server"
  rr_conns :: "(bytes \<times> nat) list"
  rr_pushed :: "(string \<times> relayed_chunk) list"
  rr_pulled :: "(string \<times> wire_chunk) list"
  rr_lost :: "(string \<times> wire_chunk) list"
  rr_evicted :: "int list"

datatype run_err = RunInitErr relay_err | RunListenErr

definition relay_start ::
  "bool \<Rightarrow> (string \<times> 'm) list option \<Rightarrow> bool \<Rightarrow> bool \<Rightarrow> 'm relay_server \<Rightarrow> run_err option \<times> 'm relay_server" where
  "relay_start mkdir disk commit listen s = (case relay_Init mkdir disk commit s of
     (Some e, s') \<Rightarrow> (Some (RunInitErr e), s')
   | (None, s') \<Rightarrow> (if listen then None else Some RunListenErr, s'))"

text \<open>
  \<open>Close\<close>, which \<open>Run\<close> defers: \<open>ok\<close> is whether bbolt closes. The ticker of \<open>runEviction\<close>, which \<open>Run\<close> starts for a
  positive age: \<open>time.NewTicker\<close> panics if its period is not positive.
\<close>

definition relay_Close :: "bool \<Rightarrow> 'm relay_server \<Rightarrow> bool" where
  "relay_Close ok s = (if rs_db s \<noteq> None then ok else True)"

datatype ticker = NoTicker | TickerPanics | Every int

definition eviction_ticker :: "'m relay_server \<Rightarrow> ticker" where
  "eviction_ticker s =
     (if rs_maxAge s > 0 then (let period = rs_maxAge s div 2 in if period \<le> 0 then TickerPanics else Every period) else NoTicker)"

lemma eviction_ticker_panics: "eviction_ticker s = TickerPanics \<longleftrightarrow> rs_maxAge s = 1"
  by (auto simp: eviction_ticker_def Let_def)

definition pushed_by :: "int \<Rightarrow> request option \<Rightarrow> response \<Rightarrow> (string \<times> relayed_chunk) list" where
  "pushed_by now req resp = (case req of
     None \<Rightarrow> []
   | Some r \<Rightarrow>
       if rq_Op r = ''push'' \<and> rp_OK resp
       then [(rq_PeerID r, \<lparr>rc_ChunkHash = rq_ChunkHash r, rc_Data = the (b64_decode (rq_Data r)), rc_PushedAt = now\<rparr>)] else [])"

definition handed_out :: "request option \<Rightarrow> response \<Rightarrow> (string \<times> wire_chunk) list" where
  "handed_out req resp = (case req of None \<Rightarrow> [] | Some r \<Rightarrow> map (Pair (rq_PeerID r)) (rp_Chunks resp))"

inductive relay_step :: "('m, bytes) bucket_ops \<Rightarrow> 'm relay_lib \<Rightarrow> 'm relay_run \<Rightarrow> 'm relay_run \<Rightarrow> bool" for B L where
  accepted: "relay_step B L r (r\<lparr>rr_conns := rr_conns r @ [(inp, room)]\<rparr>)"
| answered: "i < length (rr_conns r) \<Longrightarrow> rr_conns r ! i = (inp, Suc room) \<Longrightarrow> time_ok L now \<Longrightarrow>
    handle_line B L commit now inp (rr_server r) = Some (req, resp, rest, s') \<Longrightarrow>
    relay_step B L r (r\<lparr>rr_server := s', rr_conns := (rr_conns r)[i := (rest, room)],
      rr_pushed := rr_pushed r @ pushed_by now req resp, rr_pulled := rr_pulled r @ handed_out req resp\<rparr>)"
| unanswered: "i < length (rr_conns r) \<Longrightarrow> rr_conns r ! i = (inp, 0) \<Longrightarrow> time_ok L now \<Longrightarrow>
    handle_line B L commit now inp (rr_server r) = Some (req, resp, rest, s') \<Longrightarrow>
    relay_step B L r (r\<lparr>rr_server := s', rr_conns := (rr_conns r)[i := (if req = None then rest else [], 0)],
      rr_pushed := rr_pushed r @ pushed_by now req resp, rr_lost := rr_lost r @ handed_out req resp\<rparr>)"
| evicts: "0 < rs_maxAge (rr_server r) \<Longrightarrow>
    relay_step B L r (r\<lparr>rr_server := evict B L commit now (rr_server r), rr_evicted := rr_evicted r @ [now]\<rparr>)"
| restarts: "relay_start mkdir (rs_db (rr_server r)) commit listen
      (NewRelayServer (rs_addr (rr_server r)) (rs_dbPath (rr_server r)) (rs_maxAge (rr_server r))) = (None, s') \<Longrightarrow>
    relay_step B L r (r\<lparr>rr_server := s', rr_conns := []\<rparr>)"

section \<open>What a line does to the inboxes\<close>

context relay_store begin

text \<open>Without a bound on the sequence numbers the position of a new chunk in the inbox is not known.\<close>

lemma push_set:
  assumes ok: "relay_ok B s" and time: "time_ok L now" and push: "Push B L commit now s p h data = (None, s')"
  shows "relay_ok B s' \<and> rs_maxAge s' = rs_maxAge s \<and>
    set (inbox B L s' q) = (if q = p then insert \<lparr>rc_ChunkHash = h, rc_Data = data, rc_PushedAt = now\<rparr> else id) (set (inbox B L s q))"
proof -
  obtain d where d: "rs_db s = Some d" "distinct (map fst d)" "\<And>p m. map_of d p = Some m \<Longrightarrow> seq_keys m"
    using relay_okD [OF ok] by blast
  let ?c = "\<lparr>rc_ChunkHash = h, rc_Data = data, rc_PushedAt = now\<rparr>" and ?t = "marshal (chunk_fields L)"
  let ?u = "\<lambda>kv. unmarshal (chunk_of_fields L) (snd kv)"
  define m where "m = (case map_of d p of None \<Rightarrow> b_empty B | Some m \<Rightarrow> m)"
  have sk: "seq_keys m" using d(3) by (auto simp: m_def seq_keys_empty split: option.split)
  have old: "inbox B L s p = bucket_chunks B L m"
    by (simp add: inbox_def d m_def bucket_chunks_def entries_empty List.map_filter_def split: option.split)
  obtain m1 where nx: "b_next B m = Some m1" using next_ok [of m] by blast
  have "push_tx B L now p h data d =
      (if p = [] then None else map_option (\<lambda>m2. AList.update p m2 d) (b_put B m1 (pad10 (b_seq B m1)) (?t ?c)))"
    unfolding push_tx_def m_def [symmetric] Let_def by (simp add: nx split: option.split)
  then obtain m2 where m2: "b_put B m1 (pad10 (b_seq B m1)) (?t ?c) = Some m2" and s': "s' = s\<lparr>rs_db := Some (AList.update p m2 d)\<rparr>"
    using push d(1) by (auto simp: Push_def split: if_splits option.splits)
  have "pad10 (b_seq B m1) \<notin> dom (b_get B m)"
  proof
    assume "pad10 (b_seq B m1) \<in> dom (b_get B m)"
    then obtain n where "pad10 (b_seq B m1) = pad10 n" "n \<le> b_seq B m" using sk unfolding seq_keys_def by blast
    then show False using seq_next [OF nx] by simp
  qed
  then have ents: "set (b_entries B m2) = insert (pad10 (b_seq B m1), ?t ?c) (set (b_entries B m))"
    by (auto simp: entries_iff get_put [OF m2] get_next [OF nx] split: if_splits)
  have "?u (x, ?t ?c) = Some ?c" for x using time by (simp add: chunk_json.unmarshal_marshal)
  then have bc: "set (bucket_chunks B L m2) = insert ?c (set (bucket_chunks B L m))"
    by (auto simp: bucket_chunks_def List.map_filter_def ents) force+
  have dis: "distinct (map fst (AList.update p m2 d))" using d(2) by (rule AList.distinct_update)
  have "relay_ok B s'"
  proof (rule relay_okI)
    show "seq_keys m'" if "(q, m') \<in> set (AList.update p m2 d)" for q m'
    proof -
      have "map_of (AList.update p m2 d) q = Some m'" using that dis by simp
      then show ?thesis using d(3) put_next_seq [OF sk nx m2] by (auto simp: update_conv' split: if_splits)
    qed
  qed (use dis in \<open>simp_all add: s'\<close>)
  moreover have "inbox B L s' = (inbox B L s)(p := bucket_chunks B L m2)"
    by (rule ext) (simp add: s' inbox_def d update_conv')
  moreover have "rs_maxAge s' = rs_maxAge s" by (simp add: s')
  ultimately show ?thesis using bc old by simp
qed

lemma pull_set:
  assumes ok: "relay_ok B s" and pull: "Pull B L commit s p = (Some cs, s')"
  shows "cs = inbox B L s p \<and> relay_ok B s' \<and> rs_maxAge s' = rs_maxAge s \<and>
    (inbox B L s' = inbox B L s \<or> inbox B L s' = (inbox B L s)(p := []))"
proof -
  obtain d where d: "rs_db s = Some d" using relay_okD [OF ok] by blast
  have c: "cs = inbox B L s p" using pull by (auto simp: Pull_def d inbox_def split: option.splits)
  have age: "rs_maxAge s' = rs_maxAge s" using pull by (auto simp: Pull_def d split: option.splits if_splits)
  show ?thesis
  proof (cases commit)
    case True
    then show ?thesis using pull_ok [OF ok, of L p] pull c age by auto
  next
    case False
    then have "s' = s" using pull by (auto simp: Pull_def d split: option.splits)
    then show ?thesis using ok c by simp
  qed
qed

lemma push_failed: "Push B L commit now s p h data = (Some e, s') \<Longrightarrow> s' = s"
  by (auto simp: Push_def split: if_splits option.splits)

lemma evict_set:
  assumes ok: "relay_ok B s" and keyN: "\<And>m m'. keyN L m m' = length (b_entries B m) \<or> keyN L m m' = length (b_entries B m')"
  shows "relay_ok B (evict B L commit now s) \<and> rs_maxAge (evict B L commit now s) = rs_maxAge s \<and>
    set (inbox B L (evict B L commit now s) p) \<subseteq> set (inbox B L s p) \<and>
    (\<forall>c \<in> set (inbox B L s p). c \<in> set (inbox B L (evict B L commit now s) p) \<or> rc_PushedAt c < now - rs_maxAge s)"
proof (cases commit)
  case True
  have "rs_maxAge (evict B L True now s) = rs_maxAge s" by (simp add: evict_def split: option.split)
  then show ?thesis using True evict_ok [OF ok keyN, of now] by auto
next
  case False
  then have "evict B L commit now s = s" by (simp add: evict_def split: option.split)
  then show ?thesis using ok by simp
qed

lemma line_set:
  assumes ok: "relay_ok B s" and time: "time_ok L now" and line: "handle_line B L commit now inp s = Some (req, resp, rest, s')"
  shows "relay_ok B s' \<and> rs_maxAge s' = rs_maxAge s \<and>
    (\<forall>p c. c \<in> set (inbox B L s' p) \<longrightarrow> c \<in> set (inbox B L s p) \<or> (p, c) \<in> set (pushed_by now req resp)) \<and>
    (\<forall>p c. c \<in> set (inbox B L s p) \<or> (p, c) \<in> set (pushed_by now req resp) \<longrightarrow>
       c \<in> set (inbox B L s' p) \<or> (p, wire_of_chunk c) \<in> set (handed_out req resp)) \<and>
    (\<forall>p w. (p, w) \<in> set (handed_out req resp) \<longrightarrow> w \<in> wire_of_chunk ` set (inbox B L s p))"
proof (cases req)
  case None
  then have "s' = s" using line by (auto simp: handle_line_def split: option.splits prod.splits)
  then show ?thesis using ok None by (simp add: pushed_by_def handed_out_def)
next
  case (Some r)
  have h: "handle_request B L commit now s r = (resp, s')" using line Some by (auto simp: handle_line_def split: option.splits prod.splits)
  consider (push) data where "rq_Op r = ''push''" "b64_decode (rq_Data r) = Some data"
      "Push B L commit now s (rq_PeerID r) (rq_ChunkHash r) data = (None, s')" "resp = ok_response"
    | (pull) cs where "rq_Op r = ''pull''" "Pull B L commit s (rq_PeerID r) = (Some cs, s')"
      "resp = ok_response\<lparr>rp_Chunks := map wire_of_chunk cs\<rparr>"
    | (other) "s' = s" "rp_Chunks resp = []" "rq_Op r = ''push'' \<Longrightarrow> \<not> rp_OK resp"
  proof -
    have fails: "rp_Chunks (fail_response e) = []" "\<not> rp_OK (fail_response e)" for e by (simp_all add: fail_response_def)
    have pl: "s2 = s" if "Pull B L commit s p = (None, s2)" for p s2 using that by (auto simp: Pull_def split: option.splits)
    show ?thesis
      using h fails push_failed pl that
      by (auto simp: handle_request_def ok_response_def split: if_splits option.splits prod.splits)
  qed
  then show ?thesis
  proof cases
    case push
    then have p: "pushed_by now req resp = [(rq_PeerID r, \<lparr>rc_ChunkHash = rq_ChunkHash r, rc_Data = data, rc_PushedAt = now\<rparr>)]"
      "handed_out req resp = []" using Some by (simp_all add: pushed_by_def handed_out_def ok_response_def)
    show ?thesis using push_set [OF ok time push(3)] unfolding p by auto
  next
    case pull
    then have p: "pushed_by now req resp = []" "handed_out req resp = map (Pair (rq_PeerID r)) (map wire_of_chunk cs)"
      using Some by (simp_all add: pushed_by_def handed_out_def)
    show ?thesis using pull_set [OF ok pull(2)] unfolding p by (auto split: if_splits)
  next
    case other
    then have "pushed_by now req resp = []" "handed_out req resp = []" using Some by (auto simp: pushed_by_def handed_out_def)
    then show ?thesis using ok other(1) by simp
  qed
qed

text \<open>The bookkeeping of the histories.\<close>

definition accounted :: "'m relay_lib \<Rightarrow> 'm relay_run \<Rightarrow> bool" where
  "accounted L r \<longleftrightarrow> relay_ok B (rr_server r) \<and>
     (\<forall>p c. (p, c) \<in> set (rr_pushed r) \<longrightarrow> c \<in> set (inbox B L (rr_server r) p) \<or> (p, wire_of_chunk c) \<in> set (rr_pulled r @ rr_lost r) \<or>
        (\<exists>t \<in> set (rr_evicted r). rc_PushedAt c < t - rs_maxAge (rr_server r))) \<and>
     (\<forall>p c. c \<in> set (inbox B L (rr_server r) p) \<longrightarrow> (p, c) \<in> set (rr_pushed r)) \<and>
     (\<forall>p w. (p, w) \<in> set (rr_pulled r @ rr_lost r) \<longrightarrow> (\<exists>c. (p, c) \<in> set (rr_pushed r) \<and> w = wire_of_chunk c))"

lemma accounted_line:
  assumes acc: "accounted L r" and time: "time_ok L now" and line: "handle_line B L commit now inp (rr_server r) = Some (req, resp, rest, s')"
    and hist: "set (pl @ lo) = set (rr_pulled r @ rr_lost r) \<union> set (handed_out req resp)"
  shows "accounted L (r\<lparr>rr_server := s', rr_conns := cs, rr_pushed := rr_pushed r @ pushed_by now req resp, rr_pulled := pl, rr_lost := lo\<rparr>)"
proof -
  note a = acc [unfolded accounted_def]
  have ok: "relay_ok B (rr_server r)" using a by blast
  have kept: "c \<in> set (inbox B L (rr_server r) p) \<or> (p, wire_of_chunk c) \<in> set (rr_pulled r @ rr_lost r) \<or>
      (\<exists>t \<in> set (rr_evicted r). rc_PushedAt c < t - rs_maxAge (rr_server r))" if "(p, c) \<in> set (rr_pushed r)" for p c
    using a that by blast
  have own: "(p, c) \<in> set (rr_pushed r)" if "c \<in> set (inbox B L (rr_server r) p)" for p c using a that by blast
  have out: "\<exists>c. (p, c) \<in> set (rr_pushed r) \<and> w = wire_of_chunk c" if "(p, w) \<in> set (rr_pulled r @ rr_lost r)" for p w using a that by blast
  note l = line_set [OF ok time line]
  have age: "rs_maxAge s' = rs_maxAge (rr_server r)" and ok': "relay_ok B s'" using l by blast+
  have new: "c \<in> set (inbox B L (rr_server r) p) \<or> (p, c) \<in> set (pushed_by now req resp)" if "c \<in> set (inbox B L s' p)" for p c
    using l that by blast
  have old: "c \<in> set (inbox B L s' p) \<or> (p, wire_of_chunk c) \<in> set (handed_out req resp)"
    if "c \<in> set (inbox B L (rr_server r) p) \<or> (p, c) \<in> set (pushed_by now req resp)" for p c using l that by blast
  have given: "w \<in> wire_of_chunk ` set (inbox B L (rr_server r) p)" if "(p, w) \<in> set (handed_out req resp)" for p w using l that by blast
  let ?h = "set (rr_pulled r @ rr_lost r) \<union> set (handed_out req resp)"
    and ?r = "r\<lparr>rr_server := s', rr_conns := cs, rr_pushed := rr_pushed r @ pushed_by now req resp, rr_pulled := pl, rr_lost := lo\<rparr>"
  have "c \<in> set (inbox B L s' p) \<or> (p, wire_of_chunk c) \<in> ?h \<or> (\<exists>t \<in> set (rr_evicted r). rc_PushedAt c < t - rs_maxAge s')"
    if "(p, c) \<in> set (rr_pushed r @ pushed_by now req resp)" for p c
    using that kept [of p c] old [of c p] unfolding age by (simp only: set_append Un_iff) blast
  moreover have "(p, c) \<in> set (rr_pushed r @ pushed_by now req resp)" if "c \<in> set (inbox B L s' p)" for p c
    using new [OF that] own [of c p] by (simp only: set_append Un_iff) blast
  moreover have "\<exists>c. (p, c) \<in> set (rr_pushed r @ pushed_by now req resp) \<and> w = wire_of_chunk c" if "(p, w) \<in> ?h" for p w
    using that given [of p w] own [of _ p] out [of p w] by (simp only: set_append Un_iff image_iff) blast
  moreover have "rr_server ?r = s'" "rr_pushed ?r = rr_pushed r @ pushed_by now req resp" "rr_pulled ?r = pl" "rr_lost ?r = lo"
    "rr_evicted ?r = rr_evicted r" by simp_all
  ultimately show ?thesis using ok' unfolding accounted_def hist by (simp only: hist) blast
qed

lemma accounted_step:
  assumes step: "relay_step B L r r'" and acc: "accounted L r"
    and keyN: "\<And>m m'. keyN L m m' = length (b_entries B m) \<or> keyN L m m' = length (b_entries B m')"
  shows "accounted L r'"
  using step
proof cases
  case (accepted inp room)
  then show ?thesis using acc by (simp add: accounted_def)
next
  case (answered i inp room now commit req resp rest s')
  have "set ((rr_pulled r @ handed_out req resp) @ rr_lost r) = set (rr_pulled r @ rr_lost r) \<union> set (handed_out req resp)" by auto
  from accounted_line [OF acc answered(4,5) this] show ?thesis by (simp add: answered(1))
next
  case (unanswered i inp now commit req resp rest s')
  have "set (rr_pulled r @ rr_lost r @ handed_out req resp) = set (rr_pulled r @ rr_lost r) \<union> set (handed_out req resp)" by auto
  from accounted_line [OF acc unanswered(4,5) this] show ?thesis by (simp add: unanswered(1))
next
  case (evicts now commit)
  have ok: "relay_ok B (rr_server r)" using acc by (simp add: accounted_def)
  note e = evict_set [where commit = commit and now = now, OF ok keyN] and a = acc [unfolded accounted_def]
  let ?s = "evict B L commit now (rr_server r)"
  have "c \<in> set (inbox B L ?s p) \<or> (p, wire_of_chunk c) \<in> set (rr_pulled r @ rr_lost r) \<or>
      (\<exists>t \<in> set (rr_evicted r @ [now]). rc_PushedAt c < t - rs_maxAge ?s)" if "(p, c) \<in> set (rr_pushed r)" for p c
    using that a e by (simp only: set_append Un_iff list.set) blast
  moreover have "(p, c) \<in> set (rr_pushed r)" if "c \<in> set (inbox B L ?s p)" for p c
    using that a e by blast
  moreover have "relay_ok B ?s" using e by blast
  moreover have "\<exists>c. (p, c) \<in> set (rr_pushed r) \<and> w = wire_of_chunk c" if "(p, w) \<in> set (rr_pulled r @ rr_lost r)" for p w
    using that a by blast
  ultimately show ?thesis by (simp add: evicts(1) accounted_def)
next
  case (restarts mkdir commit listen s')
  have "relay_ok B (rr_server r)" using acc by (simp add: accounted_def)
  then obtain d where d: "rs_db (rr_server r) = Some d" using relay_okD by blast
  have "s' = rr_server r" using restarts(2) by (auto simp: relay_start_def relay_Init_def NewRelayServer_def d split: if_splits option.splits)
  then show ?thesis using acc by (simp add: accounted_def restarts(1))
qed

end

text \<open>
  C14. The relay keeps what it has accepted: after any interleaving of connections, evictions, failed
  commits and restarts, a chunk whose push was answered with ok is in the inbox of its recipient, or was
  handed out by an answer to a pull for that recipient, or was in such an answer that could not be
  written, or was older than \<open>maxAge\<close> at an eviction. And nobody is handed what was not pushed for him.
\<close>

theorem relay_keeps_accepted:
  assumes B: "kv_reliable B" and run: "(relay_step B L)\<^sup>*\<^sup>* \<lparr>rr_server = s, rr_conns = [], rr_pushed = [], rr_pulled = [], rr_lost = [], rr_evicted = []\<rparr> r"
    and start: "rs_db s = Some []" and keyN: "\<And>m m'. keyN L m m' = length (b_entries B m) \<or> keyN L m m' = length (b_entries B m')"
  shows "((p, c) \<in> set (rr_pushed r) \<longrightarrow>
      c \<in> set (inbox B L (rr_server r) p) \<or> (p, wire_of_chunk c) \<in> set (rr_pulled r) \<union> set (rr_lost r) \<or>
      (\<exists>t \<in> set (rr_evicted r). rc_PushedAt c < t - rs_maxAge (rr_server r))) \<and>
    ((p, w) \<in> set (rr_pulled r) \<longrightarrow> (\<exists>c. (p, c) \<in> set (rr_pushed r) \<and> w = wire_of_chunk c))"
proof -
  let ?r0 = "\<lparr>rr_server = s, rr_conns = [], rr_pushed = [], rr_pulled = [], rr_lost = [], rr_evicted = []\<rparr>"
  have store: "relay_store B" using B by (rule relay_store.intro)
  have "relay_store.accounted B L ?r0"
    using start by (simp add: relay_store.accounted_def [OF store] relay_ok_def inbox_def)
  with run have "relay_store.accounted B L r"
    by (induction rule: rtranclp_induct) (use relay_store.accounted_step [OF store _ _ keyN] in blast)+
  then show ?thesis unfolding relay_store.accounted_def [OF store] by auto
qed

text \<open>A push for bob over a connection, and an eviction at the last moment at which the chunk is kept.\<close>

definition demo_line :: bytes where
  "demo_line = request_line (push_request ''bob'' ''h'' ''abc'')"

theorem relay_keeps_accepted_witness:
  "\<exists>r c. (relay_step ref_ops demo_relay_lib)\<^sup>*\<^sup>* \<lparr>rr_server = demo_relay, rr_conns = [], rr_pushed = [], rr_pulled = [], rr_lost = [], rr_evicted = []\<rparr> r \<and>
     rr_pushed r = [(''bob'', c)] \<and> rr_pulled r = [] \<and> rr_lost r = [] \<and> rr_evicted r = [15] \<and>
     c \<in> set (inbox ref_ops demo_relay_lib (rr_server r) ''bob'')"
proof -
  define data where "data = ''abc''"
  let ?L = "demo_relay_lib" and ?c = "\<lparr>rc_ChunkHash = ''h'', rc_Data = data, rc_PushedAt = 5\<rparr>"
  let ?run = "\<lambda>s cs ps es. \<lparr>rr_server = s, rr_conns = cs, rr_pushed = ps, rr_pulled = [], rr_lost = [], rr_evicted = es\<rparr>"
  obtain s where push: "Push ref_ops ?L True 5 demo_relay ''bob'' ''h'' data = (None, s)"
    using demo_push [of data] by (auto simp: MaxRelayChunk_def data_def)
  have age: "rs_maxAge s = 10" using Push_maxAge [of ref_ops ?L True 5 demo_relay "''bob''" "''h''" data] push by (simp add: demo_relay_def)
  have "length (marshal request_fields (push_request ''bob'' ''h'' data)) = 60" unfolding data_def by code_simp
  then have "length (marshal request_fields (push_request ''bob'' ''h'' data)) < max_token" by (simp add: max_token_def)
  then have scan: "scan_line demo_line = Some (marshal request_fields (push_request ''bob'' ''h'' data), [])" by (simp add: demo_line_def scan_request data_def [symmetric])
  have ne: "data \<noteq> []" by (simp add: data_def)
  have line: "handle_line ref_ops ?L True 5 demo_line demo_relay = Some (Some (push_request ''bob'' ''h'' data), ok_response, [], s)"
    by (simp add: handle_line_def scan request_json.unmarshal_marshal handle_request_def push_request_def push b64_decode_encode ne)
  have hist: "pushed_by 5 (Some (push_request ''bob'' ''h'' data)) ok_response = [(''bob'', ?c)]"
    "handed_out (Some (push_request ''bob'' ''h'' data)) ok_response = []"
    by (simp_all add: pushed_by_def handed_out_def push_request_def ok_response_def b64_decode_encode)
  have s1: "relay_step ref_ops ?L (?run demo_relay [] [] []) (?run demo_relay [(demo_line, 1)] [] [])"
    using accepted [of ref_ops ?L "?run demo_relay [] [] []" demo_line 1] by simp
  have s2: "relay_step ref_ops ?L (?run demo_relay [(demo_line, 1)] [] []) (?run s [([], 0)] [(''bob'', ?c)] [])"
    using answered [of 0 "?run demo_relay [(demo_line, 1)] [] []" demo_line 0 ?L 5 ref_ops True] line hist demo_relay_facts(3) by simp
  have s3: "relay_step ref_ops ?L (?run s [([], 0)] [(''bob'', ?c)] []) (?run (evict ref_ops ?L True 15 s) [([], 0)] [(''bob'', ?c)] [15])"
    using evicts [of "?run s [([], 0)] [(''bob'', ?c)] []" ref_ops ?L 15 True] age by simp
  let ?r = "?run (evict ref_ops ?L True 15 s) [([], 0)] [(''bob'', ?c)] [15]"
  have run: "(relay_step ref_ops ?L)\<^sup>*\<^sup>* (?run demo_relay [] [] []) ?r" using s1 s2 s3 by (blast intro: rtranclp.rtrancl_into_rtrancl)
  have age': "rs_maxAge (rr_server ?r) = 10" using age by (simp add: evict_def split: option.split)
  have keyN: "keyN ?L m m' = length (b_entries ref_ops m) \<or> keyN ?L m m' = length (b_entries ref_ops m')" for m m'
    by (simp add: demo_relay_lib_def)
  have "rs_db demo_relay = Some []" by (simp add: demo_relay_def)
  from relay_keeps_accepted [OF ref.kv_reliable_axioms run this keyN, of "''bob''" ?c]
  have "?c \<in> set (inbox ref_ops ?L (rr_server ?r) ''bob'')" unfolding age' by simp
  then show ?thesis using run by (intro exI [of _ ?r] exI [of _ ?c]) simp
qed

end
