(* ===== verification/WalTypes.thy ===== *)
theory WalTypes
  imports Wal
begin

text \<open>
  What type the entries of the log have (\<open>internal/store/wal.go\<close>): the values that the fields of an
  entry can take, whatever sequence of calls has built the log. The statuses are strings in the code.
\<close>

definition entry_typed :: "nat \<Rightarrow> wal_entry \<Rightarrow> bool" where
  "entry_typed n e \<longleftrightarrow>
     we_Status e \<in> {WALStatusPending, WALStatusInFlight, WALStatusDone} \<and> 0 \<le> we_Retries e \<and> we_Retries e \<le> int n \<and>
     raw_valid (we_Payload e) \<and> in_int64 (we_CreatedAt e) \<and> in_int64 (we_UpdatedAt e) \<and>
     map_option unmarshal_entry (marshal_entry e) = Some (Some e)"

abbreviation log_typed :: "nat \<Rightarrow> ('m, bytes) bucket_ops \<Rightarrow> 'm bolt_store \<Rightarrow> bool" where
  "log_typed n B s \<equiv> list_all (entry_typed n) (store_log B s)"

lemma typed_wal_ok: "entry_typed n e \<longleftrightarrow>
   we_Status e \<in> {WALStatusPending, WALStatusInFlight, WALStatusDone} \<and> 0 \<le> we_Retries e \<and> we_Retries e \<le> int n \<and> wal_ok e"
  if "int n < 2 ^ 63"
proof
  assume t: "entry_typed n e"
  then have i: "entry_ints_ok e" using that by (simp add: entry_typed_def entry_ints_ok_def in_int64_def int64_min_def int64_max_def)
  obtain x where x: "marshal_entry e = Some x" "unmarshal_entry x = Some e" using t by (auto simp: entry_typed_def)
  then have "canon_entry e = e" using unmarshal_marshal_entry [OF x(1) i] by simp
  then show "we_Status e \<in> {WALStatusPending, WALStatusInFlight, WALStatusDone} \<and> 0 \<le> we_Retries e \<and> we_Retries e \<le> int n \<and> wal_ok e"
    using t i by (simp add: wal_ok_def entry_typed_def)
next
  assume t: "we_Status e \<in> {WALStatusPending, WALStatusInFlight, WALStatusDone} \<and> 0 \<le> we_Retries e \<and> we_Retries e \<le> int n \<and> wal_ok e"
  then have "unmarshal_entry (marshal wal_fields e) = Some e" "marshal_entry e = Some (marshal wal_fields e)"
    using wal_okD [of e] unmarshal_marshal_entry [of e] by (simp_all add: wal_ok_def)
  then show "entry_typed n e" using t by (simp add: entry_typed_def wal_ok_def entry_ints_ok_def)
qed

context wal_bucket begin

lemma log_ok: "store_inv B s \<Longrightarrow> e \<in> set (store_log B s) \<Longrightarrow> wal_ok e"
  using entry_invD by (fastforce simp: store_inv_def store_log_def wal_log_def wal_inv_def list_all_iff split: bolt_handle.splits option.splits)

lemma typed_mono: "entry_typed n e \<Longrightarrow> n \<le> n' \<Longrightarrow> entry_typed n' e"
  by (auto simp: entry_typed_def)

text \<open>An update of one entry that keeps the type keeps the type of the log.\<close>

lemma typed_update:
  assumes "log_typed n B s" "int (Suc n) < 2 ^ 63" "store_log B s' = update_log i g (store_log B s)" "store_inv B s'"
    and g: "\<And>e. entry_typed n e \<Longrightarrow> we_Status (g e) \<in> {WALStatusPending, WALStatusInFlight, WALStatusDone} \<and>
      0 \<le> we_Retries (g e) \<and> we_Retries (g e) \<le> int (Suc n)"
  shows "log_typed (Suc n) B s'"
  unfolding list_all_iff
proof
  fix e assume e: "e \<in> set (store_log B s')"
  then obtain e0 where e0: "e0 \<in> set (store_log B s)" "e = e0 \<or> e = g e0" using assms(3) by (auto simp: update_log_def)
  then have "entry_typed n e0" using assms(1) by (simp add: list_all_iff)
  then have "we_Status e \<in> {WALStatusPending, WALStatusInFlight, WALStatusDone} \<and> 0 \<le> we_Retries e \<and> we_Retries e \<le> int (Suc n)"
    using e0(2) g [of e0] by (auto simp: entry_typed_def)
  then show "entry_typed (Suc n) e" using typed_wal_ok [OF assms(2)] log_ok [OF assms(4) e] by blast
qed

lemma typed_retry: "entry_typed n e \<Longrightarrow> int (Suc n) < 2 ^ 63 \<Longrightarrow> we_Retries (set_retry now e) = we_Retries e + 1"
  by (simp add: set_retry_def entry_typed_def wrap64_id in_int64_def int64_min_def int64_max_def)

lemma wal_step_typed:
  assumes inv: "store_inv B s" and t: "op_time_ok c" and ty: "log_typed n B s" and n: "int (Suc n) < 2 ^ 63"
    and st: "wal_step B c s = (ev, s')"
  shows "store_inv B s' \<and> log_typed (Suc n) B s'"
proof -
  have keep: "store_inv B s \<and> log_typed (Suc n) B s" using inv ty typed_mono by (fastforce simp: list_all_iff)
  have status: "store_inv B s2 \<and> log_typed (Suc n) B s2"
    if "updateStatus B now s i x = (r, s2)" "in_int64 now" "x \<in> {WALStatusPending, WALStatusInFlight, WALStatusDone}" for now i x r s2
  proof (cases r)
    case (Inl er)
    then show ?thesis using keep store_op_error(2) that(1) by metis
  next
    case (Inr u)
    then have "store_inv B s2" "store_log B s2 = update_log i (set_status x now) (store_log B s)"
      using updateStatus_Inr [of now s i x u s2] that(1,2) inv by simp_all
    then show ?thesis using typed_update [OF ty n] that(3) by (force simp: set_status_def entry_typed_def)
  qed
  show ?thesis
  proof (cases c)
    case (OpEnqueue now p q pl)
    obtain r s1 where r: "EnqueueEntry B now s p q pl = (r, s1)" by fastforce
    show ?thesis
    proof (cases r)
      case (Inl er)
      then show ?thesis using r st OpEnqueue keep store_op_error(1) [of B now s p q pl er s1] by simp
    next
      case (Inr e)
      have k: "store_inv B s1" "set (store_log B s1) = insert (canon_entry e) (set (store_log B s))"
        "we_Status e = WALStatusPending" "we_Retries e = 0" "s1 = s'"
        using enqueue_set [OF r [unfolded Inr] inv] t st r Inr OpEnqueue by auto
      have "wal_ok (canon_entry e)" using log_ok [OF k(1)] k(2) by simp
      then have "entry_typed (Suc n) (canon_entry e)" using typed_wal_ok [OF n] k(3,4) by simp
      then show ?thesis using k keep by (simp add: list_all_iff)
    qed
  next
    case (OpInFlight now i)
    obtain r s1 where "MarkInFlight B now s i = (r, s1)" by fastforce
    then show ?thesis using status [of now i WALStatusInFlight r s1] t st OpInFlight by (simp add: MarkInFlight_def)
  next
    case (OpDone now i)
    obtain r s1 where "MarkDone B now s i = (r, s1)" by fastforce
    then show ?thesis using status [of now i WALStatusDone r s1] t st OpDone by (simp add: MarkDone_def)
  next
    case (OpFailed now i)
    obtain r s1 where r: "MarkFailed B now s i = (r, s1)" by fastforce
    show ?thesis
    proof (cases r)
      case (Inl er)
      then show ?thesis using r st OpFailed keep store_op_error(3) [of B now s i er s1] by simp
    next
      case (Inr u)
      then have "store_inv B s1" "store_log B s1 = update_log i (set_retry now) (store_log B s)" "s1 = s'"
        using MarkFailed_Inr [of now s i u s1] r st OpFailed t inv by simp_all
      moreover have "we_Status (set_retry now e) \<in> {WALStatusPending, WALStatusInFlight, WALStatusDone} \<and>
          0 \<le> we_Retries (set_retry now e) \<and> we_Retries (set_retry now e) \<le> int (Suc n)" if "entry_typed n e" for e
        using typed_retry [OF that n, of now] that by (simp add: set_retry_def entry_typed_def)
      ultimately show ?thesis using typed_update [OF ty n, of s1 i "set_retry now"] by simp
    qed
  next
    case (OpDelete i)
    obtain r s1 where r: "DeleteEntry B s i = (r, s1)" by fastforce
    show ?thesis
    proof (cases r)
      case (Inl er)
      then show ?thesis using r st OpDelete keep store_op_error(4) [of B s i er s1] by simp
    next
      case (Inr u)
      then show ?thesis using DeleteEntry_Inr [of s i u s1] r st OpDelete inv keep by (auto simp: list_all_iff)
    qed
  qed
qed

end

text \<open>
  C28. Every entry of the log is well typed after any sequence of calls, failed ones included: its status is pending, in
  flight or done, and never \<open>WALStatusFailed\<close>; its retry counter is not negative and grows by at most one per
  call; its payload is valid JSON; and what is stored for it reads back as the same entry.
\<close>

theorem log_stays_typed:
  assumes "wal_bucket B" "store_inv B s" "log_typed n B s" "list_all op_time_ok cs" "int (n + length cs) < 2 ^ 63"
  shows "log_typed (n + length cs) B (snd (wal_run B cs s)) \<and> WALStatusFailed \<notin> we_Status ` set (store_log B (snd (wal_run B cs s)))"
proof -
  have "store_inv B (snd (wal_run B cs s)) \<and> log_typed (n + length cs) B (snd (wal_run B cs s))"
    using assms(2-)
  proof (induction cs arbitrary: s n)
    case (Cons c cs)
    obtain ev s1 where w: "wal_step B c s = (ev, s1)" by fastforce
    then have "store_inv B s1" "log_typed (Suc n) B s1"
      using wal_bucket.wal_step_typed [OF assms(1) Cons.prems(1) _ Cons.prems(2) _ w] Cons.prems(3,4) by simp_all
    then show ?case using Cons.IH [of s1 "Suc n"] Cons.prems(3,4) w by (simp add: split_beta)
  qed simp
  then show ?thesis
    by (auto simp: list_all_iff entry_typed_def WALStatusPending_def WALStatusInFlight_def WALStatusDone_def WALStatusFailed_def)
qed

theorem log_stays_typed_witness:
  "log_typed (0 + length [OpEnqueue 1 ''bob'' ''a'' None, OpInFlight 2 ''0000000001'', OpFailed 3 ''0000000001'']) ref_ops
     (snd (wal_run ref_ops [OpEnqueue 1 ''bob'' ''a'' None, OpInFlight 2 ''0000000001'', OpFailed 3 ''0000000001''] fresh_store)) \<and>
   WALStatusFailed \<notin> we_Status ` set (store_log ref_ops (snd (wal_run ref_ops [OpEnqueue 1 ''bob'' ''a'' None, OpInFlight 2 ''0000000001'',
        OpFailed 3 ''0000000001''] fresh_store)))"
  by (rule log_stays_typed)
    (simp_all add: wal_bucket_ref fresh_store_simps in_int64_def int64_min_def int64_max_def)

end
