(* ===== verification/ChunkStore.thy ===== *)
theory ChunkStore
  imports Engine "HOL-Library.Sublist"
begin

text \<open>
  \<open>internal/store/chunks.go\<close> under concurrency. A node serves several sessions at once and every one of them
  calls \<open>WriteChunk\<close> on the same directory and database, without a lock; the comment in the code says that
  this is safe because a chunk is named by its hash. Here \<open>WriteChunk\<close> is cut into its calls of the
  operating system and of SQLite: \<open>wstep\<close> makes one of them, \<open>chunk_step\<close> interleaves any number of writers,
  new calls and processes that end in the middle. The answers of the system are arguments; what
  \<open>os.CreateTemp\<close> and \<open>os.Rename\<close> document about theirs is \<open>answer_ok\<close>.

  Lemmas: a writer that is not interrupted computes exactly the function \<open>WriteChunk\<close>; whatever happens, a
  chunk file is never seen half written, no row is without its file, and what was stored stays readable.
\<close>

section \<open>One writer, call by call\<close>

datatype rename_answer = RnDone | RnExists | RnError

text \<open>What the system answers: whether the call works, the random part of a temporary name, the bytes
  that one \<open>write\<close> accepts, and the result of a rename.\<close>

record os_answer =
  oa_ok :: bool
  oa_name :: string
  oa_count :: nat
  oa_rename :: rename_answer

datatype wpc = WcStart | WcStat | WcCreate | WcWrite string nat | WcClose string | WcRename string
  | WcRemove string "chunk_err option" | WcUpsert | WcDone "chunk_err + stored_chunk"

definition temp_path :: "string \<Rightarrow> string \<Rightarrow> string \<Rightarrow> string" where
  "temp_path dir h rnd = filepath_join dir (h @ ''-'' @ rnd @ ''.tmp'')"

text \<open>
  A rename moves whatever the temporary file holds. \<open>tmpFile.Write\<close> calls \<open>write\<close> until everything is
  written; a writer is in \<open>WcWrite t n\<close> when \<open>n\<close> bytes are in the file.
\<close>

fun wstep :: "(bytes \<Rightarrow> bytes) \<Rightarrow> os_answer \<Rightarrow> bytes \<Rightarrow> wpc \<times> 'm engine \<times> files \<Rightarrow> wpc \<times> 'm engine \<times> files" where
  "wstep bl a data (WcStart, e, fs) =
     (if data = [] then (WcDone (Inl ChunkEmpty), e, fs)
      else if en_chunkDir e = [] then (WcDone (Inl NoChunkDir), e, fs)
      else if \<not> oa_ok a then (WcDone (Inl MkdirErr), e, fs)
      else (WcStat, e, fs))"
| "wstep bl a data (WcStat, e, fs) =
     (if \<not> oa_ok a then (WcDone (Inl StatErr), e, fs)
      else if fs (chunk_path (en_chunkDir e) (HashChunk bl data)) \<noteq> None then (WcUpsert, e, fs)
      else (WcCreate, e, fs))"
| "wstep bl a data (WcCreate, e, fs) =
     (if \<not> oa_ok a then (WcDone (Inl TempErr), e, fs)
      else let t = temp_path (en_chunkDir e) (HashChunk bl data) (oa_name a) in (WcWrite t 0, e, fs(t \<mapsto> [])))"
| "wstep bl a data (WcWrite t n, e, fs) =
     (if \<not> oa_ok a then (WcRemove t (Some WriteErr), e, fs)
      else let m = n + oa_count a in
        (if m < length data then WcWrite t m else WcClose t, e, fs(t \<mapsto> take m data)))"
| "wstep bl a data (WcClose t, e, fs) =
     (if oa_ok a then WcRename t else WcRemove t (Some CloseErr), e, fs)"
| "wstep bl a data (WcRename t, e, fs) = (case oa_rename a of
       RnDone \<Rightarrow> (WcUpsert, e, fs(chunk_path (en_chunkDir e) (HashChunk bl data) := fs t, t := None))
     | RnExists \<Rightarrow> (WcRemove t None, e, fs)
     | RnError \<Rightarrow> (WcRemove t (Some CommitErr), e, fs))"
| "wstep bl a data (WcRemove t er, e, fs) =
     (case er of None \<Rightarrow> WcUpsert | Some x \<Rightarrow> WcDone (Inl x), e, os_remove (oa_ok a) t fs)"
| "wstep bl a data (WcUpsert, e, fs) =
     (let h = HashChunk bl data; path = chunk_path (en_chunkDir e) h in
      case UpsertChunk (oa_ok a) (en_sqlite e) h path (int (length data)) of
        (Some er, _) \<Rightarrow> (WcDone (Inl (MetaErr er)), e, fs)
      | (None, sq) \<Rightarrow> (WcDone (Inr \<lparr>sc_Hash = h, sc_Path = path, sc_Size = int (length data)\<rparr>),
                       e\<lparr>en_sqlite := sq\<rparr>, fs))"
| "wstep bl a data (WcDone r, e, fs) = (WcDone r, e, fs)"

text \<open>
  \<open>os.CreateTemp\<close> makes a new file; a rename that works had its source, and one that reports an existing
  target had its target; a \<open>write\<close> that works accepts at least one byte.
\<close>

fun answer_ok :: "(bytes \<Rightarrow> bytes) \<Rightarrow> os_answer \<Rightarrow> bytes \<Rightarrow> wpc \<times> 'm engine \<times> files \<Rightarrow> bool" where
  "answer_ok bl a data (WcCreate, e, fs) =
     (oa_ok a \<longrightarrow> fs (temp_path (en_chunkDir e) (HashChunk bl data) (oa_name a)) = None)"
| "answer_ok bl a data (WcWrite t n, e, fs) = (oa_ok a \<longrightarrow> 0 < oa_count a)"
| "answer_ok bl a data (WcRename t, e, fs) = (case oa_rename a of
       RnDone \<Rightarrow> fs t \<noteq> None
     | RnExists \<Rightarrow> fs (chunk_path (en_chunkDir e) (HashChunk bl data)) \<noteq> None
     | RnError \<Rightarrow> True)"
| "answer_ok bl a data (_, e, fs) = True"

section \<open>Any number of writers\<close>

text \<open>
  The directory and the database with the calls of \<open>WriteChunk\<close> that are under way, and the history of the
  hashes that a call has reported as stored.
\<close>

record 'm chunk_world =
  ck_engine :: "'m engine"
  ck_files :: files
  ck_writers :: "(bytes \<times> wpc) list"
  ck_stored :: "string list"

definition reported :: "wpc \<Rightarrow> wpc \<Rightarrow> string list" where
  "reported pc pc' = (case (pc, pc') of
     (WcDone _, _) \<Rightarrow> [] | (_, WcDone (Inr sc)) \<Rightarrow> [sc_Hash sc] | _ \<Rightarrow> [])"

text \<open>\<open>dies\<close> ends a process in the middle: any of the writers vanish, the files and the tables stay.\<close>

inductive chunk_step :: "(bytes \<Rightarrow> bytes) \<Rightarrow> 'm chunk_world \<Rightarrow> 'm chunk_world \<Rightarrow> bool" for bl where
  calls: "chunk_step bl c (c\<lparr>ck_writers := ck_writers c @ [(data, WcStart)]\<rparr>)"
| writer: "i < length (ck_writers c) \<Longrightarrow> ck_writers c ! i = (data, pc) \<Longrightarrow>
     answer_ok bl a data (pc, ck_engine c, ck_files c) \<Longrightarrow>
     wstep bl a data (pc, ck_engine c, ck_files c) = (pc', e', fs') \<Longrightarrow>
     chunk_step bl c (c\<lparr>ck_engine := e', ck_files := fs', ck_writers := (ck_writers c)[i := (data, pc')],
                        ck_stored := ck_stored c @ reported pc pc'\<rparr>)"
| dies: "chunk_step bl c (c\<lparr>ck_writers := filter alive (ck_writers c)\<rparr>)"

inductive_cases chunk_stepE: "chunk_step bl c c'"

definition chunk_world_of :: "'m engine \<Rightarrow> files \<Rightarrow> 'm chunk_world" where
  "chunk_world_of e fs = \<lparr>ck_engine = e, ck_files = fs, ck_writers = [], ck_stored = []\<rparr>"

abbreviation chunk_runs :: "(bytes \<Rightarrow> bytes) \<Rightarrow> 'm chunk_world \<Rightarrow> 'm chunk_world \<Rightarrow> bool" where
  "chunk_runs bl \<equiv> (chunk_step bl)\<^sup>*\<^sup>*"

section \<open>What one call of the system can do\<close>

fun owned :: "wpc \<Rightarrow> string list" where
  "owned (WcWrite t n) = [t]"
| "owned (WcClose t) = [t]"
| "owned (WcRename t) = [t]"
| "owned (WcRemove t er) = [t]"
| "owned _ = []"

definition is_temp :: "string \<Rightarrow> bool" where
  "is_temp t \<longleftrightarrow> (\<exists>p. t = p @ ''.tmp'')"

lemma temp_path_temp [simp]: "is_temp (temp_path dir h rnd)"
  unfolding is_temp_def temp_path_def filepath_join_def
  by (rule exI [of _ "dir @ ''/'' @ h @ ''-'' @ rnd"]) simp

lemma is_temp_not_chunk [simp]: "is_temp t \<Longrightarrow> chunk_path dir h \<noteq> t" "is_temp t \<Longrightarrow> t \<noteq> chunk_path dir h"
  by (auto simp: is_temp_def)

lemma temp_path_not_chunk [simp]: "chunk_path dir h \<noteq> temp_path dir' h' rnd" "temp_path dir' h' rnd \<noteq> chunk_path dir h"
  using temp_path_temp is_temp_not_chunk by metis+

fun writer_ok :: "(bytes \<Rightarrow> bytes) \<Rightarrow> string \<Rightarrow> files \<Rightarrow> bytes \<Rightarrow> wpc \<Rightarrow> bool" where
  "writer_ok bl dir fs data (WcWrite t n) \<longleftrightarrow> is_temp t \<and> fs t = Some (take n data)"
| "writer_ok bl dir fs data (WcClose t) \<longleftrightarrow> is_temp t \<and> fs t = Some data"
| "writer_ok bl dir fs data (WcRename t) \<longleftrightarrow> is_temp t \<and> fs t = Some data"
| "writer_ok bl dir fs data (WcRemove t er) \<longleftrightarrow>
     is_temp t \<and> fs t \<noteq> None \<and> (er = None \<longrightarrow> fs (chunk_path dir (HashChunk bl data)) \<noteq> None)"
| "writer_ok bl dir fs data WcUpsert \<longleftrightarrow> fs (chunk_path dir (HashChunk bl data)) \<noteq> None"
| "writer_ok bl dir fs data _ \<longleftrightarrow> True"

lemma owned_exists: "writer_ok bl dir fs data pc \<Longrightarrow> t \<in> set (owned pc) \<Longrightarrow> is_temp t \<and> fs t \<noteq> None"
  by (cases pc) auto

lemma owned_distinct [simp]: "distinct (owned pc)"
  by (cases pc) auto

text \<open>The files: only the writer's own temporary file and the file of its own hash change, and the latter
  only to data of that hash.\<close>

lemma wstep_files:
  assumes "wstep bl a data (pc, e, fs) = (pc', e', fs')" "writer_ok bl (en_chunkDir e) fs data pc"
    and "answer_ok bl a data (pc, e, fs)"
  shows "is_temp t \<Longrightarrow> t \<notin> set (owned pc) \<Longrightarrow> fs t \<noteq> None \<Longrightarrow> fs' t = fs t"
    and "fs (chunk_path (en_chunkDir e) k) \<noteq> None \<Longrightarrow> fs' (chunk_path (en_chunkDir e) k) \<noteq> None"
    and "fs' (chunk_path (en_chunkDir e) k) = Some d \<Longrightarrow>
      fs (chunk_path (en_chunkDir e) k) = Some d \<or> k = HashChunk bl data \<and> d = data"
  using assms
  by (cases pc; auto simp: Let_def os_remove_def split: if_splits option.splits rename_answer.splits prod.splits)+

lemma wstep_writer:
  assumes "wstep bl a data (pc, e, fs) = (pc', e', fs')" "writer_ok bl (en_chunkDir e) fs data pc"
    and "answer_ok bl a data (pc, e, fs)"
  shows "writer_ok bl (en_chunkDir e) fs' data pc'" "en_chunkDir e' = en_chunkDir e"
    and "t \<in> set (owned pc') \<Longrightarrow> t \<in> set (owned pc) \<or> fs t = None"
  using assms
  by (cases pc; auto simp: Let_def os_remove_def split: if_splits option.splits rename_answer.splits prod.splits)+

text \<open>The tables: a row is only added for a file that exists.\<close>

lemma wstep_rows:
  assumes "wstep bl a data (pc, e, fs) = (pc', e', fs')"
  shows "map_of (sql_chunks e') = map_of (sql_chunks e) \<and> reported pc pc' = [] \<or>
    pc = WcUpsert \<and> reported pc pc' = [HashChunk bl data] \<and> fs' = fs \<and>
    map_of (sql_chunks e') = (map_of (sql_chunks e))(HashChunk bl data \<mapsto>
      (chunk_path (en_chunkDir e) (HashChunk bl data), int (length data)))"
proof (cases "pc = WcUpsert")
  case True
  then show ?thesis using assms
    by (auto simp: Let_def reported_def sql_chunks_def update_conv' split: option.splits prod.splits
        dest!: UpsertChunk_None)
next
  case False
  then show ?thesis using assms
    by (cases pc)
      (auto simp: Let_def reported_def split: if_splits option.splits rename_answer.splits)
qed

lemma stable_writer:
  assumes "writer_ok bl dir fs data q"
    and "\<And>t. is_temp t \<Longrightarrow> t \<in> set (owned q) \<Longrightarrow> fs t \<noteq> None \<Longrightarrow> fs' t = fs t"
    and "\<And>k. fs (chunk_path dir k) \<noteq> None \<Longrightarrow> fs' (chunk_path dir k) \<noteq> None"
  shows "writer_ok bl dir fs' data q"
  using assms by (cases q) auto

section \<open>The invariant under every interleaving\<close>

definition ck_inv :: "(bytes \<Rightarrow> bytes) \<Rightarrow> 'm chunk_world \<Rightarrow> bool" where
  "ck_inv bl c \<longleftrightarrow> chunk_store_ok bl (ck_engine c) (ck_files c) \<and>
     (\<forall>w \<in> set (ck_writers c). writer_ok bl (en_chunkDir (ck_engine c)) (ck_files c) (fst w) (snd w)) \<and>
     distinct (concat (map (\<lambda>w. owned (snd w)) (ck_writers c))) \<and>
     set (ck_stored c) \<subseteq> dom (map_of (sql_chunks (ck_engine c)))"

lemma distinct_concat_filter:
  "distinct (concat (map f xs)) \<Longrightarrow> distinct (concat (map f (filter P xs)))"
  by (induction xs) auto

lemma ck_inv_writer:
  assumes inv: "ck_inv bl c" and i: "i < length (ck_writers c)" "ck_writers c ! i = (data, pc)"
    and ans: "answer_ok bl a data (pc, ck_engine c, ck_files c)"
    and st: "wstep bl a data (pc, ck_engine c, ck_files c) = (pc', e', fs')"
  shows "ck_inv bl (c\<lparr>ck_engine := e', ck_files := fs', ck_writers := (ck_writers c)[i := (data, pc')],
    ck_stored := ck_stored c @ reported pc pc'\<rparr>)"
proof -
  let ?e = "ck_engine c" and ?fs = "ck_files c" and ?dir = "en_chunkDir (ck_engine c)" and ?own = "\<lambda>w. owned (snd w)"
  define xs ys where "xs = take i (ck_writers c)" and "ys = drop (Suc i) (ck_writers c)"
  have ws: "ck_writers c = xs @ (data, pc) # ys" "(ck_writers c)[i := (data, pc')] = xs @ (data, pc') # ys"
    using i id_take_nth_drop [OF i(1)] by (simp_all add: xs_def ys_def upd_conv_take_nth_drop)
  have store: "chunk_store_ok bl ?e ?fs" and dist: "distinct (concat (map ?own (xs @ (data, pc) # ys)))"
    and stored: "set (ck_stored c) \<subseteq> dom (map_of (sql_chunks ?e))"
    using inv by (simp_all add: ck_inv_def ws)
  have ok: "writer_ok bl ?dir ?fs (fst w) (snd w)" if "w \<in> set (xs @ (data, pc) # ys)" for w
    using inv that unfolding ck_inv_def ws by blast
  have me: "writer_ok bl ?dir ?fs data pc" using ok [of "(data, pc)"] by simp
  note F = wstep_files [OF st me ans] and W = wstep_writer [OF st me ans] and R = wstep_rows [OF st]
  have apart: "set (?own w) \<inter> set (owned pc) = {}" if "w \<in> set xs \<union> set ys" for w
    using dist that by auto
  have others: "writer_ok bl ?dir fs' (fst w) (snd w)" if w: "w \<in> set xs \<union> set ys" for w
  proof (rule stable_writer)
    show "writer_ok bl ?dir ?fs (fst w) (snd w)" using ok w by auto
    show "fs' t = ?fs t" if "is_temp t" "t \<in> set (owned (snd w))" "?fs t \<noteq> None" for t
      by (rule F(1)) (use that apart [OF w] in auto)
  qed (fact F(2))
  have "t \<notin> set (?own w)" if t: "t \<in> set (owned pc')" and w: "w \<in> set xs \<union> set ys" for t w
  proof
    assume "t \<in> set (?own w)"
    moreover have "writer_ok bl ?dir ?fs (fst w) (snd w)" by (rule ok) (use w in auto)
    ultimately have "?fs t \<noteq> None" "t \<notin> set (owned pc)" using owned_exists apart [OF w] by blast+
    then show False using W(3) [OF t] by simp
  qed
  then have "set (owned pc') \<inter> \<Union> (set ` ?own ` (set xs \<union> set ys)) = {}" by blast
  then have dist': "distinct (concat (map ?own (xs @ (data, pc') # ys)))" using dist by (simp; blast)
  have "chunk_store_ok bl e' fs'"
  proof -
    have row: "fst r = chunk_path ?dir h \<and> ?fs (chunk_path ?dir h) \<noteq> None" if "map_of (sql_chunks ?e) h = Some r" for h r
      using store that unfolding chunk_store_ok_def by blast
    have "fst r = chunk_path ?dir h \<and> ?fs (chunk_path ?dir h) \<noteq> None" if "map_of (sql_chunks e') h = Some r" for h r
      using R that me row [of h r] by (auto split: if_split_asm)
    then have "fst r = chunk_path ?dir h \<and> fs' (chunk_path ?dir h) \<noteq> None" if "map_of (sql_chunks e') h = Some r" for h r
      using that F(2) by blast
    moreover have "HashChunk bl d = h" if "fs' (chunk_path ?dir h) = Some d" for h d
      using F(3) [OF that] store unfolding chunk_store_ok_def by blast
    ultimately show ?thesis by (simp add: chunk_store_ok_def W(2))
  qed
  moreover have "set (ck_stored c @ reported pc pc') \<subseteq> dom (map_of (sql_chunks e'))"
    using stored R by auto
  ultimately show ?thesis using others W(1,2) dist' by (auto simp: ck_inv_def ws(2))
qed

lemma ck_inv_step: "chunk_step bl c c' \<Longrightarrow> ck_inv bl c \<Longrightarrow> ck_inv bl c'"
proof (induction rule: chunk_step.induct)
  case (calls c data)
  then show ?case by (auto simp: ck_inv_def)
next
  case (writer i c data pc a pc' e' fs')
  then show ?case by (blast intro: ck_inv_writer)
next
  case (dies c alive)
  then show ?case using distinct_concat_filter by (auto simp: ck_inv_def)
qed

lemma rows_stay: "chunk_step bl c c' \<Longrightarrow>
  dom (map_of (sql_chunks (ck_engine c))) \<subseteq> dom (map_of (sql_chunks (ck_engine c'))) \<and>
  en_chunkDir (ck_engine c') = en_chunkDir (ck_engine c)"
proof (induction rule: chunk_step.induct)
  case (writer i c data pc a pc' e' fs')
  then have "en_chunkDir e' = en_chunkDir (ck_engine c)"
    by (cases pc) (auto simp: Let_def split: if_splits option.splits rename_answer.splits prod.splits)
  then show ?case using wstep_rows [OF writer(4)] by auto
qed simp_all

lemma ck_inv_runs: "chunk_runs bl c c' \<Longrightarrow> ck_inv bl c \<Longrightarrow> ck_inv bl c'"
  by (induction rule: rtranclp_induct) (auto intro: ck_inv_step)

lemma rows_stay_runs: "chunk_runs bl c c' \<Longrightarrow>
  dom (map_of (sql_chunks (ck_engine c))) \<subseteq> dom (map_of (sql_chunks (ck_engine c')))"
  by (induction rule: rtranclp_induct) (use rows_stay in blast)+

lemma ck_inv_start: "chunk_store_ok bl e fs \<Longrightarrow> ck_inv bl (chunk_world_of e fs)"
  by (simp add: ck_inv_def chunk_world_of_def)

lemma row_verifies:
  "chunk_store_ok bl e fs \<Longrightarrow> h \<in> dom (map_of (sql_chunks e)) \<Longrightarrow> VerifyChunk bl True e fs h = Inr True"
proof -
  assume ok: "chunk_store_ok bl e fs" and "h \<in> dom (map_of (sql_chunks e))"
  then obtain r d where "map_of (sql_chunks e) h = Some r" "fs (fst r) = Some d" "HashChunk bl d = h"
    unfolding chunk_store_ok_def by (metis domD not_Some_eq)
  then have "ReadChunk True e fs h = Inr d" "HashChunk bl d = h" by (auto simp: ReadChunk_iff)
  then show ?thesis by (simp add: VerifyChunk_def)
qed

text \<open>
  C10. The chunk store is safe for any number of concurrent writers, whatever fails and whenever a process
  ends in the middle of a call: at every moment each recorded hash has its file and each chunk file holds
  complete data of the hash in its name, so no reader can see a half written chunk, and every chunk that
  could be read before or that some call has reported as stored is read back and verifies.
\<close>

theorem concurrent_writes_keep_store:
  assumes "chunk_store_ok bl e fs" "chunk_runs bl (chunk_world_of e fs) c"
  shows "chunk_store_ok bl (ck_engine c) (ck_files c) \<and>
    set (ck_stored c) \<union> {h. ReadChunk True e fs h \<in> range Inr}
      \<subseteq> {h. VerifyChunk bl True (ck_engine c) (ck_files c) h = Inr True}"
proof -
  have inv: "ck_inv bl c" using ck_inv_runs [OF assms(2)] ck_inv_start [OF assms(1)] by blast
  then have ok: "chunk_store_ok bl (ck_engine c) (ck_files c)"
    and stored: "set (ck_stored c) \<subseteq> dom (map_of (sql_chunks (ck_engine c)))" by (simp_all add: ck_inv_def)
  have "{h. ReadChunk True e fs h \<in> range Inr} \<subseteq> dom (map_of (sql_chunks e))"
    by (auto simp: ReadChunk_iff)
  also have "\<dots> \<subseteq> dom (map_of (sql_chunks (ck_engine c)))"
    using rows_stay_runs [OF assms(2)] by (simp add: chunk_world_of_def)
  finally have "{h. ReadChunk True e fs h \<in> range Inr} \<subseteq> dom (map_of (sql_chunks (ck_engine c)))" .
  with ok stored row_verifies [OF ok] show ?thesis by blast
qed

text \<open>A schedule played by evaluation: which writer moves, and what the system answers.\<close>

fun play :: "(bytes \<Rightarrow> bytes) \<Rightarrow> (nat \<times> os_answer) list \<Rightarrow> 'm chunk_world \<Rightarrow> 'm chunk_world option" where
  "play bl [] c = Some c"
| "play bl ((i, a) # sch) c =
     (if i < length (ck_writers c)
      then let (data, pc) = ck_writers c ! i in
        if answer_ok bl a data (pc, ck_engine c, ck_files c)
        then (case wstep bl a data (pc, ck_engine c, ck_files c) of (pc', e', fs') \<Rightarrow>
          play bl sch (c\<lparr>ck_engine := e', ck_files := fs', ck_writers := (ck_writers c)[i := (data, pc')],
                         ck_stored := ck_stored c @ reported pc pc'\<rparr>))
        else None
      else None)"

lemma play_runs: "play bl sch c = Some c' \<Longrightarrow> chunk_runs bl c c'"
proof (induction bl sch c rule: play.induct)
  case (2 bl i a sch c)
  obtain data pc where w: "ck_writers c ! i = (data, pc)" by fastforce
  obtain pc' e' fs' where st: "wstep bl a data (pc, ck_engine c, ck_files c) = (pc', e', fs')" by (metis prod_cases3)
  have ok: "i < length (ck_writers c)" "answer_ok bl a data (pc, ck_engine c, ck_files c)"
    using 2(2) w by (auto split: if_splits)
  let ?c = "c\<lparr>ck_engine := e', ck_files := fs', ck_writers := (ck_writers c)[i := (data, pc')],
    ck_stored := ck_stored c @ reported pc pc'\<rparr>"
  have "chunk_step bl c ?c" by (rule writer [OF ok(1) w ok(2) st])
  moreover have "play bl sch ?c = Some c'" using 2(2) w ok st by simp
  then have "chunk_runs bl ?c c'" using 2(1) [OF ok(1) w [symmetric] refl ok(2) st [symmetric] refl] by simp
  ultimately show ?case by (rule converse_rtranclp_into_rtranclp)
qed simp

definition fine :: "string \<Rightarrow> os_answer" where
  "fine rnd = \<lparr>oa_ok = True, oa_name = rnd, oa_count = 9, oa_rename = RnDone\<rparr>"

text \<open>Two calls for the same chunk that both create a temporary file; the second one finishes, the first
  one is cut off after it has written one byte.\<close>

definition two_calls :: "((string, bytes) rbt \<times> nat) chunk_world" where
  "two_calls = (chunk_world_of demo_engine no_files)\<lparr>ck_writers := [(''hello'', WcStart), (''hello'', WcStart)]\<rparr>"

definition race :: "(nat \<times> os_answer) list" where
  "race = [(0, fine ''1''), (1, fine ''2''), (0, fine ''1''), (1, fine ''2''), (0, fine ''1''), (1, fine ''2''),
     (0, (fine ''1'')\<lparr>oa_count := 1\<rparr>), (1, fine ''2''), (1, fine ''2''), (1, fine ''2''), (1, fine ''2'')]"

lemma two_calls_runs: "chunk_runs bl (chunk_world_of demo_engine no_files) two_calls"
proof -
  let ?c = "chunk_world_of demo_engine no_files :: ((string, bytes) rbt \<times> nat) chunk_world"
  have "chunk_step bl ?c (?c\<lparr>ck_writers := ck_writers ?c @ [(''hello'', WcStart)]\<rparr>)" by (rule calls)
  moreover have "chunk_step bl (?c\<lparr>ck_writers := ck_writers ?c @ [(''hello'', WcStart)]\<rparr>) two_calls"
    using calls [of bl "?c\<lparr>ck_writers := ck_writers ?c @ [(''hello'', WcStart)]\<rparr>" "''hello''"]
    by (simp add: two_calls_def chunk_world_of_def)
  ultimately show ?thesis by (meson converse_rtranclp_into_rtranclp rtranclp.rtrancl_refl)
qed

lemma race_played:
  "\<exists>c. play id race two_calls = Some c \<and> ck_stored c = [HashChunk id ''hello''] \<and>
     ck_files c (temp_path ''chunks'' (HashChunk id ''hello'') ''1'') = Some ''h'' \<and> length (ck_writers c) = 2 \<and>
     ck_writers c ! 0 = (''hello'', WcWrite (temp_path ''chunks'' (HashChunk id ''hello'') ''1'') 1) \<and>
     (\<exists>r. ck_writers c ! 1 = (''hello'', WcDone r))"
proof -
  define h where "h = HashChunk id ''hello''"
  define t where "t = temp_path ''chunks'' h"
  have t: "temp_path ''chunks'' h = t" by (simp add: t_def)
  have ne: "t ''1'' \<noteq> t ''2''" "t ''2'' \<noteq> t ''1''" by (simp_all add: t_def temp_path_def filepath_join_def)
  have tc: "chunk_path ''chunks'' h \<noteq> t r" "t r \<noteq> chunk_path ''chunks'' h" for r by (simp_all add: t_def)
  show ?thesis
    unfolding h_def [symmetric] t_def [symmetric]
    by (simp add: race_def two_calls_def chunk_world_of_def Let_def fine_def demo_engine_def no_files_def
      h_def [symmetric] t ne tc UpsertChunk_def sql_exec_def reported_def)
qed

text \<open>The race, and then the process ends.\<close>

lemma race_runs:
  obtains c where "chunk_runs id (chunk_world_of demo_engine no_files) c" "ck_stored c = [HashChunk id ''hello'']"
    "ck_writers c = []" "ck_files c (temp_path ''chunks'' (HashChunk id ''hello'') ''1'') = Some ''h''"
proof -
  obtain c where c: "play id race two_calls = Some c" "ck_stored c = [HashChunk id ''hello'']"
    "ck_files c (temp_path ''chunks'' (HashChunk id ''hello'') ''1'') = Some ''h''"
    using race_played by blast
  have "chunk_runs id (chunk_world_of demo_engine no_files) c"
    using two_calls_runs play_runs [OF c(1)] by (rule rtranclp_trans)
  moreover have "chunk_step id c (c\<lparr>ck_writers := filter (\<lambda>_. False) (ck_writers c)\<rparr>)" by (rule dies)
  ultimately have "chunk_runs id (chunk_world_of demo_engine no_files) (c\<lparr>ck_writers := []\<rparr>)"
    by (simp add: rtranclp.rtrancl_into_rtrancl)
  then show ?thesis by (rule that) (simp_all add: c)
qed

theorem concurrent_writes_keep_store_witness:
  "\<exists>c. chunk_runs id (chunk_world_of demo_engine no_files) c \<and> ck_stored c = [HashChunk id ''hello''] \<and>
    chunk_store_ok id (ck_engine c) (ck_files c) \<and>
    set (ck_stored c) \<union> {h. ReadChunk True demo_engine no_files h \<in> range Inr}
      \<subseteq> {h. VerifyChunk id True (ck_engine c) (ck_files c) h = Inr True}"
proof -
  obtain c where c: "chunk_runs id (chunk_world_of demo_engine no_files) c" "ck_stored c = [HashChunk id ''hello'']"
    by (rule race_runs)
  then show ?thesis using concurrent_writes_keep_store [OF demo_store_ok c(1)] by blast
qed

section \<open>Files that nobody removes\<close>

lemma orphan_step:
  assumes "chunk_step bl c c'" "ck_inv bl c" "is_temp t" "ck_files c t = Some x"
    and "t \<notin> \<Union> (set ` owned ` snd ` set (ck_writers c))"
  shows "ck_files c' t = Some x \<and> t \<notin> \<Union> (set ` owned ` snd ` set (ck_writers c'))"
  using assms
proof (induction rule: chunk_step.induct)
  case (writer i c data pc a pc' e' fs')
  have w: "(data, pc) \<in> set (ck_writers c)" using writer(1,2) nth_mem by metis
  have ok: "writer_ok bl (en_chunkDir (ck_engine c)) (ck_files c) data pc" using writer(5) w unfolding ck_inv_def by force
  have "t \<notin> set (owned pc)" using writer(8) w by force
  then have "fs' t = Some x" "t \<notin> set (owned pc')"
    using wstep_files(1) [OF writer(4) ok writer(3)] wstep_writer(3) [OF writer(4) ok writer(3)] writer(6,7) by fastforce+
  moreover have "set ((ck_writers c)[i := (data, pc')]) \<subseteq> insert (data, pc') (set (ck_writers c))"
    by (rule set_update_subset_insert)
  ultimately show ?case using writer(8) by fastforce
qed auto

text \<open>
  C39. The temporary file of a call that was cut off stays for ever: once no running call owns it, no later
  call of \<open>WriteChunk\<close>, in this process or the next, removes, renames or reuses it.
\<close>

theorem orphaned_temp_stays:
  assumes "chunk_store_ok bl e fs" "chunk_runs bl (chunk_world_of e fs) c" "is_temp t" "ck_files c t = Some x"
    and "t \<notin> \<Union> (set ` owned ` snd ` set (ck_writers c))" and "chunk_runs bl c c'"
  shows "ck_files c' t = Some x"
proof -
  have inv: "ck_inv bl c" using ck_inv_runs [OF assms(2)] ck_inv_start [OF assms(1)] by blast
  from assms(6) have "ck_inv bl c' \<and> ck_files c' t = Some x \<and> t \<notin> \<Union> (set ` owned ` snd ` set (ck_writers c'))"
  proof (induction rule: rtranclp_induct)
    case (step y z)
    then have y: "ck_inv bl y" "ck_files y t = Some x" "t \<notin> \<Union> (set ` owned ` snd ` set (ck_writers y))" by simp_all
    show ?case using orphan_step [OF step(2) y(1) assms(3) y(2,3)] ck_inv_step [OF step(2) y(1)] by simp
  qed (use inv assms(4,5) in simp)
  then show ?thesis by simp
qed

theorem orphaned_temp_stays_witness:
  "\<exists>c c'. chunk_runs id (chunk_world_of demo_engine no_files) c \<and> chunk_runs id c c' \<and> length (ck_writers c') = 1 \<and>
     ck_files c' (temp_path ''chunks'' (HashChunk id ''hello'') ''1'') = Some ''h''"
proof -
  obtain c where c: "chunk_runs id (chunk_world_of demo_engine no_files) c" "ck_stored c = [HashChunk id ''hello'']"
    "ck_writers c = []" "ck_files c (temp_path ''chunks'' (HashChunk id ''hello'') ''1'') = Some ''h''"
    by (rule race_runs)
  let ?c = "c\<lparr>ck_writers := ck_writers c @ [(''hello'', WcStart)]\<rparr>"
  have "chunk_runs id c ?c" by (rule r_into_rtranclp, rule calls)
  moreover from orphaned_temp_stays [OF demo_store_ok c(1) temp_path_temp c(4) _ this]
  have "ck_files ?c (temp_path ''chunks'' (HashChunk id ''hello'') ''1'') = Some ''h''" by (simp add: c(3))
  ultimately show ?thesis using c(1,3) by (intro exI [of _ c] exI [of _ ?c]) simp
qed

text \<open>
  C40. A damaged chunk file is never repaired: when a file of the right name with other content exists,
  \<open>WriteChunk\<close> of the right data reports success and keeps the damaged file, and the chunk then reads back
  wrong.
\<close>

theorem damaged_chunk_never_repaired:
  assumes "data \<noteq> []" "en_chunkDir e \<noteq> []" "fe_mkdir env" "fe_stat env" "sq_db (en_sqlite e) = SqlOpen d"
    and "fs (chunk_path (en_chunkDir e) (HashChunk bl data)) = Some bad" "HashChunk bl bad \<noteq> HashChunk bl data"
  shows "\<exists>sc e'. WriteChunk bl env partial True e fs data = (Inr sc, e', fs) \<and>
    ReadChunk True e' fs (sc_Hash sc) = Inr bad \<and> VerifyChunk bl True e' fs (sc_Hash sc) = Inr False"
proof -
  let ?h = "HashChunk bl data"
  obtain sc e' where w: "WriteChunk bl env partial True e fs data = (Inr sc, e', fs)" "sc_Hash sc = ?h"
    and row: "map_of (sql_chunks e') ?h = Some (chunk_path (en_chunkDir e) ?h, int (length data))"
    using assms by (simp add: WriteChunk_def Let_def commit_chunk_file_def UpsertChunk_def sql_exec_def sql_chunks_def update_conv')
  have "ReadChunk True e' fs ?h = Inr bad" using row assms(6) by (simp add: ReadChunk_iff)
  then show ?thesis using w assms(7) by (simp add: VerifyChunk_def)
qed

theorem damaged_chunk_never_repaired_witness:
  "\<exists>sc e'. WriteChunk id smooth_fs [] True demo_engine [chunk_path ''chunks'' (HashChunk id ''hello'') \<mapsto> ''h''] ''hello'' =
      (Inr sc, e', [chunk_path ''chunks'' (HashChunk id ''hello'') \<mapsto> ''h'']) \<and>
    ReadChunk True e' [chunk_path ''chunks'' (HashChunk id ''hello'') \<mapsto> ''h''] (sc_Hash sc) = Inr ''h'' \<and>
    VerifyChunk id True e' [chunk_path ''chunks'' (HashChunk id ''hello'') \<mapsto> ''h''] (sc_Hash sc) = Inr False"
  by (rule damaged_chunk_never_repaired)
    (simp_all add: smooth_fs_def demo_engine_def HashChunk_def hex_encode_def)

section \<open>One writer alone is WriteChunk\<close>

definition solo_step :: "(bytes \<Rightarrow> bytes) \<Rightarrow> bytes \<Rightarrow> wpc \<times> 'm engine \<times> files \<Rightarrow> wpc \<times> 'm engine \<times> files \<Rightarrow> bool" where
  "solo_step bl data st st' \<longleftrightarrow> (\<exists>a. answer_ok bl a data st \<and> wstep bl a data st = st')"

abbreviation solo_runs where
  "solo_runs bl data \<equiv> (solo_step bl data)\<^sup>*\<^sup>*"

text \<open>Every call takes the writer nearer to its end, so it makes at most \<open>8 + length data\<close> of them.\<close>

fun remaining :: "bytes \<Rightarrow> wpc \<Rightarrow> nat" where
  "remaining data WcStart = 8 + length data"
| "remaining data WcStat = 7 + length data"
| "remaining data WcCreate = 6 + length data"
| "remaining data (WcWrite t n) = 5 + (length data - n)"
| "remaining data (WcClose t) = 4"
| "remaining data (WcRename t) = 3"
| "remaining data (WcRemove t er) = 2"
| "remaining data WcUpsert = 1"
| "remaining data (WcDone r) = 0"

lemma remaining_decreases:
  assumes "wstep bl a data (pc, e, fs) = (pc', e', fs')" "answer_ok bl a data (pc, e, fs)" "remaining data pc \<noteq> 0"
  shows "remaining data pc' < remaining data pc"
  using assms
  by (cases pc) (auto simp: Let_def split: if_splits option.splits rename_answer.splits prod.splits)

lemma solo_ends: "(solo_step bl data ^^ n) (pc, e, fs) (pc', e', fs') \<Longrightarrow> n \<ge> remaining data pc \<Longrightarrow> remaining data pc' = 0"
proof (induction n arbitrary: pc e fs)
  case (Suc n)
  from Suc.prems(1) obtain s1 where s: "solo_step bl data (pc, e, fs) s1" "(solo_step bl data ^^ n) s1 (pc', e', fs')"
    by (rule relpowp_Suc_E2)
  obtain pc1 e1 fs1 where s1: "s1 = (pc1, e1, fs1)" by (metis prod_cases3)
  obtain a where a: "answer_ok bl a data (pc, e, fs)" "wstep bl a data (pc, e, fs) = (pc1, e1, fs1)"
    using s(1) by (auto simp: solo_step_def s1)
  have "remaining data pc1 \<le> n"
  proof (cases "remaining data pc = 0")
    case True
    then have "pc1 = pc" using a(2) by (cases pc) auto
    then show ?thesis using True by simp
  next
    case False
    then show ?thesis using remaining_decreases [OF a(2,1)] Suc.prems(2) by simp
  qed
  then show ?case using Suc.IH s(2) s1 by blast
qed simp

text \<open>The outcomes of \<open>fs_env\<close> that the system can give to a call that nobody disturbs.\<close>

definition undisturbed :: "(bytes \<Rightarrow> bytes) \<Rightarrow> string \<Rightarrow> bytes \<Rightarrow> files \<Rightarrow> fs_env \<Rightarrow> bytes \<Rightarrow> bool" where
  "undisturbed bl dir data fs env partial \<longleftrightarrow>
     (\<forall>t. fe_temp env = Some t \<longrightarrow> fs t = None \<and> (\<exists>rnd. t = temp_path dir (HashChunk bl data) rnd)) \<and>
     fe_rename env \<in> {RenameOK, RenameFails} \<and> (partial = [] \<or> strict_prefix partial data)"

definition solo_result :: "(bytes \<Rightarrow> bytes) \<Rightarrow> 'm engine \<Rightarrow> files \<Rightarrow> bytes \<Rightarrow> (chunk_err + stored_chunk) \<times> 'm engine \<times> files \<Rightarrow> bool" where
  "solo_result bl e fs data res \<longleftrightarrow> (\<exists>env partial drv. undisturbed bl (en_chunkDir e) data fs env partial \<and>
     WriteChunk bl env partial drv e fs data = res)"

text \<open>What is known of the state of a writer that runs alone from \<open>e\<close> and \<open>fs\<close>.\<close>

definition fresh_temp :: "(bytes \<Rightarrow> bytes) \<Rightarrow> 'm engine \<Rightarrow> files \<Rightarrow> bytes \<Rightarrow> string \<Rightarrow> bool" where
  "fresh_temp bl e fs data t \<longleftrightarrow> data \<noteq> [] \<and> en_chunkDir e \<noteq> [] \<and> fs t = None \<and>
     fs (chunk_path (en_chunkDir e) (HashChunk bl data)) = None \<and> (\<exists>rnd. t = temp_path (en_chunkDir e) (HashChunk bl data) rnd)"

fun solo_inv :: "(bytes \<Rightarrow> bytes) \<Rightarrow> 'm engine \<Rightarrow> files \<Rightarrow> bytes \<Rightarrow> wpc \<times> 'm engine \<times> files \<Rightarrow> bool" where
  "solo_inv bl e fs data (WcStart, e1, fs1) \<longleftrightarrow> e1 = e \<and> fs1 = fs"
| "solo_inv bl e fs data (WcStat, e1, fs1) \<longleftrightarrow> e1 = e \<and> fs1 = fs \<and> data \<noteq> [] \<and> en_chunkDir e \<noteq> []"
| "solo_inv bl e fs data (WcCreate, e1, fs1) \<longleftrightarrow> e1 = e \<and> fs1 = fs \<and> data \<noteq> [] \<and> en_chunkDir e \<noteq> [] \<and>
     fs (chunk_path (en_chunkDir e) (HashChunk bl data)) = None"
| "solo_inv bl e fs data (WcWrite t n, e1, fs1) \<longleftrightarrow>
     e1 = e \<and> fresh_temp bl e fs data t \<and> n < length data \<and> fs1 = fs(t \<mapsto> take n data)"
| "solo_inv bl e fs data (WcClose t, e1, fs1) \<longleftrightarrow> e1 = e \<and> fresh_temp bl e fs data t \<and> fs1 = fs(t \<mapsto> data)"
| "solo_inv bl e fs data (WcRename t, e1, fs1) \<longleftrightarrow> e1 = e \<and> fresh_temp bl e fs data t \<and> fs1 = fs(t \<mapsto> data)"
| "solo_inv bl e fs data (WcRemove t er, e1, fs1) \<longleftrightarrow> e1 = e \<and> fresh_temp bl e fs data t \<and>
     (er = Some WriteErr \<and> (\<exists>n < length data. fs1 = fs(t \<mapsto> take n data)) \<or>
      er \<in> {Some CloseErr, Some CommitErr} \<and> fs1 = fs(t \<mapsto> data))"
| "solo_inv bl e fs data (WcUpsert, e1, fs1) \<longleftrightarrow> e1 = e \<and> data \<noteq> [] \<and> en_chunkDir e \<noteq> [] \<and>
     (let path = chunk_path (en_chunkDir e) (HashChunk bl data) in
       fs path \<noteq> None \<and> fs1 = fs \<or> (\<exists>t. fresh_temp bl e fs data t \<and> fs1 = fs(path \<mapsto> data)))"
| "solo_inv bl e fs data (WcDone r, e1, fs1) \<longleftrightarrow> solo_result bl e fs data (r, e1, fs1)"

lemma solo_resultI:
  assumes "WriteChunk bl (fs_env.make mk st (Some t) w cl rn rm) partial drv e fs data = res"
    and "fresh_temp bl e fs data t" "rn \<in> {RenameOK, RenameFails}" "partial = [] \<or> strict_prefix partial data"
  shows "solo_result bl e fs data res"
  unfolding solo_result_def undisturbed_def
  by (rule exI [of _ "fs_env.make mk st (Some t) w cl rn rm"], rule exI [of _ partial], rule exI [of _ drv])
    (use assms in \<open>auto simp: fs_env.defs fresh_temp_def\<close>)

lemma solo_resultI0:
  assumes "WriteChunk bl (fs_env.make mk st None True True RenameOK True) [] drv e fs data = res"
  shows "solo_result bl e fs data res"
  unfolding solo_result_def undisturbed_def
  by (rule exI [of _ "fs_env.make mk st None True True RenameOK True"], rule exI [of _ "[]"], rule exI [of _ drv])
    (use assms in \<open>auto simp: fs_env.defs\<close>)

lemma take_prefix: "n < length data \<Longrightarrow> strict_prefix (take n data) data"
  by (metis length_take less_irrefl min.absorb4 strict_prefixI take_is_prefix)

lemma prefix_part:
  assumes "partial = [] \<or> strict_prefix partial data" "data \<noteq> []"
  shows "\<exists>m < length data. partial = take m data"
proof (rule exI [of _ "length partial"])
  show "length partial < length data \<and> partial = take (length partial) data"
    using assms by (auto dest: prefix_length_less simp: strict_prefix_def prefix_def)
qed

lemma temp_differs: "fresh_temp bl e fs data t \<Longrightarrow> chunk_path dir h \<noteq> t"
  by (auto simp: fresh_temp_def)

lemma solo_remove:
  assumes "solo_inv bl e fs data (WcRemove t er, e1, fs1)"
  shows "\<exists>x. er = Some x \<and> solo_result bl e fs data (Inl x, e, os_remove b t fs1)"
proof -
  let ?mk = "\<lambda>w cl rn. fs_env.make True True (Some t) w cl rn b"
  from assms have f: "fresh_temp bl e fs data t" by simp
  have w: "data \<noteq> []" "en_chunkDir e \<noteq> []" "fs (chunk_path (en_chunkDir e) (HashChunk bl data)) = None"
    using f by (simp_all add: fresh_temp_def)
  from assms consider (unwritten) n where "er = Some WriteErr" "n < length data" "fs1 = fs(t \<mapsto> take n data)"
    | (unclosed) "er = Some CloseErr" "fs1 = fs(t \<mapsto> data)" | (unmoved) "er = Some CommitErr" "fs1 = fs(t \<mapsto> data)"
    by auto
  then show ?thesis
  proof cases
    case (unwritten n)
    have "WriteChunk bl (?mk False True RenameOK) (take n data) True e fs data = (Inl WriteErr, e, os_remove b t fs1)"
      using w unwritten by (simp add: WriteChunk_def Let_def commit_chunk_file_def fs_env.defs)
    then have "solo_result bl e fs data (Inl WriteErr, e, os_remove b t fs1)"
      by (rule solo_resultI) (use f take_prefix [OF unwritten(2)] in simp_all)
    then show ?thesis using unwritten by simp
  next
    case unclosed
    have "WriteChunk bl (?mk True False RenameOK) [] True e fs data = (Inl CloseErr, e, os_remove b t fs1)"
      using w unclosed by (simp add: WriteChunk_def Let_def commit_chunk_file_def fs_env.defs)
    then have "solo_result bl e fs data (Inl CloseErr, e, os_remove b t fs1)"
      by (rule solo_resultI) (use f in simp_all)
    then show ?thesis using unclosed by simp
  next
    case unmoved
    have "WriteChunk bl (?mk True True RenameFails) [] True e fs data = (Inl CommitErr, e, os_remove b t fs1)"
      using w unmoved by (simp add: WriteChunk_def Let_def commit_chunk_file_def fs_env.defs)
    then have "solo_result bl e fs data (Inl CommitErr, e, os_remove b t fs1)"
      by (rule solo_resultI) (use f in simp_all)
    then show ?thesis using unmoved by simp
  qed
qed

lemma solo_upsert:
  assumes "solo_inv bl e fs data (WcUpsert, e1, fs1)" "wstep bl a data (WcUpsert, e1, fs1) = (pc', e', fs')"
  shows "\<exists>r. pc' = WcDone r \<and> solo_result bl e fs data (r, e', fs')"
proof -
  let ?path = "chunk_path (en_chunkDir e) (HashChunk bl data)"
  from assms(1) have e1: "e1 = e" "data \<noteq> []" "en_chunkDir e \<noteq> []" by simp_all
  obtain u sq where u: "UpsertChunk (oa_ok a) (en_sqlite e) (HashChunk bl data) ?path (int (length data)) = (u, sq)" by fastforce
  from assms(1) consider (reused) "fs ?path \<noteq> None" "fs1 = fs"
    | (moved) t where "fresh_temp bl e fs data t" "fs1 = fs(?path \<mapsto> data)"
    by (auto simp: Let_def)
  then show ?thesis
  proof cases
    case reused
    then obtain r where r: "pc' = WcDone r"
      "WriteChunk bl (fs_env.make True True None True True RenameOK True) [] (oa_ok a) e fs data = (r, e', fs')"
      using assms(2) e1 u by (auto simp: WriteChunk_def Let_def commit_chunk_file_def fs_env.defs split: option.splits)
    then show ?thesis using solo_resultI0 by blast
  next
    case (moved t)
    have "fs ?path = None" "fs(t := None, ?path \<mapsto> data) = fs1" using moved by (auto simp: fresh_temp_def fun_eq_iff)
    then obtain r where r: "pc' = WcDone r"
      "WriteChunk bl (fs_env.make True True (Some t) True True RenameOK True) [] (oa_ok a) e fs data = (r, e', fs')"
      using assms(2) e1 u by (auto simp: WriteChunk_def Let_def commit_chunk_file_def fs_env.defs split: option.splits)
    then show ?thesis using solo_resultI [OF r(2) moved(1)] by simp
  qed
qed

lemma solo_early:
  assumes "solo_inv bl e fs data (pc, e1, fs1)" "pc \<in> {WcStart, WcStat, WcCreate}" "wstep bl a data (pc, e1, fs1) = (WcDone r, e', fs')"
  shows "solo_result bl e fs data (r, e', fs')"
proof -
  have "WriteChunk bl (fs_env.make (pc \<noteq> WcStart) (pc = WcCreate) None True True RenameOK True) [] True e fs data = (r, e', fs')"
    using assms by (auto simp: WriteChunk_def Let_def commit_chunk_file_def fs_env.defs split: if_splits)
  then show ?thesis by (rule solo_resultI0)
qed

lemma solo_inv_step:
  assumes "solo_step bl data (pc, e1, fs1) (pc', e', fs')" "solo_inv bl e fs data (pc, e1, fs1)"
  shows "solo_inv bl e fs data (pc', e', fs')"
proof -
  obtain a where a: "answer_ok bl a data (pc, e1, fs1)" "wstep bl a data (pc, e1, fs1) = (pc', e', fs')"
    using assms(1) by (auto simp: solo_step_def)
  show ?thesis
  proof (cases "pc \<in> {WcStart, WcStat, WcCreate} \<and> (\<exists>r. pc' = WcDone r)")
    case True
    then show ?thesis using solo_early [OF assms(2)] a(2) by auto
  next
    case False
    then show ?thesis
    proof (cases pc)
      case (WcWrite t n)
      then show ?thesis using a assms(2) by (auto simp: Let_def split: if_splits)
    next
      case (WcRename t)
      show ?thesis
      proof (cases "oa_rename a")
        case RnDone
        let ?path = "chunk_path (en_chunkDir e) (HashChunk bl data)"
        have f: "fresh_temp bl e fs data t" "fs1 = fs(t \<mapsto> data)" "e1 = e" using assms(2) WcRename by simp_all
        have "pc' = WcUpsert" "e' = e" "fs' = (fs(t \<mapsto> data))(?path := Some data, t := None)"
          using a(2) WcRename RnDone f by auto
        moreover have "(fs(t \<mapsto> data))(?path := Some data, t := None) = fs(?path \<mapsto> data)"
          using f(1) by (auto simp: fresh_temp_def fun_eq_iff)
        ultimately show ?thesis using f(1) by (auto simp: Let_def fresh_temp_def)
      qed (use a assms(2) WcRename in \<open>auto simp: fresh_temp_def\<close>)
    next
      case (WcRemove t er)
      then show ?thesis using a solo_remove [of bl e fs data t er e1 fs1 "oa_ok a"] assms(2) by auto
    next
      case WcUpsert
      then show ?thesis using solo_upsert [of bl e fs data e1 fs1 a] assms(2) a(2) by auto
    qed (use a assms(2) in \<open>auto simp: Let_def fresh_temp_def split: if_splits\<close>)
  qed
qed

text \<open>The other way round: each outcome of the function has its run.\<close>

definition ans :: "bool \<Rightarrow> string \<Rightarrow> nat \<Rightarrow> rename_answer \<Rightarrow> os_answer" where
  "ans ok rnd n rn = \<lparr>oa_ok = ok, oa_name = rnd, oa_count = n, oa_rename = rn\<rparr>"

lemma ans_simps [simp]: "oa_ok (ans ok rnd n rn) = ok" "oa_name (ans ok rnd n rn) = rnd"
  "oa_count (ans ok rnd n rn) = n" "oa_rename (ans ok rnd n rn) = rn"
  by (simp_all add: ans_def)

lemma solo_then:
  "answer_ok bl a data st \<Longrightarrow> solo_runs bl data (wstep bl a data st) st' \<Longrightarrow> solo_runs bl data st st'"
  by (rule converse_rtranclp_into_rtranclp) (auto simp: solo_step_def)

lemma solo_now: "answer_ok bl a data st \<Longrightarrow> wstep bl a data st = st' \<Longrightarrow> solo_runs bl data st st'"
  by (rule solo_then) auto

lemma solo_writes:
  assumes "m < length data"
  shows "solo_runs bl data (WcWrite t 0, e, fs(t \<mapsto> [])) (WcWrite t m, e, fs(t \<mapsto> take m data))"
proof (cases "m = 0")
  case False
  show ?thesis by (rule solo_now [of _ "ans True [] m RnDone"]) (use False assms in \<open>simp_all add: Let_def\<close>)
qed simp

lemma solo_written:
  assumes "data \<noteq> []"
  shows "solo_runs bl data (WcWrite t 0, e, fs(t \<mapsto> [])) (WcClose t, e, fs(t \<mapsto> data))"
  by (rule solo_now [of _ "ans True [] (length data) RnDone"]) (use assms in \<open>simp_all add: Let_def\<close>)

text \<open>The part between the temporary file and the metadata.\<close>

lemma solo_commit:
  assumes "undisturbed bl (en_chunkDir e) data fs env partial" "data \<noteq> []"
    and "commit_chunk_file env partial (chunk_path (en_chunkDir e) (HashChunk bl data)) data fs = (q, fs')"
  shows "solo_runs bl data (WcStat, e, fs) (case q of None \<Rightarrow> WcUpsert | Some er \<Rightarrow> WcDone (Inl er), e, fs')"
proof -
  let ?path = "chunk_path (en_chunkDir e) (HashChunk bl data)"
  consider (direct) "\<not> fe_stat env \<or> fs ?path \<noteq> None" | (untemp) "fe_stat env" "fs ?path = None" "fe_temp env = None"
    | (temp) t where "fe_stat env" "fs ?path = None" "fe_temp env = Some t" by auto
  then show ?thesis
  proof cases
    case direct
    show ?thesis
      by (rule solo_now [of _ "ans (fe_stat env) [] 0 RnDone"])
        (use direct assms(3) in \<open>auto simp: commit_chunk_file_def split: if_splits\<close>)
  next
    case untemp
    then have q: "q = Some TempErr" "fs' = fs" using assms(3) by (auto simp: commit_chunk_file_def)
    show ?thesis unfolding q
      by (rule solo_then [of _ "ans True [] 0 RnDone"], simp, rule solo_now [of _ "ans False [] 0 RnDone"])
        (use untemp in simp_all)
  next
    case (temp t)
    then obtain rnd where t: "fs t = None" "t = temp_path (en_chunkDir e) (HashChunk bl data) rnd"
      using assms(1) by (auto simp: undisturbed_def)
    have start: "solo_runs bl data (WcStat, e, fs) (WcWrite t 0, e, fs(t \<mapsto> []))"
      by (rule solo_then [of _ "ans True [] 0 RnDone"], simp, rule solo_now [of _ "ans True rnd 0 RnDone"])
        (use temp t in \<open>simp_all add: Let_def\<close>)
    have removes: "solo_runs bl data (WcRemove t (Some x), e, fs1) (WcDone (Inl x), e, os_remove b t fs1)" for x b fs1
      by (rule solo_now [of _ "ans b [] 0 RnDone"]) simp_all
    consider (unwritten) "\<not> fe_write env" | (unclosed) "fe_write env" "\<not> fe_close env"
      | (unmoved) "fe_write env" "fe_close env" "fe_rename env = RenameFails"
      | (moved) "fe_write env" "fe_close env" "fe_rename env = RenameOK"
      using assms(1) by (auto simp: undisturbed_def)
    then show ?thesis
    proof cases
      case unwritten
      then have q: "q = Some WriteErr" "fs' = os_remove (fe_remove env) t (fs(t \<mapsto> partial))"
        using assms(3) temp by (auto simp: commit_chunk_file_def)
      obtain m where m: "m < length data" "partial = take m data"
        using prefix_part [OF _ assms(2)] assms(1) by (auto simp: undisturbed_def)
      have part: "solo_runs bl data (WcWrite t 0, e, fs(t \<mapsto> [])) (WcWrite t m, e, fs(t \<mapsto> partial))"
        using solo_writes [OF m(1)] by (simp add: m(2))
      have fails: "solo_runs bl data (WcWrite t m, e, fs(t \<mapsto> partial)) (WcRemove t (Some WriteErr), e, fs(t \<mapsto> partial))"
        by (rule solo_now [of _ "ans False [] 0 RnDone"]) simp_all
      show ?thesis unfolding q option.case
        by (rule rtranclp_trans [OF rtranclp_trans [OF rtranclp_trans [OF start part] fails] removes])
    next
      case unclosed
      then have q: "q = Some CloseErr" "fs' = os_remove (fe_remove env) t (fs(t \<mapsto> data))"
        using assms(3) temp by (auto simp: commit_chunk_file_def)
      have fails: "solo_runs bl data (WcClose t, e, fs(t \<mapsto> data)) (WcRemove t (Some CloseErr), e, fs(t \<mapsto> data))"
        by (rule solo_now [of _ "ans False [] 0 RnDone"]) simp_all
      show ?thesis unfolding q option.case
        by (rule rtranclp_trans [OF rtranclp_trans [OF rtranclp_trans [OF start solo_written [OF assms(2)]] fails] removes])
    next
      case unmoved
      then have q: "q = Some CommitErr" "fs' = os_remove (fe_remove env) t (fs(t \<mapsto> data))"
        using assms(3) temp by (auto simp: commit_chunk_file_def)
      have fails: "solo_runs bl data (WcClose t, e, fs(t \<mapsto> data)) (WcRemove t (Some CommitErr), e, fs(t \<mapsto> data))"
        by (rule solo_then [of _ "ans True [] 0 RnError"], simp, rule solo_now [of _ "ans True [] 0 RnError"]) simp_all
      show ?thesis unfolding q option.case
        by (rule rtranclp_trans [OF rtranclp_trans [OF rtranclp_trans [OF start solo_written [OF assms(2)]] fails] removes])
    next
      case moved
      then have q: "q = None" "fs' = fs(t := None, ?path \<mapsto> data)"
        using assms(3) temp by (auto simp: commit_chunk_file_def)
      have "fs(t \<mapsto> data, ?path \<mapsto> data, t := None) = fs'" by (auto simp: q fun_eq_iff t(2))
      then have moves: "solo_runs bl data (WcClose t, e, fs(t \<mapsto> data)) (WcUpsert, e, fs')"
        by - (rule solo_then [of _ "ans True [] 0 RnDone"], simp, rule solo_now [of _ "ans True [] 0 RnDone"], simp_all)
      show ?thesis unfolding q(1) option.case
        by (rule rtranclp_trans [OF rtranclp_trans [OF start solo_written [OF assms(2)]] moves])
    qed
  qed
qed

lemma solo_computes:
  assumes "undisturbed bl (en_chunkDir e) data fs env partial" "WriteChunk bl env partial drv e fs data = (r, e', fs')"
  shows "solo_runs bl data (WcStart, e, fs) (WcDone r, e', fs')"
proof (cases "data = [] \<or> en_chunkDir e = [] \<or> \<not> fe_mkdir env")
  case True
  show ?thesis
    by (rule solo_now [of _ "ans (fe_mkdir env) [] 0 RnDone"])
      (use True assms(2) in \<open>auto simp: WriteChunk_def Let_def split: if_splits\<close>)
next
  case False
  let ?path = "chunk_path (en_chunkDir e) (HashChunk bl data)"
  obtain q fs1 where q: "commit_chunk_file env partial ?path data fs = (q, fs1)" by fastforce
  have ne: "data \<noteq> []" using False by simp
  have first: "solo_runs bl data (WcStart, e, fs) (WcStat, e, fs)"
    by (rule solo_now [of _ "ans True [] 0 RnDone"]) (use False in simp_all)
  note runs = rtranclp_trans [OF first solo_commit [OF assms(1) ne q]]
  show ?thesis
  proof (cases q)
    case (Some er)
    then have "r = Inl er" "e' = e" "fs' = fs1" using assms(2) q False by (simp_all add: WriteChunk_def Let_def)
    then show ?thesis using runs Some by simp
  next
    case None
    obtain u sq where u: "UpsertChunk drv (en_sqlite e) (HashChunk bl data) ?path (int (length data)) = (u, sq)" by fastforce
    have "solo_runs bl data (WcUpsert, e, fs1) (WcDone r, e', fs')"
      by (rule solo_now [of _ "ans drv [] 0 RnDone"])
        (use assms(2) q None False u in \<open>auto simp: WriteChunk_def Let_def split: option.splits\<close>)
    with runs show ?thesis unfolding None option.case by (rule rtranclp_trans)
  qed
qed

text \<open>
  Cutting \<open>WriteChunk\<close> into its calls changes nothing for one caller: the outcomes of an undisturbed run
  from the first call to the last are exactly the values of the function \<open>WriteChunk\<close>, and every such run
  has ended after \<open>8 + length data\<close> calls.
\<close>

theorem solo_writer_is_WriteChunk:
  "(solo_runs bl data (WcStart, e, fs) (WcDone r, e', fs') \<longleftrightarrow>
     (\<exists>env partial drv. undisturbed bl (en_chunkDir e) data fs env partial \<and>
        WriteChunk bl env partial drv e fs data = (r, e', fs'))) \<and>
   fst ` {st. (solo_step bl data ^^ (8 + length data)) (WcStart, e, fs) st} \<subseteq> range WcDone"
  (is "(?run \<longleftrightarrow> ?val) \<and> _")
proof (intro conjI iffI subsetI)
  assume ?run
  then have "solo_inv bl e fs data (WcDone r, e', fs')"
  proof (induction rule: rtranclp_induct)
    case (step st st')
    obtain pc1 e1 fs1 pc2 e2 fs2 where "st = (pc1, e1, fs1)" "st' = (pc2, e2, fs2)" by (metis prod_cases3)
    then show ?case using solo_inv_step step by blast
  qed simp
  then show ?val by (simp add: solo_result_def)
next
  assume ?val
  then show ?run using solo_computes by blast
next
  fix pc assume "pc \<in> fst ` {st. (solo_step bl data ^^ (8 + length data)) (WcStart, e, fs) st}"
  then obtain e1 fs1 where "(solo_step bl data ^^ (8 + length data)) (WcStart, e, fs) (pc, e1, fs1)" by force
  then have "remaining data pc = 0" by (rule solo_ends) simp
  then show "pc \<in> range WcDone" by (cases pc) simp_all
qed

end
