(* ===== verification/Spec2Isabelle.thy ===== *)
theory Spec2Isabelle
  imports Coordinator Commands RelayServer WalTypes ChunkStore
begin

text \<open>
  Verification of Vault P2P, the Go program under \<open>apps/backend\<close>: a node that sends files to other nodes,
  offline first. The paths below are relative to \<open>apps/backend\<close>.

  \<^bold>\<open>The program.\<close> \<open>vault send\<close> writes a transfer to a write-ahead log and then tries to deliver it; \<open>vault run\<close>
  is the node that delivers what is queued when the peer comes online, pulls what a relay holds for it, and
  serves its status over HTTP. A delivery tries a QUIC connection, then a punched connection to the address a
  rendezvous server knows, then the relay. Files are cut by content into chunks; both ends keep chunks by
  their hash. Transfers in a shared space are encrypted under a key that both ends derive from the key of
  the space and a signed capability token.

  \<^bold>\<open>Theories and code.\<close>
  \<^item> \<open>Prelude\<close>, \<open>GoText\<close>, \<open>GoPath\<close>, \<open>Base64\<close>, \<open>Json\<close>, \<open>Utf8\<close>: bytes, results and what the program uses of \<open>strconv\<close>,
    \<open>fmt\<close>, \<open>encoding/hex\<close>, \<open>path/filepath\<close>, \<open>encoding/base64\<close>, \<open>encoding/json\<close> and \<open>unicode/utf8\<close>. The locale \<open>json_struct\<close> is
    the contract of a struct with JSON tags; each struct of the program is an interpretation.
  \<^item> \<open>Bolt\<close>: the interface of bbolt, the locales \<open>kv_bucket\<close> and \<open>kv_reliable\<close>, interpreted on a red-black tree.
  \<^item> \<open>Wal\<close>, \<open>WalTypes\<close> (\<open>internal/store/wal.go\<close>, \<open>bolt.go\<close>): the log as a function of a bucket; \<open>store_log\<close> is its
    abstraction to a list of entries. Lemmas: what each operation does to that list on every branch, refinement of a
    specification (\<open>replay\<close>) by any sequence of calls, the type of the entries.
  \<^item> \<open>Sqlite\<close>, \<open>Engine\<close> (\<open>internal/store\<close>): the metadata tables, the chunk files and the spaces. The locales
    \<open>wal_engine\<close> and \<open>wal_engine_reliable\<close> are what the coordinator relies on.
  \<^item> \<open>ChunkStore\<close> (\<open>internal/store/chunks.go\<close>): \<open>WriteChunk\<close> cut into its system calls; \<open>chunk_step\<close> interleaves any number
    of writers and processes that end in the middle. One writer alone is the function \<open>WriteChunk\<close>.
  \<^item> \<open>Cdc\<close> (\<open>internal/chunk/cdc.go\<close>): the rolling hash on 64-bit words and the buffered chunker, equal to the
    split \<open>cdc_split\<close> of the whole input.
  \<^item> \<open>Crypto\<close> (\<open>internal/crypto\<close>): identities, sealed chunks, tokens, spaces, invites.
  \<^item> \<open>Coordinator\<close> (\<open>internal/sync/coordinator.go\<close>): \<open>cstep\<close> interleaves any number of drains, polls, enqueues and
    crashes; no entry is lost, and one drain delivers in order.
  \<^item> \<open>Session\<close>, \<open>Receiver\<close>, \<open>Sender\<close>, \<open>Transfers\<close> (\<open>internal/network/auth.go\<close>, \<open>session.go\<close>, \<open>transport.go\<close>): the token
    handshake, the receiving loop with its resume file, the sending pipeline as the step relation \<open>pstep\<close>, and
    what a transfer achieves, also when calls of the receiver fail, which the sender does not notice.
  \<^item> \<open>Relay\<close>, \<open>RelayServer\<close>, \<open>RelayTransfer\<close> (\<open>internal/relay\<close>, \<open>internal/network/relay_transfer.go\<close>): the inboxes, the
    line protocol, the run of the server as the step relation \<open>relay_step\<close>, and a file sent through the relay.
  \<^item> \<open>Rendezvous\<close> (\<open>internal/rendezvous\<close>): the registry refines the history of registrations.
  \<^item> \<open>Holepunch\<close>, \<open>Delivery\<close> (\<open>internal/holepunch\<close>, the TLS configurations of \<open>transport.go\<close>, \<open>internal/network/deliverer.go\<close>):
    punching, and the three tiers as one relation with the lines it logs (\<open>deliver_logged\<close>).
  \<^item> \<open>Discovery\<close> (\<open>internal/network/discovery.go\<close>): announcements and the coordinator inside a node.
  \<^item> \<open>Payload\<close>, \<open>Node\<close> (\<open>internal/node/node.go\<close>, \<open>internal/api/server.go\<close>): the identity and the payload of a queued
    transfer; start, delivery function, relay poll and status of a node.
  \<^item> \<open>Cli\<close>, \<open>Progress\<close>, \<open>Commands\<close> (\<open>cmd/vault\<close>): what each command does; the progress bar; the tree of commands with
    their flags, and each command from the opening of the storage to its output and exit status.
  \<^item> This theory: \<open>vault send\<close>, and a node that delivers what it queued, against \<open>vault receive\<close>.

  \<^bold>\<open>Conventions.\<close> State is passed explicitly. An error of the source is a value of an error type. Times, random
  bytes, scheduling and the success of calls to the system are arguments or choices of a step relation, so a
  theorem holds for all of them that its hypotheses allow; the text before a property states these. Third-party
  code (bbolt, SQLite, BLAKE3, Ed25519, AES-GCM, HKDF, QUIC, mDNS, \<open>net/http\<close>) is a parameter with its documented laws as named hypotheses, each shown satisfiable.

  \<^bold>\<open>Bounds and termination.\<close> No function runs on fuel: loops end by a measure (the chunker by what the reader has
  left, the sender pipeline by \<open>weight\<close>). Go's \<open>int\<close> and \<open>int64\<close> are integers with \<open>wrap64\<close> or a hypothesis
  \<open>in_int64\<close> where the code can overflow; the rolling hash is a \<open>64 word\<close>. Order statements about log keys need
  less than 10 to the 10 enqueued entries, the width of a key. The strings of JSON documents are taken to be valid
  UTF-8, except in the payload of a queued transfer, where other bytes are replaced as \<open>json.Marshal\<close> does and
  validity is a hypothesis (\<open>utf8_valid\<close>).

  \<^bold>\<open>Not modelled.\<close> The accept loops and tickers of the servers (when they fire is a choice of the step relations), parsing
  of the command line (cobra), floating point (a parameter of \<open>Progress\<close>), local times, logging other than that of the
  deliverer, signals. A loss of power, which may lose what the system has not written to disk: the code never
  syncs a chunk file. The web frontend only reads the status API.
\<close>

section \<open>From vault send to vault receive\<close>

text \<open>Sender and receiver that name the same space, and each other's keys, agree on a session.\<close>

lemma commands_agree:
  assumes C: "ed_laws C" and me: "loadOrGenerateIdentity C ieA (fl_identity flA) fsA = (Inr me, fsA1)" "identity_ok C me"
    and send: "buildSendPayload C ieA nowA True flA engA fsA filePath peerAddr = (Inr (p, tok, key), fsA2)"
    and now: "in_int64 (unix nowA)" "in_int64 (unix (nowA + 86400000000000))" "unix (nowA + 86400000000000) \<noteq> 0"
    and time: "nowB \<le> unix (nowA + 86400000000000)"
    and space: "fl_space flA \<noteq> []" and bob: "fl_recipientPubkey flA = encodeKey (PublicKey bob)" "PublicKey bob \<noteq> []"
  shows "same_session C nowB (quic_opts (send_deliverer flA peerAddr tok key) (send_deliver_opts flA)) (receive_opts flB resume auth bob key)"
proof -
  have pub: "fl_recipientPubkey flA \<noteq> []" using bob by (simp add: encodeKey_def hex_encode_def)
  have "\<exists>st sid grantee. decodeKey (fl_recipientPubkey flA) = Inr grantee \<and> tok = Some st \<and>
      IssueToken C nowA me grantee sid PermWrite 86400000000000 = Inr st"
    using send space pub by (clarsimp simp: buildSendPayload_def me(1) split: sum.splits) blast
  then obtain st sid grantee where g: "decodeKey (fl_recipientPubkey flA) = Inr grantee" "tok = Some st"
    "IssueToken C nowA me grantee sid PermWrite 86400000000000 = Inr st" by blast
  have "grantee = PublicKey bob" using g(1) by (auto simp: bob(1) decodeKey_def encodeKey_def hex_decode_encode split: if_splits)
  then obtain t where "VerifyToken C nowB st (Some (PublicKey bob)) = Inr t"
    using VerifyToken_issued [OF C me(2) now g(3), of nowB "Some (PublicKey bob)"] time by auto
  then show ?thesis by (simp add: same_session_def quic_opts_def send_deliverer_def receive_opts_def g(2))
qed

text \<open>What a node recovers from an entry that \<open>vault send\<close> has queued.\<close>

lemma queued_auth:
  assumes W: "wal_bucket W" "engine_inv W eng" "in_int64 t"
    and send: "buildSendPayload C ie now True fl eng fs filePath peerAddr = (Inr (p, tok, key), fs1)"
    and queue: "api_enqueue (engine_api W) t eng peerAddr ''send_file'' (Some (marshal payload_fields p)) = (Inr e, eng1)"
    and utf8: "utf8_valid filePath" "utf8_valid peerAddr" "utf8_valid (fl_recipientID fl)" "utf8_valid (fl_space fl)"
    and entry: "entry_core x = entry_core (canon_entry e)" and space: "fl_space fl \<noteq> []"
    and now: "in_int64 (unix now)" "in_int64 (unix (now + 86400000000000))"
    and spaceN: "GetSpace drvN engN (fl_space fl) = Inr (spN, ownerN)" "sp_SymmetricKey spN = key"
  shows "\<exists>q rid. entry_payload (we_Payload x) = Some q \<and> payload_get q ''file_path'' = filePath \<and>
    payload_get q ''peer_addr'' = peerAddr \<and>
    loadTransferAuth C nowN drvN n engN q = Inr (tok, key, rid)"
proof -
  note b = send_payload [OF send]
  let ?q = "sort_key fst p"
  have get: "payload_get ?q k = payload_get p k" for k by (rule payload_stored(3) [OF b(1)])
  have "we_Payload e = Some (marshal payload_fields p)"
    using wal_engine.enqueue_Inr [OF engine_wal [OF W(1)] queue W(2,3)] by auto
  then have e: "e = e\<lparr>we_Payload := Some (marshal payload_fields p)\<rparr>" by (cases e) simp
  have "we_Payload x = we_Payload (canon_entry e)" using entry by (simp add: entry_core_def)
  moreover have "entry_payload (we_Payload (canon_entry e)) = Some ?q" by (subst e) (rule payload_stored(2) [OF b(1) send_payload_utf8 [OF send utf8]])
  moreover obtain st me grantee where st: "tok = Some st" "IssueToken C now me grantee (fl_space fl) PermWrite 86400000000000 = Inr st"
    "payload_get p ''auth_token'' = MarshalToken st" using b(5) space by auto
  have "UnmarshalToken (MarshalToken st) = Inr st" "MarshalToken st \<noteq> []"
    by (simp_all add: UnmarshalToken_def MarshalToken_def signed_json.unmarshal_marshal last_marshal)
  moreover have "token_space (Some st) = fl_space fl"
    using token_space_decoded [OF issued_payload [OF st(2) now]] by simp
  ultimately show ?thesis using b(2,3) get st spaceN by (simp add: loadTransferAuth_def)
qed

text \<open>A delivery over QUIC, by whichever command, to a peer that runs \<open>vault receive\<close> in an agreeing session.\<close>

lemma delivery_arrives:
  fixes engD :: "'e engine option"
  assumes aes: "aes_laws C" and sess: "same_session C nowB (quic_opts d opts) (receive_opts flB True auth bob key)" and resume: "do_Resume opts"
    and dl: "DelivererSendFile B L bl C d opts env engD fsD s (None, Some (pth, out), s')"
    and pth: "pth \<noteq> Relayed" and path: "opens_file env filePath"
    and src: "sf_open (dv_src env pth) = Some rdr" "healthy rdr" and inp: "dv_in env pth = map Some (rv_sent rv)"
    and bob: "loadOrGenerateIdentity C ieB (fl_identity flB) fsB = (Inr bob, fsB1)"
    and space: "fl_space flB \<noteq> []" "GetSpace drv engB (fl_space flB) = Inr (spB, owner)" "sp_SymmetricKey spB = key"
    and recv: "ReceiveOnceWithOptions bl C txt nowB (receive_opts flB True auth bob key) dir cv envs (Some engB) fsB1 (map Some out) = (res, rv)"
    and cv: "conn_ok cv" and nm: "plain_name nm" "path_base filePath = nm"
    and disk: "on_disk dir nm (sf_size (dv_src env pth)) (sf_mtime (dv_src env pth)) (cdc_split (rest_of rdr)) i fsB1"
    and temps: "temps_clear (keep_files dir nm) envs" and engB: "engine_clear dir nm (Some engB)"
    and range: "in_int64 (sf_size (dv_src env pth))" "in_int64 (sf_mtime (dv_src env pth))" "in_int64 (int (length (cdc_split (rest_of rdr))))"
  shows "receive_cmd bl C txt ieB nowB drv flB True auth dir cv envs engB fsB (map Some out) = (map_option CmdReceiveErr res, rv_fs rv) \<and>
    (res = None \<longrightarrow> rv_fs rv (path_join dir nm) = Some (rest_of rdr)) \<and>
    ((\<forall>k. recv_env_ok (keep_files dir nm) (envs k)) \<longrightarrow> res = None)"
proof -
  obtain sv and engS :: "'e engine option" and fsS where
    sent: "SendFileOverConn bl C (quic_opts d opts) (dv_src env pth) sv engS fsS (map Some (rv_sent rv)) (None, out)"
    using delivered_over_conn [OF dl pth] by (auto simp: inp)
  have opts: "so_Resume (quic_opts d opts)" "ro_Resume (receive_opts flB True auth bob key)" using resume by (simp_all add: quic_opts_def receive_opts_def)
  have nm': "path_base (sf_path (dv_src env pth)) = nm" using path nm(2) by (simp add: opens_file_def)
  have "(res = None \<longrightarrow> rv_fs rv (path_join dir nm) = Some (rest_of rdr)) \<and> ((\<forall>k. recv_env_ok (keep_files dir nm) (envs k)) \<longrightarrow> res = None)"
    using stream_arrives [OF aes sess cv opts src sent recv nm(1) nm' disk temps engB range] by blast
  then show ?thesis using recv space by (simp add: receive_cmd_def bob)
qed

text \<open>
  C1. The program end to end, in a shared space: when \<open>vault send\<close> delivers a file over QUIC to the peer
  whose key it was given, and the peer runs \<open>vault receive\<close> for the same space within 24 hours, then a
  \<open>vault receive\<close> that ends without an error leaves the file in its output directory, byte for byte,
  decrypted, also when the reception resumes after any number of complete chunks; and it ends without an error if no
  call that it makes to the system fails. When such a call fails, \<open>vault receive\<close> reports it although the
  sender counts the file as delivered. Conditions: resuming is on at both ends (the default); the
  sender reads the file to its end without an error, while its own chunk store (\<open>engD\<close>, \<open>fsD\<close>) may do anything; the
  receiver's listener and connection work; the output and its side file are as an earlier session left them, and
  the receiver's chunk store uses neither of these two names; the file has a plain name of valid UTF-8; sizes
  and times are \<open>int64\<close>.
\<close>

theorem vault_send_arrives:
  fixes engD :: "'e engine option"
  assumes C: "ed_laws C" "aes_laws C" and me: "loadOrGenerateIdentity C ieA (fl_identity flA) fsA = (Inr me, fsA1)" "identity_ok C me"
    and send: "buildSendPayload C ieA nowA True flA engA fsA filePath peerAddr = (Inr (p, tok, key), fsA2)"
    and now: "in_int64 (unix nowA)" "in_int64 (unix (nowA + 86400000000000))" "unix (nowA + 86400000000000) \<noteq> 0"
    and time: "nowB \<le> unix (nowA + 86400000000000)" and resume: "fl_resume flA"
    and dl: "DelivererSendFile B L bl C (send_deliverer flA peerAddr tok key) (send_deliver_opts flA) env engD fsD s (None, Some (pth, out), s')"
    and pth: "pth \<noteq> Relayed" and path: "opens_file env filePath"
    and src: "sf_open (dv_src env pth) = Some rdr" "healthy rdr" and inp: "dv_in env pth = map Some (rv_sent rv)"
    and bob: "loadOrGenerateIdentity C ieB (fl_identity flB) fsB = (Inr bob, fsB1)" "fl_recipientPubkey flA = encodeKey (PublicKey bob)"
      "PublicKey bob \<noteq> []"
    and space: "fl_space flA \<noteq> []" "fl_space flB = fl_space flA" "GetSpace drv engB (fl_space flB) = Inr (spB, owner)" "sp_SymmetricKey spB = key"
    and recv: "ReceiveOnceWithOptions bl C txt nowB (receive_opts flB True auth bob key) dir cv envs (Some engB) fsB1 (map Some out) = (res, rv)"
    and cv: "conn_ok cv" and nm: "plain_name nm" "path_base filePath = nm"
    and disk: "on_disk dir nm (sf_size (dv_src env pth)) (sf_mtime (dv_src env pth)) (cdc_split (rest_of rdr)) i fsB1"
    and temps: "temps_clear (keep_files dir nm) envs" and engB: "engine_clear dir nm (Some engB)"
    and range: "in_int64 (sf_size (dv_src env pth))" "in_int64 (sf_mtime (dv_src env pth))" "in_int64 (int (length (cdc_split (rest_of rdr))))"
  shows "receive_cmd bl C txt ieB nowB drv flB True auth dir cv envs engB fsB (map Some out) = (map_option CmdReceiveErr res, rv_fs rv) \<and>
    (res = None \<longrightarrow> rv_fs rv (path_join dir nm) = Some (rest_of rdr)) \<and>
    ((\<forall>k. recv_env_ok (keep_files dir nm) (envs k)) \<longrightarrow> res = None)"
proof -
  have sess: "same_session C nowB (quic_opts (send_deliverer flA peerAddr tok key) (send_deliver_opts flA)) (receive_opts flB True auth bob key)"
    by (rule commands_agree [OF C(1) me send now time space(1) bob(2,3)])
  have "do_Resume (send_deliver_opts flA)" "fl_space flB \<noteq> []" using resume space(1,2) by (simp_all add: send_deliver_opts_def)
  then show ?thesis
    by (rule delivery_arrives [OF C(2) sess _ dl pth path src inp bob(1) _ space(3,4) recv cv nm disk temps engB range])
qed

text \<open>
  C2. The program end to end, offline first: what \<open>vault send\<close> queued for a peer that was away is delivered by a
  node later as if it had been sent then. When the node takes the entry out of the log (with the status
  and the counter it has by then) and delivers it over QUIC, and the peer runs \<open>vault receive\<close> for the same
  space within 24 hours after the send, then a \<open>vault receive\<close> that ends without an error leaves the file in its
  output directory, byte for byte, decrypted; and it ends without an error if no call that it makes to the system
  fails. When such a call fails, \<open>vault receive\<close> reports it although the node counts the entry as delivered.
  Conditions: the node has the space with the same key; path, address, recipient and name of the space
  are valid UTF-8; \<open>vault receive\<close> has resuming on (the default; the node always has); the node reads the file to
  its end without an error; the receiver's listener and connection work; the output and its side file are as an
  earlier session left them, and the receiver's chunk store uses neither name; the file has a plain name;
  sizes and times are \<open>int64\<close>.
\<close>

theorem queued_transfer_arrives:
  fixes n :: "'e node"
  assumes C: "ed_laws C" "aes_laws C" and me: "loadOrGenerateIdentity C ieA (fl_identity flA) fsA = (Inr me, fsA1)" "identity_ok C me"
    and W: "wal_bucket W" "engine_inv W engA" "in_int64 t"
    and send: "buildSendPayload C ieA nowA True flA engA fsA filePath peerAddr = (Inr (p, tok, key), fsA2)"
    and queue: "api_enqueue (engine_api W) t engA peerAddr ''send_file'' (Some (marshal payload_fields p)) = (Inr e, engA1)"
    and utf8: "utf8_valid filePath" "utf8_valid peerAddr" "utf8_valid (fl_recipientID flA)" "utf8_valid (fl_space flA)"
    and entry: "entry_core x = entry_core (canon_entry e)"
    and now: "in_int64 (unix nowA)" "in_int64 (unix (nowA + 86400000000000))" "unix (nowA + 86400000000000) \<noteq> 0"
    and time: "nowB \<le> unix (nowA + 86400000000000)"
    and spaceN: "GetSpace drvN engN (fl_space flA) = Inr (spN, ownerN)" "sp_SymmetricKey spN = key"
    and dl: "node_deliver B L bl C nowN drvN n engN env fsD s (we_PeerID x) x (None, Some (pth, out), s')"
    and pth: "pth \<noteq> Relayed"
    and src: "sf_open (dv_src env pth) = Some rdr" "healthy rdr" and inp: "dv_in env pth = map Some (rv_sent rv)"
    and bob: "loadOrGenerateIdentity C ieB (fl_identity flB) fsB = (Inr bob, fsB1)" "fl_recipientPubkey flA = encodeKey (PublicKey bob)"
      "PublicKey bob \<noteq> []"
    and space: "fl_space flA \<noteq> []" "fl_space flB = fl_space flA" "GetSpace drv engB (fl_space flB) = Inr (spB, owner)" "sp_SymmetricKey spB = key"
    and recv: "ReceiveOnceWithOptions bl C txt nowB (receive_opts flB True auth bob key) dir cv envs (Some engB) fsB1 (map Some out) = (res, rv)"
    and cv: "conn_ok cv" and nm: "plain_name nm" "path_base filePath = nm"
    and disk: "on_disk dir nm (sf_size (dv_src env pth)) (sf_mtime (dv_src env pth)) (cdc_split (rest_of rdr)) i fsB1"
    and temps: "temps_clear (keep_files dir nm) envs" and engB: "engine_clear dir nm (Some engB)"
    and range: "in_int64 (sf_size (dv_src env pth))" "in_int64 (sf_mtime (dv_src env pth))" "in_int64 (int (length (cdc_split (rest_of rdr))))"
  shows "receive_cmd bl C txt ieB nowB drv flB True auth dir cv envs engB fsB (map Some out) = (map_option CmdReceiveErr res, rv_fs rv) \<and>
    (res = None \<longrightarrow> rv_fs rv (path_join dir nm) = Some (rest_of rdr)) \<and>
    ((\<forall>k. recv_env_ok (keep_files dir nm) (envs k)) \<longrightarrow> res = None)"
proof -
  obtain rid q where q: "entry_payload (we_Payload x) = Some q" "payload_get q ''file_path'' = filePath"
    and auth: "loadTransferAuth C nowN drvN n engN q = Inr (tok, key, rid)"
    using queued_auth [OF W send queue utf8 entry space(1) now(1,2) spaceN] by blast
  from dl q auth have "opens_file env filePath"
    and "DelivererSendFile B L bl C (node_deliverer n (we_PeerID x) q (tok, key, rid)) queue_opts env (Some engN) fsD s (None, Some (pth, out), s')"
    by (auto elim!: node_deliver.cases)
  moreover have "same_session C nowB (quic_opts (node_deliverer n (we_PeerID x) q (tok, key, rid)) queue_opts) (receive_opts flB True auth bob key)"
    using commands_agree [OF C(1) me send now time space(1) bob(2,3)]
    by (simp add: same_session_def quic_opts_def node_deliverer_def send_deliverer_def)
  moreover have "do_Resume queue_opts" "fl_space flB \<noteq> []" using space(1,2) by (simp_all add: queue_opts_def)
  ultimately show ?thesis
    using delivery_arrives [OF C(2) _ _ _ pth _ src inp bob(1) _ space(3,4) recv cv nm disk temps engB range] by blast
qed

text \<open>The peers of the witness: bob's key is in the flags of the sender, both know the space.\<close>

definition bob_env :: identity_env where
  "bob_env = demo_identity_env\<lparr>ie_rnd := (\<lambda>n. Some (replicate n (CHR ''b'')))\<rparr>"

definition bob_key :: bytes where
  "bob_key = replicate 32 (CHR ''b'')"

abbreviation bob_files :: files where
  "bob_files \<equiv> [''id.key'' \<mapsto> replicate 64 (CHR ''b'')]"

abbreviation bob_identity :: identity where
  "bob_identity \<equiv> \<lparr>PublicKey = bob_key, PrivateKey = replicate 64 (CHR ''b'')\<rparr>"

definition direct_flags :: cli_flags where
  "direct_flags = (demo_flags ''f00d'')\<lparr>fl_relay := [], fl_recipientPubkey := encodeKey bob_key\<rparr>"

definition direct_env :: deliver_env where
  "direct_env = demo_deliver_env\<lparr>dv_src := (\<lambda>_. demo_source), dv_in := (\<lambda>_. [Some (plain_packet ''auth_ok'' []), Some (resume_ack 0)])\<rparr>"

lemma bob:
  "loadOrGenerateIdentity demo_crypto bob_env ''id.key'' Map.empty = (Inr bob_identity, bob_files)" "bob_key \<noteq> []"
  by (simp_all add: loadOrGenerateIdentity_def bob_env_def demo_identity_env_def GenerateIdentity_def SaveIdentity_def bob_key_def demo_crypto_def
      min_def replicate_add [symmetric])

lemma direct_built:
  "\<exists>p st fs1. buildSendPayload demo_crypto demo_identity_env 5000000000 True direct_flags demo_spaced Map.empty ''docs/a.txt'' ''peer:1'' =
       (Inr (p, Some st, sp_SymmetricKey demo_space), fs1) \<and>
     IssueToken demo_crypto 5000000000 demo_me bob_key ''f00d'' PermWrite 86400000000000 = Inr st"
proof -
  obtain st where "IssueToken demo_crypto 5000000000 demo_me bob_key ''f00d'' PermWrite 86400000000000 = Inr st"
    using identity_sign(1) [OF demo_laws(1) demo_me(2)] by (simp add: IssueToken_def Let_def)
  moreover have "length bob_key = 32" by (simp add: bob_key_def)
  then have "decodeKey (encodeKey bob_key) = Inr bob_key" "encodeKey bob_key \<noteq> []"
    by (simp_all add: decodeKey_def encodeKey_def hex_decode_encode) (auto simp: hex_encode_def)
  ultimately show ?thesis
    by (simp add: buildSendPayload_def direct_flags_def demo_flags_def demo_me(1) demo_spaced(3)) (simp add: demo_space_def)
qed

text \<open>The chunk of the example is stored without an error.\<close>

lemma demo_spaced_dir: "en_chunkDir demo_spaced = ''chunks''" "\<exists>d. sq_db (en_sqlite demo_spaced) = SqlOpen d"
  by (simp_all add: demo_spaced_def SaveSpace_def Let_def sql_exec_def busy_engine_def demo_engine_def)

lemma spaced_stores: "\<exists>sc e fs. WriteChunk id smooth_fs [] True demo_spaced no_files ''hi'' = (Inr sc, e, fs)"
proof -
  obtain d where "sq_db (en_sqlite demo_spaced) = SqlOpen d" using demo_spaced_dir(2) by blast
  then have "\<exists>e' fs'. WriteChunk id smooth_fs [] True demo_spaced no_files ''hi'' = (Inr \<lparr>sc_Hash = HashChunk id ''hi'',
      sc_Path = chunk_path (en_chunkDir demo_spaced) (HashChunk id ''hi''), sc_Size = int (length ''hi'')\<rparr>, e', fs')"
    by (intro write_chunk_succeeds) (simp_all add: smooth_fs_def demo_spaced_dir)
  then show ?thesis by blast
qed

text \<open>A run of the sender with a token and a key, and what a receiver that accepts the token answers.\<close>

lemma sealed_sends:
  assumes eng: "eng \<in> {None, Some demo_spaced}" and tok: "so_AuthToken opts = Some st" "so_SpaceKey opts \<noteq> []" "DeriveTransferSessionKey demo_crypto (so_SpaceKey opts) st = Inr k"
    and k: "length k = 32" and o: "so_Resume opts" "so_Parallelism opts = 1"
  shows "\<exists>pkt. pk_Type pkt \<noteq> ''start'' \<and> SendFileWithOptions id demo_crypto opts demo_source demo_send_env eng no_files
      [Some (plain_packet ''auth_ok'' []), Some (resume_ack 0)]
      (None, [auth_packet st, start_packet ''docs/a.txt'' 2 7, pkt, plain_packet ''end'' []])"
proof -
  let ?env = "demo_env\<lparr>je_rnd := (\<lambda>n. Some (replicate n (CHR ''n'')))\<rparr>"
  let ?in = "[Some (plain_packet ''auth_ok'' []), Some (resume_ack 0)]"
  obtain c where c: "ProtectChunk demo_crypto (je_rnd ?env) k (ck_Data demo_chunk) = Inr c"
    using k by (simp add: ProtectChunk_def Encrypt_def SpaceKeySize_def)
  define pkt where "pkt = chunk_packet 0 demo_chunk c"
  have pkt: "pk_Type pkt \<noteq> ''start''" "pk_Size pkt = 2"
    by (simp_all add: pkt_def chunk_packet_def plain_packet_def demo_chunk_def emit_def)
  have seal: "seal_job demo_crypto k ?env (0, demo_chunk) = Inr (0, pkt)" using c k by (auto simp: seal_job_def pkt_def)
  obtain eng' fs' where "run_job id demo_crypto k ?env (0, demo_chunk) eng no_files = (Inr (0, pkt), eng', fs')"
    using eng seal spaced_stores by (auto simp: run_job_def demo_env_def demo_chunk_def emit_def)
  then obtain s where s: "preach id demo_crypto k (start_pipeline 1 0 [demo_chunk] False 5 eng no_files) s" "pl_main s = Returned None"
    "wr_sent (pl_writer s) = [pkt]"
    using demo_run_with [of ?env id demo_crypto k eng no_files pkt eng' fs'] pkt(2) by (auto simp: rand_ok_def)
  have started: "send_setup demo_crypto opts demo_source demo_send_env ?in =
      (Inr (k, 0), [auth_packet st, start_packet ''docs/a.txt'' 2 7])"
    using tok o by (simp add: send_setup_def clientSessionKey_def runClientAuth_def demo_send_env_def demo_source_def
        resume_ack_def plain_packet_def Let_def)
  have dr: "drain id (NewBufferedChunker [(''hi'', ReadOK)]) = ([demo_chunk], False)"
    using drain_new [of "[(''hi'', ReadOK)]" id] by (simp add: demo_split demo_chunk_def)
  have "preach id demo_crypto k (start_pipeline (workers opts) 0 [demo_chunk] False (sv_room demo_send_env) eng no_files) s"
    using s(1) o by (simp add: demo_send_env_def workers_def)
  from send_stream.transfers [OF started dr this s(2)]
  have "send_stream id demo_crypto opts demo_source [(''hi'', ReadOK)] demo_send_env eng no_files ?in
      (None, [auth_packet st, start_packet ''docs/a.txt'' 2 7, pkt, plain_packet ''end'' []])"
    by (simp add: send_finish_def demo_send_env_def s(3))
  then have "SendFileOverConn id demo_crypto opts demo_source demo_send_env eng no_files ?in
      (None, [auth_packet st, start_packet ''docs/a.txt'' 2 7, pkt, plain_packet ''end'' []])"
    by (simp add: send_over_conn_simps demo_source_def demo_send_env_def)
  then show ?thesis using pkt(1) by (intro exI [of _ pkt] conjI SendFileWithOptions.intros(2)) (simp_all add: demo_send_env_def)
qed

lemma bob_ready: "engine_clear ''out'' ''a.txt'' (Some demo_spaced)" "on_disk ''out'' ''a.txt'' sz mt ds 0 bob_files"
proof -
  show "engine_clear ''out'' ''a.txt'' (Some demo_spaced)"
    using demo_spaced_dir by (simp add: engine_clear_def Receiver.engine_ready_def chunk_path_def filepath_join_def demo_names resume_path_def)
  show "on_disk ''out'' ''a.txt'' sz mt ds 0 bob_files"
    by (simp add: on_disk_def saved_index_def loadState_def demo_names resume_path_def)
qed

lemma sealed_acked:
  assumes ver: "ro_Identity ropts = Some me" "VerifyToken demo_crypto t st (Some (PublicKey me)) = Inr v"
    and key: "ro_SpaceKey ropts \<noteq> []" "DeriveTransferSessionKey demo_crypto (ro_SpaceKey ropts) st = Inr k"
    and opts: "ro_Resume ropts" and pkt: "pk_Type pkt \<noteq> ''start''"
    and out: "out = [auth_packet st, start_packet ''docs/a.txt'' 2 7, pkt, plain_packet ''end'' []]"
    and recv: "ReceiveOnceWithOptions id demo_crypto txt t ropts ''out'' demo_conn (\<lambda>_. demo_recv_env) (Some demo_spaced) bob_files
      (map Some out) = (res, rv)"
  shows "rv_sent rv = [plain_packet ''auth_ok'' [], resume_ack 0]"
proof -
  let ?r = "[Some pkt, Some (plain_packet ''end'' [])]" and ?st = "start_packet ''docs/a.txt'' 2 7"
  have cv: "conn_ok demo_conn" by (simp add: conn_ok_def demo_conn_def)
  have types: "pk_Type p \<noteq> ''start''" if "Some p \<in> set ?r" for p using that pkt by (auto simp: plain_packet_def)
  have k: "if ro_SpaceKey ropts = [] then k = [] else DeriveTransferSessionKey demo_crypto (ro_SpaceKey ropts) st = Inr k" using key by simp
  have "rv = snd (receive_loop id demo_crypto ropts k ''out'' (\<lambda>_. demo_recv_env) 0 (Some ?st # ?r)
      (new_receiver (Some demo_spaced) bob_files [plain_packet ''auth_ok'' []]))"
    using receive_authenticated [where r = "Some ?st # ?r" and bl = id and dir = "''out''" and envs = "\<lambda>_. demo_recv_env" and
        eng = "Some demo_spaced" and fs = bob_files, OF cv ver k] recv
    by (cases "receive_loop id demo_crypto ropts k ''out'' (\<lambda>_. demo_recv_env) 0 (Some ?st # ?r)
      (new_receiver (Some demo_spaced) bob_files [plain_packet ''auth_ok'' []])") (simp add: out del: receive_loop.simps)
  then show ?thesis
    using ack_sent [where envs = "\<lambda>_. demo_recv_env" and k = 0 and bl = id and C = demo_crypto and key = k and sent = "[plain_packet ''auth_ok'' []]"
        and r = "?r" and sz = 2 and mt = 7 and ds = "[]", OF bob_ready(2) demo_names(1,2) demo_recv_ok bob_ready(1) opts types]
    by (simp del: receive_loop.simps)
qed

lemma demo_sending: "in_int64 (unix 5000000000)" "in_int64 (unix (5000000000 + 86400000000000))" "unix (5000000000 + 86400000000000) \<noteq> 0"
    "9 \<le> unix (5000000000 + 86400000000000)" "length (sp_SymmetricKey demo_space) = SpaceKeySize" "sp_SymmetricKey demo_space \<noteq> []"
  by (simp_all add: unix_def in_int64_def int64_min_def int64_max_def demo_space_def SpaceKeySize_def)

text \<open>A delivery over QUIC to bob with a token for him, and what bob's \<open>vault receive\<close> answers.\<close>

lemma sealed_delivery:
  assumes st: "IssueToken demo_crypto 5000000000 demo_me bob_key ''f00d'' PermWrite 86400000000000 = Inr st"
    and d: "dl_AuthToken d = Some st" "dl_SpaceKey d = sp_SymmetricKey demo_space" "dl_PeerAddr d = ''peer:1''"
    and o: "do_Resume opts" "do_Parallelism opts = 1" "\<not> do_ForceRelay opts" and eng: "eng \<in> {None, Some demo_spaced}"
  obtains out res rv where
    "DelivererSendFile ref_ops demo_relay_lib id demo_crypto d opts direct_env eng no_files demo_relay (None, Some (Direct, out), demo_relay)"
    "ReceiveOnceWithOptions id demo_crypto (\<lambda>_. []) 9 (receive_opts (demo_flags ''f00d'') True False bob_identity (sp_SymmetricKey demo_space)) ''out''
       demo_conn (\<lambda>_. demo_recv_env) (Some demo_spaced) bob_files (map Some out) = (res, rv)"
    "dv_in direct_env Direct = map Some (rv_sent rv)"
proof -
  let ?key = "sp_SymmetricKey demo_space"
  let ?r = "receive_opts (demo_flags ''f00d'') True False bob_identity ?key"
  obtain k where k: "DeriveTransferSessionKey demo_crypto ?key st = Inr k" "length k = 32"
    using issued_session(2) [OF st demo_sending(1,2) demo_laws(3) demo_sending(5)] by blast
  have q: "so_AuthToken (quic_opts d opts) = Some st" "so_SpaceKey (quic_opts d opts) = ?key" "so_Resume (quic_opts d opts)"
    "so_Parallelism (quic_opts d opts) = 1" "sessionKey demo_crypto d = Inr k"
    using d o by (simp_all add: quic_opts_def sessionKey_def demo_sending(6) k)
  obtain pkt where pkt: "pk_Type pkt \<noteq> ''start''" and sent: "SendFileWithOptions id demo_crypto (quic_opts d opts) demo_source demo_send_env
      eng no_files [Some (plain_packet ''auth_ok'' []), Some (resume_ack 0)]
      (None, [auth_packet st, start_packet ''docs/a.txt'' 2 7, pkt, plain_packet ''end'' []])"
    using sealed_sends [of eng "quic_opts d opts" st k] q k demo_sending(6) eng by auto
  define out where "out = [auth_packet st, start_packet ''docs/a.txt'' 2 7, pkt, plain_packet ''end'' []]"
  have sent': "SendFileWithOptions id demo_crypto (quic_opts d opts) (dv_src direct_env Direct) (dv_conn direct_env Direct)
      eng no_files (dv_in direct_env Direct) (None, out)"
    using sent by (simp add: out_def direct_env_def demo_deliver_env_def)
  obtain res rv where recv: "ReceiveOnceWithOptions id demo_crypto (\<lambda>_. []) 9 ?r ''out'' demo_conn (\<lambda>_. demo_recv_env) (Some demo_spaced) bob_files
      (map Some out) = (res, rv)" by fastforce
  obtain v where v: "VerifyToken demo_crypto 9 st (Some bob_key) = Inr v"
    using VerifyToken_issued [OF demo_laws(1) demo_me(2) demo_sending(1-3) st, of 9 "Some bob_key"] demo_sending(4) by auto
  have ack: "rv_sent rv = [plain_packet ''auth_ok'' [], resume_ack 0]"
    by (rule sealed_acked [OF _ _ _ _ _ pkt out_def recv, of bob_identity v k]) (simp_all add: receive_opts_def v k demo_sending(6))
  show ?thesis
  proof (rule that [OF _ recv])
    show "DelivererSendFile ref_ops demo_relay_lib id demo_crypto d opts direct_env eng no_files demo_relay (None, Some (Direct, out), demo_relay)"
      by (rule direct_ok [OF q(5) o(3)]) (rule direct_tier.direct [OF _ sent'], simp add: d)
    show "dv_in direct_env Direct = map Some (rv_sent rv)" by (simp add: ack direct_env_def)
  qed
qed

lemma direct_facts:
  "fl_resume direct_flags" "fl_identity direct_flags = ''id.key''" "fl_identity (demo_flags ''f00d'') = ''id.key''" "fl_space direct_flags = ''f00d''"
  "fl_space (demo_flags ''f00d'') = ''f00d''" "fl_recipientPubkey direct_flags = encodeKey (PublicKey bob_identity)"
  "opens_file direct_env ''docs/a.txt''" "dv_src direct_env p = demo_source"
  "do_Resume (send_deliver_opts direct_flags)" "do_Parallelism (send_deliver_opts direct_flags) = 1" "\<not> do_ForceRelay (send_deliver_opts direct_flags)"
  by (simp_all add: direct_flags_def demo_flags_def opens_file_def direct_env_def demo_source_def send_deliver_opts_def)

lemma direct_utf8: "utf8_valid ''docs/a.txt''" "utf8_valid ''peer:1''" "utf8_valid (fl_recipientID direct_flags)" "utf8_valid (fl_space direct_flags)"
  by code_simp+

lemma direct_space: "GetSpace True demo_spaced (fl_space (demo_flags ''f00d'')) = Inr (demo_space\<lparr>sp_CreatedAt := 0\<rparr>, ''alice'')"
  by (simp add: direct_facts demo_spaced)

lemma direct_disk:
  "on_disk ''out'' ''a.txt'' (sf_size (dv_src direct_env Direct)) (sf_mtime (dv_src direct_env Direct)) (cdc_split (rest_of [(''hi'', ReadOK)])) 0 bob_files"
  by (rule bob_ready(2))

theorem vault_send_arrives_witness:
  "\<exists>p st fsA out rv. buildSendPayload demo_crypto demo_identity_env 5000000000 True direct_flags demo_spaced Map.empty ''docs/a.txt'' ''peer:1'' =
       (Inr (p, Some st, sp_SymmetricKey demo_space), fsA) \<and>
     DelivererSendFile ref_ops demo_relay_lib id demo_crypto (send_deliverer direct_flags ''peer:1'' (Some st) (sp_SymmetricKey demo_space))
       (send_deliver_opts direct_flags) direct_env no_engine no_files demo_relay (None, Some (Direct, out), demo_relay) \<and>
     receive_cmd id demo_crypto (\<lambda>_. []) bob_env 9 True (demo_flags ''f00d'') True False ''out'' demo_conn (\<lambda>_. demo_recv_env) demo_spaced Map.empty
       (map Some out) = (None, rv) \<and> rv (path_join ''out'' ''a.txt'') = Some ''hi''"
proof -
  let ?key = "sp_SymmetricKey demo_space" and ?fl = "demo_flags ''f00d''"
  obtain p st fsA where b: "buildSendPayload demo_crypto demo_identity_env 5000000000 True direct_flags demo_spaced Map.empty ''docs/a.txt'' ''peer:1'' =
      (Inr (p, Some st, ?key), fsA)" and st: "IssueToken demo_crypto 5000000000 demo_me bob_key ''f00d'' PermWrite 86400000000000 = Inr st"
    using direct_built by blast
  have d: "dl_AuthToken (send_deliverer direct_flags ''peer:1'' (Some st) ?key) = Some st"
    "dl_SpaceKey (send_deliverer direct_flags ''peer:1'' (Some st) ?key) = ?key" "dl_PeerAddr (send_deliverer direct_flags ''peer:1'' (Some st) ?key) = ''peer:1''"
    by (simp_all add: send_deliverer_def)
  obtain out res rv where dl: "DelivererSendFile ref_ops demo_relay_lib id demo_crypto (send_deliverer direct_flags ''peer:1'' (Some st) ?key)
      (send_deliver_opts direct_flags) direct_env no_engine no_files demo_relay (None, Some (Direct, out), demo_relay)"
    and recv: "ReceiveOnceWithOptions id demo_crypto (\<lambda>_. []) 9 (receive_opts ?fl True False bob_identity ?key) ''out'' demo_conn (\<lambda>_. demo_recv_env)
      (Some demo_spaced) bob_files (map Some out) = (res, rv)" and inp: "dv_in direct_env Direct = map Some (rv_sent rv)"
    using sealed_delivery [OF st d direct_facts(9-11), of no_engine] by blast
  have run: "receive_cmd id demo_crypto (\<lambda>_. []) bob_env 9 True ?fl True False ''out'' demo_conn (\<lambda>_. demo_recv_env) demo_spaced Map.empty (map Some out) =
      (map_option CmdReceiveErr res, rv_fs rv) \<and> (res = None \<longrightarrow> rv_fs rv (path_join ''out'' ''a.txt'') = Some (rest_of [(''hi'', ReadOK)])) \<and>
      ((\<forall>k::nat. recv_env_ok (keep_files ''out'' ''a.txt'') demo_recv_env) \<longrightarrow> res = None)"
    by (rule vault_send_arrives [OF demo_laws(1,2) _ demo_me(2) b demo_sending(1-4) direct_facts(1) dl _ direct_facts(7) _ demo_session(6) inp _
          direct_facts(6) _ _ _ direct_space _ recv demo_session(1) demo_names(1) _ direct_disk recv_env_temps [OF demo_recv_ok]])
      (simp_all add: direct_facts demo_me bob demo_spaced demo_session demo_names bob_ready)
  then have "receive_cmd id demo_crypto (\<lambda>_. []) bob_env 9 True ?fl True False ''out'' demo_conn (\<lambda>_. demo_recv_env) demo_spaced Map.empty (map Some out) =
      (None, rv_fs rv) \<and> rv_fs rv (path_join ''out'' ''a.txt'') = Some (rest_of [(''hi'', ReadOK)])" using demo_recv_ok by auto
  then show ?thesis using b dl unfolding demo_session(7) by blast
qed

theorem queued_transfer_arrives_witness:
  "\<exists>p st fsA e eng1 out rv. buildSendPayload demo_crypto demo_identity_env 5000000000 True direct_flags demo_spaced Map.empty ''docs/a.txt'' ''peer:1'' =
       (Inr (p, Some st, sp_SymmetricKey demo_space), fsA) \<and>
     api_enqueue (engine_api ref_ops) 5 demo_spaced ''peer:1'' ''send_file'' (Some (marshal payload_fields p)) = (Inr e, eng1) \<and>
     node_deliver ref_ops demo_relay_lib id demo_crypto 7000000000 True demo_node demo_spaced direct_env no_files demo_relay ''peer:1''
       ((canon_entry e)\<lparr>we_Retries := 1\<rparr>) (None, Some (Direct, out), demo_relay) \<and>
     receive_cmd id demo_crypto (\<lambda>_. []) bob_env 9 True (demo_flags ''f00d'') True False ''out'' demo_conn (\<lambda>_. demo_recv_env) demo_spaced Map.empty
       (map Some out) = (None, rv) \<and> rv (path_join ''out'' ''a.txt'') = Some ''hi''"
proof -
  let ?key = "sp_SymmetricKey demo_space" and ?fl = "demo_flags ''f00d''"
  obtain p st fsA where b: "buildSendPayload demo_crypto demo_identity_env 5000000000 True direct_flags demo_spaced Map.empty ''docs/a.txt'' ''peer:1'' =
      (Inr (p, Some st, ?key), fsA)" and st: "IssueToken demo_crypto 5000000000 demo_me bob_key ''f00d'' PermWrite 86400000000000 = Inr st"
    using direct_built by blast
  obtain e eng1 where q: "api_enqueue (engine_api ref_ops) 5 demo_spaced ''peer:1'' ''send_file'' (Some (marshal payload_fields p)) = (Inr e, eng1)"
    using demo_enqueue payload_stored(1) [OF send_payload(1) [OF b]] by blast
  let ?x = "(canon_entry e)\<lparr>we_Retries := 1\<rparr>"
  have x: "entry_core ?x = entry_core (canon_entry e)" by (simp add: entry_core_def)
  have "we_PeerID e = ''peer:1''" using wal_engine.enqueue_Inr [OF engine_wal [OF wal_bucket_ref] q demo_spaced(1) demo_times(1)] by auto
  then have peer: "we_PeerID ?x = ''peer:1''" by simp
  have sp: "GetSpace True demo_spaced (fl_space direct_flags) = Inr (demo_space\<lparr>sp_CreatedAt := 0\<rparr>, ''alice'')" "fl_space direct_flags \<noteq> []"
    "sp_SymmetricKey (demo_space\<lparr>sp_CreatedAt := 0\<rparr>) = ?key" by (simp_all add: direct_facts demo_spaced)
  obtain rid pl where pl: "entry_payload (we_Payload ?x) = Some pl" "payload_get pl ''file_path'' = ''docs/a.txt''"
    "payload_get pl ''peer_addr'' = ''peer:1''" and auth: "loadTransferAuth demo_crypto 7000000000 True demo_node demo_spaced pl = Inr (Some st, ?key, rid)"
    using queued_auth [OF wal_bucket_ref demo_spaced(1) demo_times(1) b q direct_utf8 x sp(2) demo_sending(1,2) sp(1,3)] by blast
  let ?d = "node_deliverer demo_node (we_PeerID ?x) pl (Some st, ?key, rid)"
  have d: "dl_AuthToken ?d = Some st" "dl_SpaceKey ?d = ?key" "dl_PeerAddr ?d = ''peer:1''"
    by (simp_all add: node_deliverer_def pl(3))
  have o: "do_Resume queue_opts" "do_Parallelism queue_opts = 1" "\<not> do_ForceRelay queue_opts" by (simp_all add: queue_opts_def)
  obtain out res rv where dl: "DelivererSendFile ref_ops demo_relay_lib id demo_crypto ?d queue_opts direct_env (Some demo_spaced) no_files demo_relay
      (None, Some (Direct, out), demo_relay)"
    and recv: "ReceiveOnceWithOptions id demo_crypto (\<lambda>_. []) 9 (receive_opts ?fl True False bob_identity ?key) ''out'' demo_conn (\<lambda>_. demo_recv_env)
      (Some demo_spaced) bob_files (map Some out) = (res, rv)" and inp: "dv_in direct_env Direct = map Some (rv_sent rv)"
    using sealed_delivery [OF st d o, of "Some demo_spaced"] by blast
  have open_pl: "opens_file direct_env (payload_get pl ''file_path'')" using pl(2) direct_facts(7) by simp
  have nd: "node_deliver ref_ops demo_relay_lib id demo_crypto 7000000000 True demo_node demo_spaced direct_env no_files demo_relay (we_PeerID ?x)
      ?x (None, Some (Direct, out), demo_relay)"
    using node_deliver.delivers [OF pl(1) auth open_pl dl] by simp
  have run: "receive_cmd id demo_crypto (\<lambda>_. []) bob_env 9 True ?fl True False ''out'' demo_conn (\<lambda>_. demo_recv_env) demo_spaced Map.empty (map Some out) =
      (map_option CmdReceiveErr res, rv_fs rv) \<and> (res = None \<longrightarrow> rv_fs rv (path_join ''out'' ''a.txt'') = Some (rest_of [(''hi'', ReadOK)])) \<and>
      ((\<forall>k::nat. recv_env_ok (keep_files ''out'' ''a.txt'') demo_recv_env) \<longrightarrow> res = None)"
    by (rule queued_transfer_arrives [OF demo_laws(1,2) _ demo_me(2) wal_bucket_ref demo_spaced(1) demo_times(1) b q direct_utf8 x demo_sending(1-4) sp(1,3) nd _ _
          demo_session(6) inp _ direct_facts(6) _ sp(2) _ direct_space _ recv demo_session(1) demo_names(1) _ direct_disk recv_env_temps [OF demo_recv_ok]])
      (simp_all add: direct_facts demo_me bob demo_spaced demo_session demo_names bob_ready)
  then have "receive_cmd id demo_crypto (\<lambda>_. []) bob_env 9 True ?fl True False ''out'' demo_conn (\<lambda>_. demo_recv_env) demo_spaced Map.empty (map Some out) =
      (None, rv_fs rv) \<and> rv_fs rv (path_join ''out'' ''a.txt'') = Some (rest_of [(''hi'', ReadOK)])" using demo_recv_ok by auto
  then show ?thesis using b q nd unfolding demo_session(7) peer by blast
qed

end
